(* ===== verification/Prelude.thy ===== *)
theory Prelude
  imports Complex_Main "HOL-Library.Multiset"
begin

text \<open>
  Shared material: the status codes of RocksDB's \<open>IOStatus\<close>/\<open>Status\<close>, unsigned machine
  arithmetic with its wrap-around written out, and generic lemmas on lists and sums that the
  component theories use.

  Conventions of the whole development:
  \<^item> a C++ \<open>char\<close> is a \<open>char\<close> of HOL (eight bits), so \<open>std::string\<close> and \<open>Slice\<close> are \<open>string\<close>;
  \<^item> \<open>uint64_t\<close>/\<open>uint32_t\<close>/\<open>unsigned\<close> values are \<open>nat\<close>; a subtraction, and an addition or a
    multiplication that the code itself does not bound, is written with the operators below;
  \<^item> \<open>int\<close> and \<open>long\<close> values are \<open>int\<close>;
  \<^item> a call that may never return (it blocks, loops for ever or dereferences a null pointer)
    has a result of type \<open>_ option\<close>, and \<open>None\<close> is that outcome;
  \<^item> an \<open>assert\<close> has no effect on the state (the release build); where it matters that it
    holds, a lemma says so.
\<close>

section \<open>Status codes\<close>

text \<open>
  \<open>IOStatus\<close> and \<open>Status\<close> compare by code only (\<open>io_status.h\<close>, \<open>operator==\<close>), so a status is
  its code; messages are left out.
\<close>

datatype status = OK | NotFound | Corruption | NotSupported | InvalidArgument
  | IOError | NoSpace | Aborted

section \<open>Unsigned machine arithmetic\<close>

definition add64 :: "nat \<Rightarrow> nat \<Rightarrow> nat" where
  "add64 a b = (a + b) mod 2 ^ 64"

definition sub64 :: "nat \<Rightarrow> nat \<Rightarrow> nat" where
  "sub64 a b = (a + (2 ^ 64 - b mod 2 ^ 64)) mod 2 ^ 64"

definition mul64 :: "nat \<Rightarrow> nat \<Rightarrow> nat" where
  "mul64 a b = (a * b) mod 2 ^ 64"

definition cast32 :: "nat \<Rightarrow> nat" where
  "cast32 a = a mod 2 ^ 32"

text \<open>Conversion of an unsigned 32-bit pattern, and of any integer, to \<open>int\<close> (two's complement).\<close>

definition cast_int32 :: "int \<Rightarrow> int" where
  "cast_int32 i = (i + 2 ^ 31) mod 2 ^ 32 - 2 ^ 31"

named_theorems u64_simps

lemma add64_small [u64_simps]: "a + b < 2 ^ 64 \<Longrightarrow> add64 a b = a + b"
  by (simp add: add64_def)

lemma mul64_small [u64_simps]: "a * b < 2 ^ 64 \<Longrightarrow> mul64 a b = a * b"
  by (simp add: mul64_def)

lemma cast32_small [u64_simps]: "a < 2 ^ 32 \<Longrightarrow> cast32 a = a"
  by (simp add: cast32_def)

lemma cast32_le [simp]: "cast32 a \<le> a"
  by (simp add: cast32_def)

lemma sub64_le [u64_simps]:
  assumes "b \<le> a" "a < 2 ^ 64"
  shows "sub64 a b = a - b"
proof -
  have "a + (2 ^ 64 - b mod 2 ^ 64) = (a - b) + 2 ^ 64"
    using assms by simp
  then have "sub64 a b = ((a - b) + 2 ^ 64) mod 2 ^ 64"
    by (simp only: sub64_def)
  also have "\<dots> = a - b"
    using assms by (simp only: mod_add_self2) simp
  finally show ?thesis .
qed

lemma sub64_wrap:
  assumes "a < b" "b < 2 ^ 64"
  shows "sub64 a b = 2 ^ 64 - (b - a)"
  using assms by (simp add: sub64_def)

lemma sub64_bound [simp]: "sub64 a b < 2 ^ 64" and add64_bound [simp]: "add64 a b < 2 ^ 64"
  and mul64_bound [simp]: "mul64 a b < 2 ^ 64"
  by (simp_all add: sub64_def add64_def mul64_def)

lemma sub64_self [simp]: "sub64 a a = 0"
proof -
  have "(a + (2 ^ 64 - a mod 2 ^ 64)) mod 2 ^ 64 = (a mod 2 ^ 64 + (2 ^ 64 - a mod 2 ^ 64)) mod 2 ^ 64"
    by (simp only: mod_add_left_eq)
  also have "a mod 2 ^ 64 + (2 ^ 64 - a mod 2 ^ 64) = 2 ^ 64"
    by (simp add: order_less_imp_le)
  finally show ?thesis
    by (simp add: sub64_def)
qed

lemma sub64_zero [simp]: "a < 2 ^ 64 \<Longrightarrow> sub64 a 0 = a"
  by (simp add: sub64_def)

lemma cast_int32_small: "- (2 ^ 31) \<le> i \<Longrightarrow> i < 2 ^ 31 \<Longrightarrow> cast_int32 i = i"
  by (simp add: cast_int32_def)

section \<open>Lists\<close>

lemma distinct_nth_eq: "distinct xs \<Longrightarrow> i < length xs \<Longrightarrow> j < length xs \<Longrightarrow> xs ! i = xs ! j \<longleftrightarrow> i = j"
  by (simp add: nth_eq_iff_index_eq)

lemma sum_list_upd_other: "x \<notin> set xs \<Longrightarrow> sum_list (map (f(x := y)) xs) = sum_list (map f xs)"
  by (induction xs) auto

lemma map_fun_upd_notin: "x \<notin> set xs \<Longrightarrow> map (f(x := y)) xs = map f xs"
  by (induction xs) auto

lemma sum_list_member_le: "x \<in> set xs \<Longrightarrow> f x \<le> sum_list (map f xs)" for f :: "'a \<Rightarrow> nat"
  by (induction xs) auto

lemma find_SomeD: "find P xs = Some x \<Longrightarrow> x \<in> set xs \<and> P x"
  by (induction xs) (auto split: if_splits)

end
