(* ===== verification/Binary64.thy ===== *)
theory Binary64
  imports Prelude "HOL-Library.Log_Nat"
begin

text \<open>
  The \<open>double\<close> arithmetic of the placement policies. A finite double is the rational it
  denotes; every operation is the exact operation followed by \<open>rnd64\<close>, the rounding of IEEE
  binary64 (53 significant bits, to nearest, ties to even, gradual underflow). The values the
  code computes stay far below \<open>2 ^ 1024\<close>, so there is no infinity.
\<close>

definition ilog2 :: "rat \<Rightarrow> int" where
  "ilog2 x = (case quotient_of x of (n, d) \<Rightarrow>
     let k = int (floorlog 2 (nat n)) - int (floorlog 2 (nat d))
     in if 2 powi k \<le> x then k else k - 1)"

definition rne :: "rat \<Rightarrow> int" where
  "rne x = (let f = \<lfloor>x\<rfloor>; r = x - of_int f in
     if r < 1 / 2 then f else if 1 / 2 < r then f + 1 else if even f then f else f + 1)"

definition rnd_pos :: "rat \<Rightarrow> rat" where
  "rnd_pos x = (let e = max (ilog2 x - 52) (- 1074) in of_int (rne (x / 2 powi e)) * 2 powi e)"

definition rnd64 :: "rat \<Rightarrow> rat" where
  "rnd64 x = (if x = 0 then 0 else if 0 < x then rnd_pos x else - rnd_pos (- x))"

definition d_of_nat :: "nat \<Rightarrow> rat" where
  "d_of_nat n = rnd64 (of_nat n)"

definition d_mul :: "rat \<Rightarrow> rat \<Rightarrow> rat" where
  "d_mul x y = rnd64 (x * y)"

definition d_add :: "rat \<Rightarrow> rat \<Rightarrow> rat" where
  "d_add x y = rnd64 (x + y)"

definition d_div :: "rat \<Rightarrow> rat \<Rightarrow> rat" where
  "d_div x y = rnd64 (x / y)"

text \<open>Conversion of a non-negative double to an unsigned or signed integer truncates.\<close>

definition nat_of_d :: "rat \<Rightarrow> nat" where
  "nat_of_d x = nat \<lfloor>x\<rfloor>"

section \<open>Rounding is monotone and exact on small integers\<close>

lemma floorlog2_bounds:
  assumes "0 < a"
  shows "2 ^ (floorlog 2 a - 1) \<le> a" "a < 2 ^ floorlog 2 a" "0 < floorlog 2 a"
  using assms floorlog_bounds [of a 2] by (auto simp: floorlog_def)

lemma int_pow2_bounds:
  assumes "0 < m"
  shows "(2::rat) ^ (floorlog 2 (nat m) - 1) \<le> of_int m" "of_int m < (2::rat) ^ floorlog 2 (nat m)"
proof -
  have m: "of_int m = (of_nat (nat m) :: rat)" and p: "\<And>j. (2::rat) ^ j = of_nat (2 ^ j)"
    using assms by simp_all
  have "0 < nat m" using assms by simp
  note b = floorlog2_bounds [OF this]
  show "(2::rat) ^ (floorlog 2 (nat m) - 1) \<le> of_int m"
    unfolding m p of_nat_le_iff by (rule b)
  show "of_int m < (2::rat) ^ floorlog 2 (nat m)"
    unfolding m p of_nat_less_iff by (rule b)
qed

lemma ilog2_bounds:
  assumes "0 < x"
  shows "2 powi ilog2 x \<le> x \<and> x < 2 powi (ilog2 x + 1)"
proof -
  obtain n d where q: "quotient_of x = (n, d)" by force
  have d: "0 < d" using q by (rule quotient_of_denom_pos)
  have x: "x = of_int n / of_int d" using q by (rule quotient_of_div)
  with assms d have n: "0 < n" by (simp add: zero_less_divide_iff)
  define a b where "a = floorlog 2 (nat n)" and "b = floorlog 2 (nat d)"
  note n' = int_pow2_bounds [OF n, folded a_def] and d' = int_pow2_bounds [OF d, folded b_def]
  have pos: "0 < a" "0 < b"
    unfolding a_def b_def using n d by (simp_all add: floorlog2_bounds(3))
  define k where "k = int a - int b"
  have up: "x < 2 powi (k + 1)"
  proof -
    have "x < 2 ^ a / 2 ^ (b - 1)"
      unfolding x using n' d' d n by (intro frac_less) auto
    also have "\<dots> = 2 powi (int a - int (b - 1))"
      by (simp add: power_int_diff)
    finally show ?thesis using pos by (simp add: k_def algebra_simps of_nat_diff)
  qed
  have lo: "2 powi (k - 1) \<le> x"
  proof -
    have "k - 1 = int (a - 1) - int b" using pos by (simp add: k_def)
    then have "2 powi (k - 1) = (2::rat) ^ (a - 1) / 2 ^ b"
      by (simp add: power_int_diff)
    also have "\<dots> \<le> of_int n / of_int d"
      using n' d' d n by (intro frac_le) auto
    finally show ?thesis by (simp add: x)
  qed
  have "ilog2 x = (if 2 powi k \<le> x then k else k - 1)"
    by (simp add: ilog2_def q k_def a_def b_def)
  then show ?thesis using up lo by auto
qed


lemma rne_of_int [simp]: "rne (of_int i) = i"
  by (simp add: rne_def)

lemma rnd64_of_nat [simp]:
  assumes "n < 2 ^ 53"
  shows "rnd64 (of_nat n) = of_nat n"
proof (cases "n = 0")
  case False
  let ?x = "of_nat n :: rat"
  have x: "1 \<le> ?x" "?x < 2 powi 53" using False assms by (simp_all add: power_int_def) 
  have lo: "2 powi ilog2 ?x \<le> ?x" and up: "?x < 2 powi (ilog2 ?x + 1)"
    using ilog2_bounds [of ?x] x by linarith+
  have "ilog2 ?x < 53"
  proof (rule ccontr)
    assume "\<not> ?thesis"
    then have "2 powi 53 \<le> (2::rat) powi ilog2 ?x" by (intro power_int_increasing) simp_all
    with lo x show False by linarith
  qed
  moreover have "0 \<le> ilog2 ?x"
  proof (rule ccontr)
    assume "\<not> ?thesis"
    then have "(2::rat) powi (ilog2 ?x + 1) \<le> 2 powi 0" by (intro power_int_increasing) simp_all
    with up x show False by simp
  qed
  ultimately have k': "max (ilog2 ?x - 52) (- 1074) = - int (nat (52 - ilog2 ?x))"
    by linarith
  define k where "k = nat (52 - ilog2 ?x)"
  have k: "max (ilog2 ?x - 52) (- 1074) = - int k" unfolding k_def by (rule k')
  have "?x / 2 powi (- int k) = of_int (int n * 2 ^ k)"
    by (simp add: power_int_minus field_simps)
  then have "rne (?x / 2 powi (- int k)) = int n * 2 ^ k"
    by (simp only: rne_of_int)
  then show ?thesis
    using False by (simp add: rnd64_def rnd_pos_def Let_def k power_int_minus)
qed (simp add: rnd64_def)

lemma d_of_nat_exact [simp]: "n < 2 ^ 53 \<Longrightarrow> d_of_nat n = of_nat n"
  by (simp add: d_of_nat_def)

lemma d_mul_one [simp]: "n < 2 ^ 53 \<Longrightarrow> d_mul 1 (of_nat n) = of_nat n"
  by (simp add: d_mul_def)

lemma d_add_exact [simp]: "m + n < 2 ^ 53 \<Longrightarrow> d_add (of_nat m) (of_nat n) = of_nat (m + n)"
  unfolding d_add_def of_nat_add [symmetric] by (rule rnd64_of_nat)

lemma nat_of_d_of_nat [simp]: "nat_of_d (of_nat n) = n"
  by (simp add: nat_of_d_def)

section \<open>Monotonicity and relative error\<close>

lemma rne_cases:
  "rne x = \<lfloor>x\<rfloor> \<and> x - of_int \<lfloor>x\<rfloor> \<le> 1 / 2 \<or> rne x = \<lfloor>x\<rfloor> + 1 \<and> 1 / 2 \<le> x - of_int \<lfloor>x\<rfloor>"
  unfolding rne_def Let_def by (cases "x - of_int \<lfloor>x\<rfloor>" "1 / 2 :: rat" rule: linorder_cases) simp_all

lemma rne_upper: "of_int (rne x) \<le> x + 1 / 2"
proof -
  have "of_int \<lfloor>x\<rfloor> \<le> x" by linarith
  with rne_cases [of x] show ?thesis by (elim disjE conjE) (simp only: of_int_add of_int_1, linarith)+
qed

lemma rne_le_int:
  assumes "x \<le> of_int i"
  shows "rne x \<le> i"
proof -
  have "\<lfloor>x\<rfloor> \<le> i" "1 / 2 \<le> x - of_int \<lfloor>x\<rfloor> \<Longrightarrow> \<lfloor>x\<rfloor> + 1 \<le> i" using assms by linarith+
  with rne_cases [of x] show ?thesis by (elim disjE conjE) simp_all
qed

lemma rne_ge_int:
  assumes "of_int i \<le> x"
  shows "i \<le> rne x"
proof -
  have "i \<le> \<lfloor>x\<rfloor>" using assms by (simp add: le_floor_iff)
  with rne_cases [of x] show ?thesis by (elim disjE conjE) simp_all
qed

lemma rne_mono:
  assumes "x \<le> y"
  shows "rne x \<le> rne y"
proof (cases "\<lfloor>x\<rfloor> = \<lfloor>y\<rfloor>")
  case True
  then show ?thesis using assms by (auto simp: rne_def Let_def)
next
  case False
  with assms have "\<lfloor>x\<rfloor> + 1 \<le> \<lfloor>y\<rfloor>" using floor_mono [OF assms] by linarith
  moreover have "rne x \<le> \<lfloor>x\<rfloor> + 1" by (intro rne_le_int) linarith
  moreover have "\<lfloor>y\<rfloor> \<le> rne y" by (intro rne_ge_int) linarith
  ultimately show ?thesis by linarith
qed

lemma rnd_pos_le_pow:
  assumes "0 < x" "x \<le> 2 powi k" "max (ilog2 x - 52) (- 1074) \<le> k"
  shows "rnd_pos x \<le> 2 powi k"
proof -
  define e where "e = max (ilog2 x - 52) (- 1074)"
  define j where "j = nat (k - e)"
  have k: "k = e + int j" using assms(3) by (simp add: e_def j_def)
  have "x / 2 powi e \<le> of_int (2 ^ j)"
    using assms(2) by (simp add: k power_int_add field_simps)
  then have "rne (x / 2 powi e) \<le> 2 ^ j" by (rule rne_le_int)
  then have "of_int (rne (x / 2 powi e)) \<le> (2::rat) ^ j" by (metis of_int_le_iff of_int_numeral of_int_power)
  then have "of_int (rne (x / 2 powi e)) * 2 powi e \<le> (2::rat) ^ j * 2 powi e"
    by (rule mult_right_mono) simp
  then show ?thesis by (simp add: rnd_pos_def e_def [symmetric] Let_def k power_int_add mult.commute)
qed

lemma rnd_pos_ge_pow:
  assumes "0 < y" "2 powi k \<le> y" "max (ilog2 y - 52) (- 1074) \<le> k"
  shows "2 powi k \<le> rnd_pos y"
proof -
  define e where "e = max (ilog2 y - 52) (- 1074)"
  define j where "j = nat (k - e)"
  have k: "k = e + int j" using assms(3) by (simp add: e_def j_def)
  have "of_int (2 ^ j) \<le> y / 2 powi e"
    using assms(2) by (simp add: k power_int_add field_simps)
  then have "2 ^ j \<le> rne (y / 2 powi e)" by (rule rne_ge_int)
  then have "(2::rat) ^ j \<le> of_int (rne (y / 2 powi e))" by (metis of_int_le_iff of_int_numeral of_int_power)
  then have "(2::rat) ^ j * 2 powi e \<le> of_int (rne (y / 2 powi e)) * 2 powi e"
    by (rule mult_right_mono) simp
  then show ?thesis by (simp add: rnd_pos_def e_def [symmetric] Let_def k power_int_add mult.commute)
qed

lemma ilog2_mono:
  assumes "0 < x" "x \<le> y"
  shows "ilog2 x \<le> ilog2 y"
proof (rule ccontr)
  assume "\<not> ?thesis"
  then have "(2::rat) powi (ilog2 y + 1) \<le> 2 powi ilog2 x" by (intro power_int_increasing) simp_all
  then show False using ilog2_bounds [of x] ilog2_bounds [of y] assms by linarith
qed

lemma rnd_pos_mono:
  assumes "0 < x" "x \<le> y"
  shows "rnd_pos x \<le> rnd_pos y"
proof -
  have y: "0 < y" using assms by simp
  define ex ey where "ex = max (ilog2 x - 52) (- 1074)" and "ey = max (ilog2 y - 52) (- 1074)"
  have "ex \<le> ey" using ilog2_mono [OF assms] by (simp add: ex_def ey_def)
  then consider "ex = ey" | "ex < ey" by linarith
  then show ?thesis
  proof cases
    case 1
    have "rne (x / 2 powi ey) \<le> rne (y / 2 powi ey)"
      using assms by (intro rne_mono divide_right_mono) simp_all
    then have "of_int (rne (x / 2 powi ey)) * 2 powi ey \<le> (of_int (rne (y / 2 powi ey)) * 2 powi ey :: rat)"
      by (intro mult_right_mono) simp_all
    then show ?thesis using 1 by (simp add: rnd_pos_def ex_def [symmetric] ey_def [symmetric] Let_def)
  next
    case 2
    then have l: "ey = ilog2 y - 52" "ilog2 x < ilog2 y" unfolding ex_def ey_def by linarith+
    have "(2::rat) powi (ilog2 x + 1) \<le> 2 powi ilog2 y" using l by (intro power_int_increasing) simp_all
    then have "x \<le> 2 powi ilog2 y" using ilog2_bounds [OF assms(1)] by linarith
    then have "rnd_pos x \<le> 2 powi ilog2 y"
      using assms(1) 2 l by (intro rnd_pos_le_pow) (simp_all add: ex_def [symmetric])
    also have "\<dots> \<le> rnd_pos y"
      using y l ilog2_bounds [OF y] by (intro rnd_pos_ge_pow) (simp_all add: ey_def [symmetric])
    finally show ?thesis .
  qed
qed

lemma rnd64_mono:
  assumes "0 \<le> x" "x \<le> y"
  shows "rnd64 x \<le> rnd64 y"
proof (cases "x = 0")
  case True
  have "0 \<le> rnd_pos y" if "0 < y"
  proof -
    have "0 \<le> rne (y / 2 powi max (ilog2 y - 52) (- 1074))" using that by (intro rne_ge_int) simp
    then show ?thesis by (simp add: rnd_pos_def Let_def)
  qed
  then show ?thesis using True assms by (auto simp: rnd64_def)
next
  case False
  then show ?thesis using assms rnd_pos_mono [of x y] by (auto simp: rnd64_def)
qed

lemma rnd64_upper:
  assumes "0 < x" "- 1022 \<le> ilog2 x"
  shows "rnd64 x \<le> x * (1 + 1 / 2 ^ 53)"
proof -
  define e where "e = ilog2 x - 52"
  have e: "max (ilog2 x - 52) (- 1074) = e" using assms by (simp add: e_def)
  have "of_int (rne (x / 2 powi e)) * 2 powi e \<le> (x / 2 powi e + 1 / 2) * 2 powi e"
    by (intro mult_right_mono rne_upper) simp
  also have "\<dots> = x + 2 powi e / 2" by (simp add: field_simps)
  also have "2 powi e / 2 = (2::rat) powi ilog2 x / 2 ^ 53" by (simp add: e_def power_int_diff)
  also have "x + 2 powi ilog2 x / 2 ^ 53 \<le> x * (1 + 1 / 2 ^ 53)"
    using ilog2_bounds [OF assms(1)] by (simp add: field_simps)
  finally show ?thesis using assms by (simp add: rnd64_def rnd_pos_def e Let_def)
qed

end
