(* ===== verification/Params.thy ===== *)
theory Params
  imports Binary64
begin

text \<open>
  The tunable parameters (\<open>param_loader.h\<close>): the policy enumerations, the parameter block with
  its defaults, and \<open>LoadParamsFromFile\<close> as a function of the text of the parameter file. The
  conversions \<open>std::stoi\<close>, \<open>std::stoul\<close> and \<open>std::stod\<close> are modelled from their definition by
  \<open>strtol\<close>, \<open>strtoul\<close> and \<open>strtod\<close>; a conversion that throws ends the process, which is the
  outcome \<open>None\<close> of the loader. Which file is read (environment variable, home directory) is
  left to the caller.
\<close>

section \<open>Enumerations and the parameter block\<close>

datatype empty_zone_alloc_type = KDefault | KSequential | KRandom | KLeastWear | KHotnessBased
  | KUserDefinedAlloc

datatype policy = KLifetimeBased | KLeveledLifetimeBased | KCAZA | KSameLevelNearbyKeys
  | KSameLevelNearbyKeysSimple | KArrivalTimeBased | KTombstoneDensity | KTombstoneTTL
  | KClusterTogether | KOverlapChildren | KOverlapGrandchildren | KCompensatedSize | KOAZA
  | KUserDefinedPlacement

datatype gc_type = KDefaultGC | KImprovedGC | KUserDefinedGC

record params =
  nearest_newzone_threshold :: rat
  empty_zone_allocator :: empty_zone_alloc_type
  real_caza :: nat
  real_oaza :: nat
  real_zonekv :: nat
  average_value_size :: nat
  max_level :: nat
  min_boundary :: nat
  max_boundary :: nat
  tombstone_density :: rat
  upper_level_policy :: policy
  upper_level_policy_fallback :: policy
  lower_level_policy :: policy
  lower_level_policy_fallback :: policy
  middle_level_policy :: policy
  middle_level_policy_fallback :: policy
  fragmentation_enabled :: nat
  gc_kind :: gc_type
  gc_start_level :: nat
  gc_stop_level :: nat
  gc_slope :: nat
  gc_pause_seconds :: nat
  cold_migration :: nat
  reserve_zone_count :: nat
  buffer_size_megabytes :: nat
  buffer_count_max :: nat
  logname :: string

definition default_params :: params where
  "default_params = \<lparr>
     nearest_newzone_threshold = 0, empty_zone_allocator = KDefault,
     real_caza = 1, real_oaza = 1, real_zonekv = 1, average_value_size = 4080,
     max_level = 1, min_boundary = 2, max_boundary = 6, tombstone_density = 1 / 2,
     upper_level_policy = KClusterTogether, upper_level_policy_fallback = KClusterTogether,
     lower_level_policy = KClusterTogether, lower_level_policy_fallback = KClusterTogether,
     middle_level_policy = KClusterTogether, middle_level_policy_fallback = KClusterTogether,
     fragmentation_enabled = 1, gc_kind = KDefaultGC, gc_start_level = 20, gc_stop_level = 25,
     gc_slope = 3, gc_pause_seconds = 10, cold_migration = 0, reserve_zone_count = 10,
     buffer_size_megabytes = 2, buffer_count_max = 20, logname = ''zarc_default.log''\<rparr>"

section \<open>Names of the enumeration values\<close>

definition empty_zone_allocator_map :: "string \<Rightarrow> empty_zone_alloc_type option" where
  "empty_zone_allocator_map = map_of [
     (''kDefault'', KDefault), (''kSequential'', KSequential), (''kRandom'', KRandom),
     (''kLeastWear'', KLeastWear), (''kHotnessBased'', KHotnessBased),
     (''kUserDefinedAlloc'', KUserDefinedAlloc)]"

definition placement_policy_map :: "string \<Rightarrow> policy option" where
  "placement_policy_map = map_of [
     (''kLifetimeBased'', KLifetimeBased), (''kLeveledLifetimeBased'', KLeveledLifetimeBased),
     (''kCAZA'', KCAZA), (''kSameLevelNearbyKeys'', KSameLevelNearbyKeys),
     (''kSameLevelNearbyKeysSimple'', KSameLevelNearbyKeysSimple),
     (''kArrivalTimeBased'', KArrivalTimeBased), (''kTombstoneDensity'', KTombstoneDensity),
     (''kTombstoneTTL'', KTombstoneTTL), (''kClusterTogether'', KClusterTogether),
     (''kOverlapChildren'', KOverlapChildren), (''kOverlapGrandchildren'', KOverlapGrandchildren),
     (''kCompensatedSize'', KCompensatedSize), (''kOAZA'', KOAZA),
     (''kUserDefinedPlacement'', KUserDefinedPlacement)]"

definition gc_type_map :: "string \<Rightarrow> gc_type option" where
  "gc_type_map = map_of [
     (''kDefaultGC'', KDefaultGC), (''kImprovedGC'', KImprovedGC),
     (''kUserDefinedGC'', KUserDefinedGC)]"

section \<open>Lexical conversions of the standard library\<close>

definition ord :: "char \<Rightarrow> nat" where
  "ord c = of_char c"

definition isspace :: "char \<Rightarrow> bool" where
  "isspace c \<longleftrightarrow> ord c = 32 \<or> (9 \<le> ord c \<and> ord c \<le> 13)"

text \<open>The words \<open>istream >> std::string\<close> extracts one after the other.\<close>

fun words_acc :: "string \<Rightarrow> string \<Rightarrow> string list" where
  "words_acc cur [] = (if cur = [] then [] else [rev cur])"
| "words_acc cur (c # cs) =
     (if isspace c then (if cur = [] then words_acc [] cs else rev cur # words_acc [] cs)
      else words_acc (c # cur) cs)"

definition stream_words :: "string \<Rightarrow> string list" where
  "stream_words s = words_acc [] s"

definition digit :: "nat \<Rightarrow> char \<Rightarrow> nat option" where
  "digit base c = (let o' = ord c;
     d = if 48 \<le> o' \<and> o' \<le> 57 then o' - 48
         else if 65 \<le> o' \<and> o' \<le> 90 then o' - 55
         else if 97 \<le> o' \<and> o' \<le> 122 then o' - 87 else base
     in if d < base then Some d else None)"

text \<open>The longest prefix of digits: its value, its length and the rest of the text.\<close>

fun digits :: "nat \<Rightarrow> nat \<Rightarrow> nat \<Rightarrow> string \<Rightarrow> nat \<times> nat \<times> string" where
  "digits base v n [] = (v, n, [])"
| "digits base v n (c # cs) = (case digit base c of
     None \<Rightarrow> (v, n, c # cs)
   | Some d \<Rightarrow> digits base (v * base + d) (Suc n) cs)"

definition sign :: "string \<Rightarrow> bool \<times> string" where
  "sign s = (case s of [] \<Rightarrow> (False, [])
     | c # cs \<Rightarrow> if c = CHR ''-'' then (True, cs) else if c = CHR ''+'' then (False, cs)
                else (False, s))"

definition stoi :: "string \<Rightarrow> int option" where
  "stoi s = (let (neg, t) = sign (dropWhile isspace s); (v, n, _) = digits 10 0 0 t;
     i = if neg then - int v else int v
     in if n = 0 \<or> i < - (2 ^ 31) \<or> 2 ^ 31 \<le> i then None else Some i)"

definition stoul :: "string \<Rightarrow> nat option" where
  "stoul s = (let (neg, t) = sign (dropWhile isspace s); (v, n, _) = digits 10 0 0 t
     in if n = 0 \<or> 2 ^ 64 \<le> v then None else Some (if neg then sub64 0 v else v))"

datatype parsed_double = Finite rat | NonFinite

definition lower :: "char \<Rightarrow> char" where
  "lower c = (if 65 \<le> ord c \<and> ord c \<le> 90 then char_of (ord c + 32) else c)"

definition starts_with :: "string \<Rightarrow> string \<Rightarrow> bool" where
  "starts_with p s \<longleftrightarrow> map lower (take (length p) s) = p"

text \<open>
  \<open>mantissa\<close> reads digits with an optional point: the digits as one number, how many there are
  after the point, how many in all, and the rest. \<open>exponent\<close> reads the exponent part, if there
  is a complete one.
\<close>

definition mantissa :: "nat \<Rightarrow> string \<Rightarrow> nat \<times> nat \<times> nat \<times> string" where
  "mantissa base s = (let (v, n, t) = digits base 0 0 s in
     case t of [] \<Rightarrow> (v, 0, n, [])
     | c # cs \<Rightarrow> if c = CHR ''.'' then let (v', n', t') = digits base v 0 cs in (v', n', n + n', t')
                else (v, 0, n, t))"

definition exponent :: "char \<Rightarrow> string \<Rightarrow> int" where
  "exponent mark s = (case s of [] \<Rightarrow> 0
     | c # cs \<Rightarrow> if lower c \<noteq> mark then 0
                else let (neg, t) = sign cs; (v, n, _) = digits 10 0 0 t
                     in if n = 0 then 0 else if neg then - int v else int v)"

definition double_result :: "bool \<Rightarrow> rat \<Rightarrow> parsed_double option" where
  "double_result neg v = (let r = rnd64 v in
     if 2 ^ 1024 \<le> r \<or> (r \<noteq> v \<and> r < 1 / 2 ^ 1022) then None
     else Some (Finite (if neg then - r else r)))"

definition stod :: "string \<Rightarrow> parsed_double option" where
  "stod s = (let (neg, t) = sign (dropWhile isspace s) in
     if starts_with ''inf'' t \<or> starts_with ''nan'' t then Some NonFinite
     else let (hv, hf, hn, ht) = mantissa 16 (drop 2 t) in
       if starts_with ''0x'' t \<and> hn \<noteq> 0
       then double_result neg (of_nat hv * 2 powi (exponent CHR ''p'' ht - 4 * int hf))
       else let (v, f, n, r) = mantissa 10 t in
         if n = 0 then None
         else double_result neg (of_nat v * 10 powi (exponent CHR ''e'' r - int f)))"

section \<open>Loading the parameter file\<close>

text \<open>An integer parameter is stored when it lies in the range the loader accepts for it.\<close>

definition load_int :: "string \<Rightarrow> int \<Rightarrow> int \<Rightarrow> (nat \<Rightarrow> params \<Rightarrow> params) \<Rightarrow> params \<Rightarrow> params option" where
  "load_int v lo hi upd p = (case stoi v of None \<Rightarrow> None
     | Some i \<Rightarrow> Some (if lo \<le> i \<and> i \<le> hi then upd (nat i) p else p))"

definition load_fraction :: "string \<Rightarrow> (rat \<Rightarrow> params \<Rightarrow> params) \<Rightarrow> params \<Rightarrow> params option" where
  "load_fraction v upd p = (case stod v of None \<Rightarrow> None
     | Some NonFinite \<Rightarrow> Some p
     | Some (Finite x) \<Rightarrow> Some (if 0 \<le> x \<and> x \<le> 1 then upd x p else p))"

definition load_u32 :: "string \<Rightarrow> nat \<Rightarrow> (nat \<Rightarrow> params \<Rightarrow> params) \<Rightarrow> params \<Rightarrow> params option" where
  "load_u32 v hi upd p = (case stoul v of None \<Rightarrow> None
     | Some n \<Rightarrow> Some (if 0 < cast32 n \<and> cast32 n \<le> hi then upd (cast32 n) p else p))"

definition load_policy :: "string \<Rightarrow> (policy \<Rightarrow> params \<Rightarrow> params) \<Rightarrow> params \<Rightarrow> params option" where
  "load_policy v upd p = (case placement_policy_map v of None \<Rightarrow> Some p | Some q \<Rightarrow> Some (upd q p))"

definition load_param :: "string \<Rightarrow> string \<Rightarrow> params \<Rightarrow> params option" where
  "load_param ty v p =
    (if ty = ''logname'' then Some (p\<lparr>logname := v\<rparr>)
     else if ty = ''gc_type'' then
       (case gc_type_map v of None \<Rightarrow> Some p | Some g \<Rightarrow> Some (p\<lparr>gc_kind := g\<rparr>))
     else if ty = ''empty_zone_allocator'' then
       (case empty_zone_allocator_map v of None \<Rightarrow> Some p
        | Some a \<Rightarrow> Some (p\<lparr>empty_zone_allocator := a\<rparr>))
     else if ty = ''upper_level_policy'' then
       load_policy v (\<lambda>q p. p\<lparr>upper_level_policy := q\<rparr>) p
     else if ty = ''upper_level_policy_fallback'' then
       load_policy v (\<lambda>q p. p\<lparr>upper_level_policy_fallback := q\<rparr>) p
     else if ty = ''lower_level_policy'' then
       load_policy v (\<lambda>q p. p\<lparr>lower_level_policy := q\<rparr>) p
     else if ty = ''lower_level_policy_fallback'' then
       load_policy v (\<lambda>q p. p\<lparr>lower_level_policy_fallback := q\<rparr>) p
     else if ty = ''middle_level_policy'' then
       load_policy v (\<lambda>q p. p\<lparr>middle_level_policy := q\<rparr>) p
     else if ty = ''middle_level_policy_fallback'' then
       load_policy v (\<lambda>q p. p\<lparr>middle_level_policy_fallback := q\<rparr>) p
     else if ty = ''average_value_size'' then
       load_int v 1 (2 ^ 31 - 1) (\<lambda>i p. p\<lparr>average_value_size := i\<rparr>) p
     else if ty = ''tombstone_density'' then
       load_fraction v (\<lambda>x p. p\<lparr>tombstone_density := x\<rparr>) p
     else if ty = ''nearest_newzone_threshold'' then
       load_fraction v (\<lambda>x p. p\<lparr>nearest_newzone_threshold := x\<rparr>) p
     else if ty = ''gc_start_level'' then load_int v 1 99 (\<lambda>i p. p\<lparr>gc_start_level := i\<rparr>) p
     else if ty = ''gc_stop_level'' then load_int v 1 99 (\<lambda>i p. p\<lparr>gc_stop_level := i\<rparr>) p
     else if ty = ''gc_slope'' then load_int v 1 99 (\<lambda>i p. p\<lparr>gc_slope := i\<rparr>) p
     else if ty = ''reserve_zone_count'' then
       load_int v 0 99 (\<lambda>i p. p\<lparr>reserve_zone_count := i\<rparr>) p
     else if ty = ''real_caza'' then load_int v 0 1 (\<lambda>i p. p\<lparr>real_caza := i\<rparr>) p
     else if ty = ''real_oaza'' then load_int v 0 1 (\<lambda>i p. p\<lparr>real_oaza := i\<rparr>) p
     else if ty = ''real_zonekv'' then load_int v 0 1 (\<lambda>i p. p\<lparr>real_zonekv := i\<rparr>) p
     else if ty = ''min_boundary'' then load_int v 0 99 (\<lambda>i p. p\<lparr>min_boundary := i\<rparr>) p
     else if ty = ''max_boundary'' then load_int v 0 99 (\<lambda>i p. p\<lparr>max_boundary := i\<rparr>) p
     else if ty = ''fragmentation_enabled'' then
       (case stoul v of None \<Rightarrow> None
        | Some n \<Rightarrow> Some (p\<lparr>fragmentation_enabled := n mod 256\<rparr>))
     else if ty = ''gc_pause_seconds'' then
       load_int v 1 999 (\<lambda>i p. p\<lparr>gc_pause_seconds := i\<rparr>) p
     else if ty = ''cold_migration'' then
       (case stoi v of None \<Rightarrow> None
        | Some i \<Rightarrow> Some (p\<lparr>cold_migration := nat (i mod 256)\<rparr>))
     else if ty = ''buffer_size_megabytes'' then
       load_u32 v 1025 (\<lambda>i p. p\<lparr>buffer_size_megabytes := i\<rparr>) p
     else if ty = ''buffer_count_max'' then
       load_u32 v 100 (\<lambda>i p. p\<lparr>buffer_count_max := i\<rparr>) p
     else Some p)"

text \<open>The extraction loop stops at the first incomplete pair of words.\<close>

fun load_pairs :: "string list \<Rightarrow> params \<Rightarrow> params option" where
  "load_pairs (ty # v # ws) p = (case load_param ty v p of None \<Rightarrow> None | Some p' \<Rightarrow> load_pairs ws p')"
| "load_pairs _ p = Some p"

definition LoadParamsFromFile :: "string \<Rightarrow> params \<Rightarrow> params option" where
  "LoadParamsFromFile infile p = (case load_pairs (stream_words infile) p of None \<Rightarrow> None
     | Some q \<Rightarrow> Some (if max_boundary q \<le> min_boundary q
                      then q\<lparr>max_boundary := (min_boundary q + 1) mod 256\<rparr> else q))"

section \<open>The loaded parameters are in range\<close>

definition params_in_range :: "params \<Rightarrow> bool" where
  "params_in_range p \<longleftrightarrow>
     min_boundary p < 100 \<and> max_boundary p \<le> 100 \<and>
     0 < gc_start_level p \<and> gc_start_level p < 100 \<and>
     0 < gc_stop_level p \<and> gc_stop_level p < 100 \<and>
     0 < gc_slope p \<and> gc_slope p < 100 \<and>
     0 < gc_pause_seconds p \<and> gc_pause_seconds p < 1000 \<and>
     reserve_zone_count p < 100 \<and> max_level p = 1 \<and>
     real_caza p \<le> 1 \<and> real_oaza p \<le> 1 \<and> real_zonekv p \<le> 1 \<and>
     0 \<le> tombstone_density p \<and> tombstone_density p \<le> 1 \<and>
     0 \<le> nearest_newzone_threshold p \<and> nearest_newzone_threshold p \<le> 1 \<and>
     0 < average_value_size p \<and> average_value_size p < 2 ^ 31 \<and>
     0 < buffer_size_megabytes p \<and> buffer_size_megabytes p \<le> 1025 \<and>
     0 < buffer_count_max p \<and> buffer_count_max p \<le> 100 \<and>
     fragmentation_enabled p < 256 \<and> cold_migration p < 256"

lemma load_int_keeps:
  assumes "load_int v lo hi upd p = Some q" "0 \<le> lo" "P p"
    and "\<And>i. lo \<le> int i \<Longrightarrow> int i \<le> hi \<Longrightarrow> P (upd i p)"
  shows "P q"
  using assms by (fastforce simp: load_int_def split: option.splits if_splits)

lemma load_fraction_keeps:
  assumes "load_fraction v upd p = Some q" "P p" "\<And>x. 0 \<le> x \<Longrightarrow> x \<le> 1 \<Longrightarrow> P (upd x p)"
  shows "P q"
  using assms by (auto simp: load_fraction_def split: option.splits parsed_double.splits if_splits)

lemma load_u32_keeps:
  assumes "load_u32 v hi upd p = Some q" "P p" "\<And>i. 0 < i \<Longrightarrow> i \<le> hi \<Longrightarrow> P (upd i p)"
  shows "P q"
  using assms by (auto simp: load_u32_def split: option.splits if_splits)

lemma load_policy_keeps:
  assumes "load_policy v upd p = Some q" "P p" "\<And>x. P (upd x p)"
  shows "P q"
  using assms by (auto simp: load_policy_def split: option.splits)

lemma if_SomeE:
  "(if c then a else b) = Some q \<Longrightarrow> (a = Some q \<Longrightarrow> R) \<Longrightarrow> (b = Some q \<Longrightarrow> R) \<Longrightarrow> R"
  by (cases c) auto

lemma case_option_SomeE:
  "(case m of None \<Rightarrow> a | Some x \<Rightarrow> Some (g x)) = Some q \<Longrightarrow> (a = Some q \<Longrightarrow> R) \<Longrightarrow>
   (\<And>x. q = g x \<Longrightarrow> R) \<Longrightarrow> R"
  by (cases m) auto

lemma Some_keeps: "Some x = Some q \<Longrightarrow> P x \<Longrightarrow> P q"
  by simp

lemma load_param_in_range:
  assumes "load_param ty v p = Some q" "params_in_range p"
  shows "params_in_range q"
proof -
  note keeps = load_int_keeps [where P = params_in_range] load_fraction_keeps [where P = params_in_range]
    load_u32_keeps [where P = params_in_range] load_policy_keeps [where P = params_in_range]
    Some_keeps [where P = params_in_range]
  show ?thesis
    using assms(1) unfolding load_param_def
    by (elim if_SomeE keeps case_option_SomeE; use assms(2) in \<open>simp add: params_in_range_def\<close>)
qed

lemma load_pairs_in_range:
  "load_pairs ws p = Some q \<Longrightarrow> params_in_range p \<Longrightarrow> params_in_range q"
  by (induction ws p rule: load_pairs.induct) (auto split: option.splits dest: load_param_in_range)

lemma default_params_in_range: "params_in_range default_params"
  by (simp add: params_in_range_def default_params_def)

text \<open>
  C1. Whatever the parameter file contains, a load that completes leaves every parameter in
  the range the code documents: the percentages and counts stay within their bounds, the
  fractions in the unit interval, and the upper boundary is strictly above the lower one.
\<close>

theorem loaded_params_in_range:
  assumes "LoadParamsFromFile infile default_params = Some p"
  shows "params_in_range p \<and> min_boundary p < max_boundary p"
proof -
  obtain q where q: "load_pairs (stream_words infile) default_params = Some q"
    and p: "p = (if max_boundary q \<le> min_boundary q
                 then q\<lparr>max_boundary := (min_boundary q + 1) mod 256\<rparr> else q)"
    using assms by (auto simp: LoadParamsFromFile_def split: option.splits)
  have "params_in_range q" using load_pairs_in_range [OF q] default_params_in_range by simp
  then show ?thesis unfolding p by (auto simp: params_in_range_def)
qed

theorem loaded_params_in_range_witness:
  "\<exists>p. LoadParamsFromFile ''gc_slope 7 min_boundary 9 max_boundary 3'' default_params = Some p \<and>
     gc_slope p = 7 \<and> max_boundary p = 10 \<and> params_in_range p \<and> min_boundary p < max_boundary p"
proof -
  let ?t = "''gc_slope 7 min_boundary 9 max_boundary 3''"
  let ?p = "default_params\<lparr>gc_slope := 7, min_boundary := 9, max_boundary := 10\<rparr>"
  have "LoadParamsFromFile ?t default_params = Some ?p"
    by code_simp
  from loaded_params_in_range [OF this] this show ?thesis by (auto simp: default_params_def)
qed

end
