(* ===== verification/Device.thy ===== *)
theory Device
  imports Params
begin

text \<open>
  The data of the device layer (\<open>zbd_zenfs.h\<close>): zones, file extents, zone files and the state of
  \<open>ZonedBlockDevice\<close>, together with the interface to the backend that performs the raw
  operations of the device.

  Objects that the C++ code reaches through pointers live in two heaps of the state,
  \<open>zone_at\<close> (a \<open>Zone*\<close> is a \<open>zid\<close>) and \<open>file_at\<close> (a \<open>ZoneFile*\<close> is a \<open>fid\<close>); a pointer that may be
  null is an \<open>option\<close>. Member names lose their trailing underscore and get the prefix \<open>z_\<close>, \<open>e_\<close>
  or \<open>f_\<close> of their class.
\<close>

section \<open>Zones, extents and files\<close>

type_synonym zid = nat
type_synonym fid = nat

text \<open>\<open>Env::WriteLifeTimeHint\<close> is compared and subtracted as an integer.\<close>

abbreviation (input) WLTH_NOT_SET :: nat where "WLTH_NOT_SET \<equiv> 0"
abbreviation (input) WLTH_NONE :: nat where "WLTH_NONE \<equiv> 1"
abbreviation (input) WLTH_SHORT :: nat where "WLTH_SHORT \<equiv> 2"
abbreviation (input) WLTH_MEDIUM :: nat where "WLTH_MEDIUM \<equiv> 3"
abbreviation (input) WLTH_LONG :: nat where "WLTH_LONG \<equiv> 4"
abbreviation (input) WLTH_EXTREME :: nat where "WLTH_EXTREME \<equiv> 5"

datatype io_type = KData | KFilter | KIndex | KMetadata | KWAL | KManifest | KLog | KUnknown | KInvalid

record zone =
  z_busy :: bool
  z_start :: nat
  z_capacity :: nat
  z_max_capacity :: nat
  z_wp :: nat
  z_lifetime :: nat
  z_used_capacity :: nat
  z_reset_count :: nat
  z_finish_count :: nat
  z_policy :: policy
  z_level :: int
  z_flag_gc_reset :: bool

record extent =
  e_start :: nat
  e_length :: nat
  e_zone :: zid
  e_level :: int

text \<open>
  An \<open>InternalKey\<close> is its encoded representation. \<open>f_icmp\<close> is \<open>sstableKeyCompare\<close> under the user
  comparator of the file's \<open>icmp_\<close>; both come from \<open>db/dbformat.h\<close>, which is not part of the
  sources, so the order is a value of the model.
\<close>

record zonefile =
  f_extents :: "extent list"
  f_linkfiles :: "string list"
  f_active_zone :: "zid option"
  f_extent_start :: nat
  f_extent_filepos :: nat
  f_lifetime :: nat
  f_io_type :: io_type
  f_file_size :: nat
  f_file_id :: nat
  f_nr_synced_extents :: nat
  f_open_for_wr :: bool
  f_m_time :: nat
  f_is_sparse :: bool
  f_is_deleted :: bool
  f_level :: int
  f_smallest :: string
  f_largest :: string
  f_icmp :: "string \<Rightarrow> string \<Rightarrow> int"
  f_num_entries :: nat
  f_num_deletions :: nat
  f_num_range_deletions :: nat
  f_file_size_meta :: nat
  f_compensated_file_size :: nat
  f_compensated_range_deletion_size :: nat
  f_smallest_seqno :: nat
  f_largest_seqno :: nat
  f_has_keys :: bool
  f_is_recorded :: bool
  f_key_update_count :: nat
  f_key_update_post_alloc_count :: nat
  f_rank :: nat
  f_alloc_size :: nat

definition NO_EXTENT :: nat where
  "NO_EXTENT = 2 ^ 64 - 1"

definition LIFETIME_DIFF_NOT_GOOD :: nat where
  "LIFETIME_DIFF_NOT_GOOD = 100"

definition LIFETIME_DIFF_COULD_BE_WORSE :: nat where
  "LIFETIME_DIFF_COULD_BE_WORSE = 50"

section \<open>The state of the device\<close>

text \<open>
  \<open>'b\<close> is the type of the state of the backend (the device itself). The record is extended by the
  state of the file system, so the operations below are typed over its scheme.
\<close>

record 'b zbd =
  zone_at :: "zid \<Rightarrow> zone"
  file_at :: "fid \<Rightarrow> zonefile"
  io_zones :: "zid list"
  meta_zones :: "zid list"
  zone_start_to_pointer :: "nat \<Rightarrow> zid option"
  finish_threshold :: nat
  bytes_written :: nat
  gc_bytes_written :: nat
  finish_bytes_written :: nat
  active_io_zones :: int
  open_io_zones :: int
  max_nr_active_io_zones :: nat
  max_nr_open_io_zones :: nat
  zone_deferred_status :: status
  migrating :: bool
  levelwise_file_list :: "fid list list"
  alloc_count :: nat
  failure_count :: nat
  total_reset_count :: nat
  gc_reset_count :: nat
  nearest_real_success :: nat
  nearest_need_new :: nat
  nearest_got_new :: nat
  need_flag :: bool
  zenfs_parameters :: params
  seq_zone_pos :: nat
  shuffle_calls :: nat
  be :: 'b

abbreviation zone_upd :: "zid \<Rightarrow> (zone \<Rightarrow> zone) \<Rightarrow> ('b, 'm) zbd_scheme \<Rightarrow> ('b, 'm) zbd_scheme" where
  "zone_upd z g s \<equiv> s\<lparr>zone_at := (zone_at s)(z := g (zone_at s z))\<rparr>"

abbreviation file_upd :: "fid \<Rightarrow> (zonefile \<Rightarrow> zonefile) \<Rightarrow> ('b, 'm) zbd_scheme \<Rightarrow> ('b, 'm) zbd_scheme" where
  "file_upd f g s \<equiv> s\<lparr>file_at := (file_at s)(f := g (file_at s f))\<rparr>"

section \<open>The backend and the environment\<close>

text \<open>
  \<open>ZonedBlockDeviceBackend\<close> and the few library routines with a result the code does not fix: the
  permutation \<open>std::shuffle\<close> produces on its \<open>n\<close>-th call, and \<open>std::sort\<close>, which leaves the order of
  equivalent elements open. A report entry holds what the backend's \<open>Zone...\<close> queries return.
\<close>

datatype read_result = ReadOK string | ReadEINTR | ReadError

record zone_rep =
  r_swr :: bool
  r_offline :: bool
  r_writable :: bool
  r_active :: bool
  r_open :: bool
  r_start :: nat
  r_max_capacity :: nat
  r_wp :: nat

record 'b env =
  block_sz :: nat
  zone_sz :: nat
  nr_zones :: nat
  be_open :: "bool \<Rightarrow> bool \<Rightarrow> 'b \<Rightarrow> (status \<times> nat \<times> nat) \<times> 'b"
  be_list_zones :: "'b \<Rightarrow> zone_rep list option"
  be_reset :: "nat \<Rightarrow> 'b \<Rightarrow> (status \<times> bool \<times> nat) \<times> 'b"
  be_finish :: "nat \<Rightarrow> 'b \<Rightarrow> status \<times> 'b"
  be_close :: "nat \<Rightarrow> 'b \<Rightarrow> status \<times> 'b"
  be_read :: "nat \<Rightarrow> nat \<Rightarrow> bool \<Rightarrow> 'b \<Rightarrow> read_result \<times> 'b"
  be_write :: "string \<Rightarrow> nat \<Rightarrow> 'b \<Rightarrow> nat option \<times> 'b"
  be_invalidate :: "nat \<Rightarrow> nat \<Rightarrow> 'b \<Rightarrow> int \<times> 'b"
  be_time :: "'b \<Rightarrow> nat"
  std_shuffle :: "nat \<Rightarrow> zid list \<Rightarrow> zid list"
  std_sort :: "(nat \<Rightarrow> nat \<Rightarrow> bool) \<Rightarrow> nat list \<Rightarrow> nat list"

end
