(* ===== verification/ZoneOps.thy ===== *)
theory ZoneOps
  imports Device "HOL-Library.Monad_Syntax"
begin

text \<open>
  The member functions of \<open>Zone\<close> and the interface the device layer assumes of its backend
  (\<open>zoned_backend\<close>): the contents of the device is a function from byte addresses, which writes
  extend and reads observe.
\<close>

section \<open>Operations of a zone\<close>

definition new_zone :: "zone_rep \<Rightarrow> zone" where
  "new_zone r = \<lparr>z_busy = False, z_start = r_start r,
     z_capacity = (if r_writable r then sub64 (r_max_capacity r) (sub64 (r_wp r) (r_start r)) else 0),
     z_max_capacity = r_max_capacity r, z_wp = r_wp r, z_lifetime = WLTH_NOT_SET,
     z_used_capacity = 0, z_reset_count = 0, z_finish_count = 0, z_policy = KLifetimeBased,
     z_level = - 1, z_flag_gc_reset = False\<rparr>"

definition IsUsed :: "zone \<Rightarrow> bool" where
  "IsUsed z \<longleftrightarrow> 0 < z_used_capacity z"

definition GetCapacityLeft :: "zone \<Rightarrow> nat" where
  "GetCapacityLeft z = z_capacity z"

definition IsFull :: "zone \<Rightarrow> bool" where
  "IsFull z \<longleftrightarrow> z_capacity z = 0"

definition IsEmpty :: "zone \<Rightarrow> bool" where
  "IsEmpty z \<longleftrightarrow> z_wp z = z_start z"

definition GetZoneNr :: "'b env \<Rightarrow> zone \<Rightarrow> nat" where
  "GetZoneNr E z = z_start z div zone_sz E"

definition Acquire :: "zid \<Rightarrow> ('b, 'm) zbd_scheme \<Rightarrow> bool \<times> ('b, 'm) zbd_scheme" where
  "Acquire z s = (if z_busy (zone_at s z) then (False, s)
                  else (True, zone_upd z (\<lambda>x. x\<lparr>z_busy := True\<rparr>) s))"

definition Release :: "zid \<Rightarrow> ('b, 'm) zbd_scheme \<Rightarrow> bool \<times> ('b, 'm) zbd_scheme" where
  "Release z s = (if z_busy (zone_at s z) then (True, zone_upd z (\<lambda>x. x\<lparr>z_busy := False\<rparr>) s)
                  else (False, s))"

definition CheckRelease :: "zid \<Rightarrow> ('b, 'm) zbd_scheme \<Rightarrow> status \<times> ('b, 'm) zbd_scheme" where
  "CheckRelease z s = (let (ok, s') = Release z s in (if ok then OK else Corruption, s'))"

definition Zone_Reset :: "'b env \<Rightarrow> zid \<Rightarrow> ('b, 'm) zbd_scheme \<Rightarrow> status \<times> ('b, 'm) zbd_scheme" where
  "Zone_Reset E z s = (let ((ios, offline, max_capacity), b) = be_reset E (z_start (zone_at s z)) (be s);
     s = s\<lparr>be := b\<rparr>
     in if ios \<noteq> OK then (ios, s)
        else (OK, zone_upd z (\<lambda>x.
          (if offline then x\<lparr>z_capacity := 0\<rparr>
           else x\<lparr>z_max_capacity := max_capacity, z_capacity := max_capacity\<rparr>)
          \<lparr>z_wp := z_start x, z_lifetime := WLTH_NOT_SET, z_reset_count := cast32 (z_reset_count x + 1)\<rparr>) s))"

definition Zone_Finish :: "'b env \<Rightarrow> zid \<Rightarrow> ('b, 'm) zbd_scheme \<Rightarrow> status \<times> ('b, 'm) zbd_scheme" where
  "Zone_Finish E z s = (let (ios, b) = be_finish E (z_start (zone_at s z)) (be s); s = s\<lparr>be := b\<rparr>
     in if ios \<noteq> OK then (ios, s)
        else (OK, zone_upd z (\<lambda>x. x\<lparr>z_capacity := 0, z_wp := add64 (z_start x) (zone_sz E),
                                    z_finish_count := cast32 (z_finish_count x + 1)\<rparr>) s))"

definition Zone_Close :: "'b env \<Rightarrow> zid \<Rightarrow> ('b, 'm) zbd_scheme \<Rightarrow> status \<times> ('b, 'm) zbd_scheme" where
  "Zone_Close E z s = (let zn = zone_at s z in
     if \<not> (IsEmpty zn \<or> IsFull zn)
     then let (ios, b) = be_close E (z_start zn) (be s) in (ios, s\<lparr>be := b\<rparr>)
     else (OK, s))"

text \<open>
  \<open>Zone::Append\<close>: the remaining data plays the part of \<open>ptr\<close> and \<open>left\<close>. The loop need not end when
  the backend reports a write of zero bytes.
\<close>

partial_function (option) append_loop ::
  "'b env \<Rightarrow> zid \<Rightarrow> string \<Rightarrow> ('b, 'm) zbd_scheme \<Rightarrow> (status \<times> ('b, 'm) zbd_scheme) option" where
  "append_loop E z ptr s = (if ptr = [] then Some (OK, s)
     else case be_write E ptr (z_wp (zone_at s z)) (be s) of
       (None, b) \<Rightarrow> Some (IOError, s\<lparr>be := b\<rparr>)
     | (Some ret, b) \<Rightarrow> append_loop E z (drop ret ptr)
         (zone_upd z (\<lambda>x. x\<lparr>z_wp := add64 (z_wp x) ret, z_capacity := sub64 (z_capacity x) ret\<rparr>)
            (s\<lparr>be := b, bytes_written := add64 (bytes_written s) ret\<rparr>)))"

definition Zone_Append ::
  "'b env \<Rightarrow> zid \<Rightarrow> string \<Rightarrow> ('b, 'm) zbd_scheme \<Rightarrow> (status \<times> ('b, 'm) zbd_scheme) option" where
  "Zone_Append E z data s = (if z_capacity (zone_at s z) < length data then Some (NoSpace, s)
     else append_loop E z data s)"

section \<open>The contents of the device\<close>

definition overwrite :: "nat \<Rightarrow> string \<Rightarrow> (nat \<Rightarrow> char) \<Rightarrow> nat \<Rightarrow> char" where
  "overwrite p d m a = (if p \<le> a \<and> a < p + length d then d ! (a - p) else m a)"

definition bytes_at :: "(nat \<Rightarrow> char) \<Rightarrow> nat \<Rightarrow> nat \<Rightarrow> string" where
  "bytes_at m p n = map m [p..<p + n]"

lemma length_bytes_at [simp]: "length (bytes_at m p n) = n"
  by (simp add: bytes_at_def)

lemma bytes_at_0 [simp]: "bytes_at m p 0 = []"
  by (simp add: bytes_at_def)

lemma nth_bytes_at [simp]: "i < n \<Longrightarrow> bytes_at m p n ! i = m (p + i)"
  by (simp add: bytes_at_def)

lemma bytes_at_append: "bytes_at m p (n + k) = bytes_at m p n @ bytes_at m (p + n) k"
  by (rule nth_equalityI) (auto simp: nth_append)

lemma take_bytes_at [simp]: "take k (bytes_at m p n) = bytes_at m p (min k n)"
  by (rule nth_equalityI) auto

lemma drop_bytes_at [simp]: "drop k (bytes_at m p n) = bytes_at m (p + k) (n - k)"
  by (rule nth_equalityI) (auto simp: add.assoc)

lemma bytes_at_cong: "(\<And>a. p \<le> a \<Longrightarrow> a < p + n \<Longrightarrow> m a = m' a) \<Longrightarrow> bytes_at m p n = bytes_at m' p n"
  by (simp add: bytes_at_def)

lemma overwrite_Nil [simp]: "overwrite p [] m = m"
  by (rule ext) (auto simp: overwrite_def)

lemma overwrite_overwrite:
  "overwrite (p + length d) e (overwrite p d m) = overwrite p (d @ e) m"
  by (rule ext) (auto simp: overwrite_def nth_append)

lemma bytes_at_overwrite [simp]: "bytes_at (overwrite p d m) p (length d) = d"
  by (rule nth_equalityI) (auto simp: overwrite_def)

lemma bytes_at_overwrite_disjoint:
  "q + n \<le> p \<or> p + length d \<le> q \<Longrightarrow> bytes_at (overwrite p d m) q n = bytes_at m q n"
  by (rule bytes_at_cong) (auto simp: overwrite_def)

section \<open>What the device layer assumes of the backend\<close>

text \<open>
  \<open>cont b\<close> is what the device stores in state \<open>b\<close>. A write of at least one byte transfers at least
  one byte or fails; reads do not change the device; a reset touches its own zone only; finishing
  and closing a zone and dropping cached pages change no data.
\<close>

locale zoned_backend =
  fixes E :: "'b env" and cont :: "'b \<Rightarrow> nat \<Rightarrow> char"
  assumes write_some: "data \<noteq> [] \<Longrightarrow> be_write E data pos b = (Some n, b') \<Longrightarrow>
      0 < n \<and> n \<le> length data \<and> cont b' = overwrite pos (take n data) (cont b)"
    and write_fail: "be_write E data pos b = (None, b') \<Longrightarrow>
      a < pos \<or> pos + length data \<le> a \<Longrightarrow> cont b' a = cont b a"
    and read_ok: "be_read E n pos d b = (ReadOK data, b') \<Longrightarrow>
      cont b' = cont b \<and> length data \<le> n \<and> data = bytes_at (cont b) pos (length data)"
    and read_eintr: "be_read E n pos d b = (ReadEINTR, b') \<Longrightarrow> cont b' = cont b"
    and read_error: "be_read E n pos d b = (ReadError, b') \<Longrightarrow> cont b' = cont b"
    and reset_frame: "be_reset E start b = (r, b') \<Longrightarrow> a < start \<or> start + zone_sz E \<le> a \<Longrightarrow>
      cont b' a = cont b a"
    and reset_capacity: "be_reset E start b = ((st, off, cap), b') \<Longrightarrow> st = OK \<Longrightarrow> cap \<le> zone_sz E"
    and finish_frame: "be_finish E start b = (st, b') \<Longrightarrow> cont b' = cont b"
    and close_frame: "be_close E start b = (st, b') \<Longrightarrow> cont b' = cont b"
    and invalidate_frame: "be_invalidate E pos n b = (i, b') \<Longrightarrow> cont b' = cont b"

section \<open>Well-formed zones\<close>

text \<open>
  The write pointer stays inside the zone, and as long as there is room the remaining capacity is
  exactly the distance from the write pointer to the end of the usable part of the zone.
\<close>

definition zone_wf :: "'b env \<Rightarrow> zone \<Rightarrow> bool" where
  "zone_wf E z \<longleftrightarrow> z_start z \<le> z_wp z \<and> z_wp z \<le> z_start z + zone_sz E \<and>
     z_max_capacity z \<le> zone_sz E \<and> z_start z + zone_sz E < 2 ^ 64 \<and>
     (0 < z_capacity z \<longrightarrow> z_wp z + z_capacity z = z_start z + z_max_capacity z)"

lemma zone_wf_capacity: "zone_wf E z \<Longrightarrow> z_wp z + z_capacity z \<le> z_start z + zone_sz E"
  by (cases "z_capacity z = 0") (auto simp: zone_wf_def)

section \<open>Appending to a zone\<close>

text \<open>The state after \<open>k\<close> bytes went to zone \<open>z\<close> and the device moved to \<open>b\<close>.\<close>

definition advanced :: "zid \<Rightarrow> nat \<Rightarrow> 'b \<Rightarrow> ('b, 'm) zbd_scheme \<Rightarrow> ('b, 'm) zbd_scheme" where
  "advanced z k b s = zone_upd z (\<lambda>x. x\<lparr>z_wp := z_wp x + k, z_capacity := z_capacity x - k\<rparr>)
     (s\<lparr>be := b, bytes_written := (bytes_written s + k) mod 2 ^ 64\<rparr>)"

lemma advanced_advanced:
  "advanced z j b' (advanced z k b s) = advanced z (k + j) b' s"
  by (simp add: advanced_def mod_simps add.assoc diff_diff_left)

lemma advanced_0:
  assumes "bytes_written s < 2 ^ 64"
  shows "advanced z 0 (be s) s = s"
  using assms by (simp add: advanced_def)

lemma zone_at_advanced:
  "zone_at (advanced z k b s) =
    (zone_at s)(z := (zone_at s z)\<lparr>z_wp := z_wp (zone_at s z) + k, z_capacity := z_capacity (zone_at s z) - k\<rparr>)"
  by (simp add: advanced_def)

lemma be_advanced [simp]: "be (advanced z k b s) = b"
  by (simp add: advanced_def)

lemma zone_wf_advance:
  "zone_wf E x \<Longrightarrow> k \<le> z_capacity x \<Longrightarrow>
   zone_wf E (x\<lparr>z_wp := z_wp x + k, z_capacity := z_capacity x - k\<rparr>)"
  by (auto simp: zone_wf_def)

lemma append_loop_step:
  assumes "data \<noteq> []" "be_write E data (z_wp (zone_at s z)) (be s) = (Some n, b)"
    and "n \<le> z_capacity (zone_at s z)" "zone_wf E (zone_at s z)"
  shows "append_loop E z data s = append_loop E z (drop n data) (advanced z n b s)"
proof -
  have "z_wp (zone_at s z) + n < 2 ^ 64" "z_capacity (zone_at s z) < 2 ^ 64"
    using assms zone_wf_capacity [OF assms(4)] by (auto simp: zone_wf_def)
  then show ?thesis
    using assms by (subst append_loop.simps) (simp add: advanced_def add64_def sub64_le)
qed

context zoned_backend
begin

text \<open>
  The append loop returns: with all of the data on the device, or with a failed write after a
  proper prefix of it, in which case nothing outside the range of the append has changed.
\<close>

lemma append_loop_returns:
  assumes "zone_wf E (zone_at s z)" "length data \<le> z_capacity (zone_at s z)"
    and "bytes_written s < 2 ^ 64"
  shows "\<exists>st k b. append_loop E z data s = Some (st, advanced z k b s) \<and> k \<le> length data \<and>
    (st = OK \<and> k = length data \<and> cont b = overwrite (z_wp (zone_at s z)) data (cont (be s)) \<or>
     st = IOError \<and> k < length data \<and>
     (\<forall>a. a < z_wp (zone_at s z) + k \<or> z_wp (zone_at s z) + length data \<le> a \<longrightarrow>
        cont b a = overwrite (z_wp (zone_at s z)) (take k data) (cont (be s)) a))"
  using assms
proof (induction data arbitrary: s rule: length_induct)
  case (1 data)
  let ?zn = "zone_at s z" let ?wp = "z_wp ?zn"
  show ?case
  proof (cases "data = []")
    case True
    then show ?thesis
      using advanced_0 [OF 1(4), of z] by (intro exI [of _ OK] exI [of _ 0] exI [of _ "be s"])
        (simp add: append_loop.simps)
  next
    case ne: False
    obtain r b where w: "be_write E data ?wp (be s) = (r, b)" by force
    show ?thesis
    proof (cases r)
      case None
      have "append_loop E z data s = Some (IOError, advanced z 0 b s)"
        using ne w None 1(4) by (subst append_loop.simps) (simp add: advanced_def)
      then show ?thesis
        using ne write_fail [of data ?wp "be s" b] w None
        by (intro exI [of _ IOError] exI [of _ 0] exI [of _ b]) auto
    next
      case (Some n)
      have n: "0 < n" "n \<le> length data" and c: "cont b = overwrite ?wp (take n data) (cont (be s))"
        using write_some [OF ne] w Some by blast+
      let ?s = "advanced z n b s"
      have step: "append_loop E z data s = append_loop E z (drop n data) ?s"
        using ne w Some n 1 by (intro append_loop_step) auto
      have wp: "z_wp (zone_at ?s z) = ?wp + n" by (simp add: zone_at_advanced)
      have "zone_wf E (zone_at ?s z)" "length (drop n data) \<le> z_capacity (zone_at ?s z)"
        "bytes_written ?s < 2 ^ 64" "length (drop n data) < length data"
        using 1 n ne by (simp_all add: zone_at_advanced zone_wf_advance advanced_def)
      with 1(1) obtain st k b' where
        IH: "append_loop E z (drop n data) ?s = Some (st, advanced z k b' ?s)" "k \<le> length data - n"
        and post: "st = OK \<and> k = length data - n \<and> cont b' = overwrite (?wp + n) (drop n data) (cont b) \<or>
         st = IOError \<and> k < length data - n \<and>
         (\<forall>a. a < ?wp + n + k \<or> ?wp + n + (length data - n) \<le> a \<longrightarrow>
            cont b' a = overwrite (?wp + n) (take k (drop n data)) (cont b) a)"
        by (metis be_advanced length_drop wp)
      have join: "overwrite (?wp + n) e (cont b) = overwrite ?wp (take n data @ e) (cont (be s))" for e
        using overwrite_overwrite [of ?wp "take n data" e "cont (be s)"] n by (simp add: c min_absorb2)
      show ?thesis
        using IH post n by (intro exI [of _ st] exI [of _ "n + k"] exI [of _ b'])
          (auto simp: step advanced_advanced join take_add add.assoc)
    qed
  qed
qed

end

end
