(* ===== verification/ZbdlibBackend.thy ===== *)
theory ZbdlibBackend
  imports ZoneOps
begin

text \<open>
  The block-device backend (\<open>zbdlib_zenfs.cc\<close>, \<open>zbdlib_zenfs.h\<close>). The calls into libzbd and the
  kernel are the parameter \<open>'o os\<close>; what the code relies on is \<open>os_laws\<close>, the documented behaviour of
  \<open>pread\<close>, \<open>pwrite\<close> and the zone management calls. Under these laws the backend meets the contract
  \<open>zoned_backend\<close>. A memory-backed device gives the laws a concrete instance.
\<close>

section \<open>libzbd and system calls\<close>

datatype zone_cond = ZC_EMPTY | ZC_IMP_OPEN | ZC_EXP_OPEN | ZC_CLOSED | ZC_RDONLY | ZC_FULL
  | ZC_OFFLINE | ZC_NOT_WP

record zbd_zone =
  zz_swr :: bool
  zz_cond :: zone_cond
  zz_start :: nat
  zz_capacity :: nat
  zz_wp :: nat

record zbd_info =
  zi_host_managed :: bool
  zi_pblock_size :: nat
  zi_zone_size :: nat
  zi_nr_zones :: nat
  zi_max_nr_active_zones :: nat
  zi_max_nr_open_zones :: nat

datatype open_mode = O_RDONLY_EXCL | O_RDONLY | O_RDONLY_DIRECT | O_WRONLY_DIRECT

record 'o os =
  o_zbd_open :: "string \<Rightarrow> open_mode \<Rightarrow> 'o \<Rightarrow> (int \<times> zbd_info) \<times> 'o"
  o_scheduler :: "'o \<Rightarrow> string option"
  o_list_zones :: "int \<Rightarrow> nat \<Rightarrow> nat \<Rightarrow> 'o \<Rightarrow> int \<times> zbd_zone list"
  o_report_zones :: "int \<Rightarrow> nat \<Rightarrow> nat \<Rightarrow> 'o \<Rightarrow> int \<times> zbd_zone list"
  o_reset_zones :: "int \<Rightarrow> nat \<Rightarrow> nat \<Rightarrow> 'o \<Rightarrow> int \<times> 'o"
  o_finish_zones :: "int \<Rightarrow> nat \<Rightarrow> nat \<Rightarrow> 'o \<Rightarrow> int \<times> 'o"
  o_close_zones :: "int \<Rightarrow> nat \<Rightarrow> nat \<Rightarrow> 'o \<Rightarrow> int \<times> 'o"
  o_fadvise_dontneed :: "int \<Rightarrow> nat \<Rightarrow> nat \<Rightarrow> 'o \<Rightarrow> int \<times> 'o"
  o_pread :: "int \<Rightarrow> nat \<Rightarrow> nat \<Rightarrow> 'o \<Rightarrow> read_result \<times> 'o"
  o_pwrite :: "int \<Rightarrow> string \<Rightarrow> nat \<Rightarrow> 'o \<Rightarrow> nat option \<times> 'o"
  o_time :: "'o \<Rightarrow> nat"

record 'o zbdlib =
  zl_filename :: string
  zl_read_f :: int
  zl_read_direct_f :: int
  zl_write_f :: int
  zl_block_sz :: nat
  zl_zone_sz :: nat
  zl_nr_zones :: nat
  zl_os :: 'o

section \<open>Operations\<close>

definition new_zbdlib :: "string \<Rightarrow> 'o \<Rightarrow> 'o zbdlib" where
  "new_zbdlib bdevname os = \<lparr>zl_filename = ''/dev/'' @ bdevname, zl_read_f = - 1,
     zl_read_direct_f = - 1, zl_write_f = - 1, zl_block_sz = 0, zl_zone_sz = 0, zl_nr_zones = 0,
     zl_os = os\<rparr>"

fun contains :: "string \<Rightarrow> string \<Rightarrow> bool" where
  "contains pat [] = (pat = [])"
| "contains pat (c # cs) = (take (length pat) (c # cs) = pat \<or> contains pat cs)"

definition CheckScheduler :: "'o os \<Rightarrow> 'o zbdlib \<Rightarrow> status" where
  "CheckScheduler OS b = (case o_scheduler OS (zl_os b) of
     None \<Rightarrow> InvalidArgument
   | Some buf \<Rightarrow> if contains ''[mq-deadline]'' buf then OK else InvalidArgument)"

definition zbdlib_Open :: "'o os \<Rightarrow> bool \<Rightarrow> bool \<Rightarrow> 'o zbdlib \<Rightarrow> (status \<times> nat \<times> nat) \<times> 'o zbdlib" where
  "zbdlib_Open OS readonly exclusive b =
    (let ((fd, info), d) = o_zbd_open OS (zl_filename b) (if exclusive then O_RDONLY_EXCL else O_RDONLY) (zl_os b);
         b = b\<lparr>zl_read_f := fd, zl_os := d\<rparr> in
     if fd < 0 then ((InvalidArgument, 0, 0), b) else
     let ((fd, info), d) = o_zbd_open OS (zl_filename b) O_RDONLY_DIRECT (zl_os b);
         b = b\<lparr>zl_read_direct_f := fd, zl_os := d\<rparr> in
     if fd < 0 then ((InvalidArgument, 0, 0), b) else
     let ((fd, info), b) =
       (if readonly then ((0, info), b\<lparr>zl_write_f := - 1\<rparr>)
        else let ((fd, info), d) = o_zbd_open OS (zl_filename b) O_WRONLY_DIRECT (zl_os b)
             in ((fd, info), b\<lparr>zl_write_f := fd, zl_os := d\<rparr>)) in
     if fd < 0 then ((InvalidArgument, 0, 0), b) else
     if \<not> zi_host_managed info then ((NotSupported, 0, 0), b) else
     let ios = CheckScheduler OS b in
     if ios \<noteq> OK then ((ios, 0, 0), b) else
     ((OK, zi_max_nr_active_zones info, zi_max_nr_open_zones info),
      b\<lparr>zl_block_sz := zi_pblock_size info, zl_zone_sz := zi_zone_size info, zl_nr_zones := zi_nr_zones info\<rparr>))"

text \<open>
  The operations below run on an opened device; they take the zone size and the number of zones,
  which \<open>Open\<close> stored in the members \<open>zone_sz_\<close> and \<open>nr_zones_\<close> once and for all, as the geometry \<open>G\<close>.
\<close>

text \<open>The queries of \<open>zbdlib_zenfs.h\<close> on one entry of the zone report.\<close>

definition zbdlib_rep :: "zbd_zone \<Rightarrow> zone_rep" where
  "zbdlib_rep z = \<lparr>
     r_swr = zz_swr z,
     r_offline = (zz_cond z = ZC_OFFLINE),
     r_writable = (\<not> (zz_cond z = ZC_FULL \<or> zz_cond z = ZC_OFFLINE \<or> zz_cond z = ZC_RDONLY)),
     r_active = (zz_cond z = ZC_IMP_OPEN \<or> zz_cond z = ZC_EXP_OPEN \<or> zz_cond z = ZC_CLOSED),
     r_open = (zz_cond z = ZC_IMP_OPEN \<or> zz_cond z = ZC_EXP_OPEN),
     r_start = zz_start z, r_max_capacity = zz_capacity z, r_wp = zz_wp z\<rparr>"

definition zbdlib_ListZones :: "'o os \<Rightarrow> zbd_info \<Rightarrow> 'o zbdlib \<Rightarrow> zone_rep list option" where
  "zbdlib_ListZones OS G b = (let (ret, zones) =
       o_list_zones OS (zl_read_f b) 0 (mul64 (zi_zone_size G) (zi_nr_zones G)) (zl_os b)
     in if ret \<noteq> 0 then None else Some (map zbdlib_rep zones))"

definition zbdlib_Reset :: "'o os \<Rightarrow> zbd_info \<Rightarrow> nat \<Rightarrow> 'o zbdlib \<Rightarrow> (status \<times> bool \<times> nat) \<times> 'o zbdlib" where
  "zbdlib_Reset OS G start b =
    (let (ret, d) = o_reset_zones OS (zl_write_f b) start (zi_zone_size G) (zl_os b); b = b\<lparr>zl_os := d\<rparr> in
     if ret \<noteq> 0 then ((IOError, False, 0), b) else
     let (ret, report) = o_report_zones OS (zl_read_f b) start (zi_zone_size G) (zl_os b) in
     if ret \<noteq> 0 then ((IOError, False, 0), b)
     else case report of
       [z] \<Rightarrow> if zz_cond z = ZC_OFFLINE then ((OK, True, 0), b) else ((OK, False, zz_capacity z), b)
     | _ \<Rightarrow> ((IOError, False, 0), b))"

definition zbdlib_Finish :: "'o os \<Rightarrow> zbd_info \<Rightarrow> nat \<Rightarrow> 'o zbdlib \<Rightarrow> status \<times> 'o zbdlib" where
  "zbdlib_Finish OS G start b =
    (let (ret, d) = o_finish_zones OS (zl_write_f b) start (zi_zone_size G) (zl_os b)
     in (if ret \<noteq> 0 then IOError else OK, b\<lparr>zl_os := d\<rparr>))"

definition zbdlib_Close :: "'o os \<Rightarrow> zbd_info \<Rightarrow> nat \<Rightarrow> 'o zbdlib \<Rightarrow> status \<times> 'o zbdlib" where
  "zbdlib_Close OS G start b =
    (let (ret, d) = o_close_zones OS (zl_write_f b) start (zi_zone_size G) (zl_os b)
     in (if ret \<noteq> 0 then IOError else OK, b\<lparr>zl_os := d\<rparr>))"

definition zbdlib_InvalidateCache :: "'o os \<Rightarrow> nat \<Rightarrow> nat \<Rightarrow> 'o zbdlib \<Rightarrow> int \<times> 'o zbdlib" where
  "zbdlib_InvalidateCache OS pos n b =
    (let (ret, d) = o_fadvise_dontneed OS (zl_read_f b) pos n (zl_os b) in (ret, b\<lparr>zl_os := d\<rparr>))"

definition zbdlib_Read :: "'o os \<Rightarrow> nat \<Rightarrow> nat \<Rightarrow> bool \<Rightarrow> 'o zbdlib \<Rightarrow> read_result \<times> 'o zbdlib" where
  "zbdlib_Read OS n pos direct b =
    (let (r, d) = o_pread OS (if direct then zl_read_direct_f b else zl_read_f b) n pos (zl_os b)
     in (r, b\<lparr>zl_os := d\<rparr>))"

definition zbdlib_Write :: "'o os \<Rightarrow> string \<Rightarrow> nat \<Rightarrow> 'o zbdlib \<Rightarrow> nat option \<times> 'o zbdlib" where
  "zbdlib_Write OS data pos b =
    (let (r, d) = o_pwrite OS (zl_write_f b) data pos (zl_os b) in (r, b\<lparr>zl_os := d\<rparr>))"

text \<open>
  The backend as the device layer sees it, for a device whose geometry \<open>zbd_open\<close> reported as
  \<open>info\<close>. \<open>shf\<close> and \<open>srt\<close> are the standard library's.
\<close>

definition zbdlib_env :: "'o os \<Rightarrow> zbd_info \<Rightarrow> (nat \<Rightarrow> zid list \<Rightarrow> zid list) \<Rightarrow>
    ((nat \<Rightarrow> nat \<Rightarrow> bool) \<Rightarrow> nat list \<Rightarrow> nat list) \<Rightarrow> 'o zbdlib env" where
  "zbdlib_env OS info shf srt = \<lparr>
     block_sz = zi_pblock_size info, zone_sz = zi_zone_size info, nr_zones = zi_nr_zones info,
     be_open = zbdlib_Open OS, be_list_zones = zbdlib_ListZones OS info, be_reset = zbdlib_Reset OS info,
     be_finish = zbdlib_Finish OS info, be_close = zbdlib_Close OS info, be_read = zbdlib_Read OS,
     be_write = zbdlib_Write OS, be_invalidate = zbdlib_InvalidateCache OS,
     be_time = (\<lambda>b. o_time OS (zl_os b)), std_shuffle = shf, std_sort = srt\<rparr>"

section \<open>The backend meets its contract\<close>

definition os_laws :: "'o os \<Rightarrow> ('o \<Rightarrow> nat \<Rightarrow> char) \<Rightarrow> bool" where
  "os_laws OS dc \<longleftrightarrow>
     (\<forall>fd data pos d n d'. data \<noteq> [] \<longrightarrow> o_pwrite OS fd data pos d = (Some n, d') \<longrightarrow>
        0 < n \<and> n \<le> length data \<and> dc d' = overwrite pos (take n data) (dc d)) \<and>
     (\<forall>fd data pos d d' a. o_pwrite OS fd data pos d = (None, d') \<longrightarrow>
        a < pos \<or> pos + length data \<le> a \<longrightarrow> dc d' a = dc d a) \<and>
     (\<forall>fd n pos d r d'. o_pread OS fd n pos d = (r, d') \<longrightarrow> dc d' = dc d \<and>
        (\<forall>data. r = ReadOK data \<longrightarrow> length data \<le> n \<and> data = bytes_at (dc d) pos (length data))) \<and>
     (\<forall>fd start len d r d' a. o_reset_zones OS fd start len d = (r, d') \<longrightarrow>
        a < start \<or> start + len \<le> a \<longrightarrow> dc d' a = dc d a) \<and>
     (\<forall>fd start len d r zs. o_report_zones OS fd start len d = (r, zs) \<longrightarrow>
        (\<forall>z \<in> set zs. zz_capacity z \<le> len)) \<and>
     (\<forall>fd start len d r d'. o_finish_zones OS fd start len d = (r, d') \<longrightarrow> dc d' = dc d) \<and>
     (\<forall>fd start len d r d'. o_close_zones OS fd start len d = (r, d') \<longrightarrow> dc d' = dc d) \<and>
     (\<forall>fd pos n d r d'. o_fadvise_dontneed OS fd pos n d = (r, d') \<longrightarrow> dc d' = dc d)"

lemmas zbdlib_defs = zbdlib_Reset_def zbdlib_Finish_def zbdlib_Close_def zbdlib_InvalidateCache_def
  zbdlib_Read_def zbdlib_Write_def

lemma zbdlib_reset_cases:
  assumes "zbdlib_Reset OS G start b = ((st, off, cap), b')"
  obtains r d where "o_reset_zones OS (zl_write_f b) start (zi_zone_size G) (zl_os b) = (r, d)"
    "b' = b\<lparr>zl_os := d\<rparr>"
    "st = OK \<Longrightarrow> cap = 0 \<or> (\<exists>z. o_report_zones OS (zl_read_f b) start (zi_zone_size G) d = (0, [z]) \<and>
       cap = zz_capacity z)"
  using assms by (auto simp: zbdlib_Reset_def Let_def split: prod.splits if_splits list.splits)

lemma zbdlib_backend:
  assumes "os_laws OS dc"
  shows "zoned_backend (zbdlib_env OS info shf srt) (\<lambda>b. dc (zl_os b))"
proof
  fix start r b b' a
  assume "be_reset (zbdlib_env OS info shf srt) start b = (r, b')"
    and a: "a < start \<or> start + zone_sz (zbdlib_env OS info shf srt) \<le> a"
  then show "dc (zl_os b') a = dc (zl_os b) a"
    using assms by (cases r) (auto simp: zbdlib_env_def os_laws_def elim!: zbdlib_reset_cases)
next
  fix start st off cap b b'
  assume "be_reset (zbdlib_env OS info shf srt) start b = ((st, off, cap), b')" "st = OK"
  then show "cap \<le> zone_sz (zbdlib_env OS info shf srt)"
    using assms by (auto simp: zbdlib_env_def os_laws_def elim!: zbdlib_reset_cases)
next
qed (use assms in \<open>auto simp: zbdlib_env_def zbdlib_defs os_laws_def split: prod.splits\<close>)


section \<open>A memory-backed device\<close>

text \<open>
  A concrete device: its state is the stored bytes, every call succeeds, and a reset clears its
  range. It shows that the laws can be met, and concrete runs are evaluated on it.
\<close>

definition mem_info :: zbd_info where
  "mem_info = \<lparr>zi_host_managed = True, zi_pblock_size = 4, zi_zone_size = 16, zi_nr_zones = 40,
     zi_max_nr_active_zones = 8, zi_max_nr_open_zones = 6\<rparr>"

definition mem_zone :: "nat \<Rightarrow> nat \<Rightarrow> zbd_zone" where
  "mem_zone start len = \<lparr>zz_swr = True, zz_cond = ZC_EMPTY, zz_start = start, zz_capacity = len,
     zz_wp = start\<rparr>"

definition mem_os :: "(nat \<Rightarrow> char) os" where
  "mem_os = \<lparr>
     o_zbd_open = (\<lambda>name mode d. ((3, mem_info), d)),
     o_scheduler = (\<lambda>d. Some ''none [mq-deadline]''),
     o_list_zones = (\<lambda>fd start len d. (0, map (\<lambda>i. mem_zone (i * 16) 16) [0..<40])),
     o_report_zones = (\<lambda>fd start len d. (0, [mem_zone start len])),
     o_reset_zones = (\<lambda>fd start len d. (0, overwrite start (replicate len (CHR 0x00)) d)),
     o_finish_zones = (\<lambda>fd start len d. (0, d)),
     o_close_zones = (\<lambda>fd start len d. (0, d)),
     o_fadvise_dontneed = (\<lambda>fd pos n d. (0, d)),
     o_pread = (\<lambda>fd n pos d. (ReadOK (bytes_at d pos n), d)),
     o_pwrite = (\<lambda>fd data pos d. (Some (length data), overwrite pos data d)),
     o_time = (\<lambda>d. 0)\<rparr>"

definition mem_sort :: "(nat \<Rightarrow> nat \<Rightarrow> bool) \<Rightarrow> nat list \<Rightarrow> nat list" where
  "mem_sort lt xs = foldr (\<lambda>x ys. takeWhile (\<lambda>y. lt y x) ys @ x # dropWhile (\<lambda>y. lt y x) ys) xs []"

definition mem_env :: "(nat \<Rightarrow> char) zbdlib env" where
  "mem_env = zbdlib_env mem_os mem_info (\<lambda>_ xs. rev xs) mem_sort"

abbreviation mem_cont :: "(nat \<Rightarrow> char) zbdlib \<Rightarrow> nat \<Rightarrow> char" where
  "mem_cont \<equiv> zl_os"

lemma mem_os_laws: "os_laws mem_os (\<lambda>d. d)"
  by (auto simp: os_laws_def mem_os_def mem_zone_def overwrite_def)

interpretation mem: zoned_backend mem_env mem_cont
  unfolding mem_env_def using zbdlib_backend [OF mem_os_laws] .


end
