(* ===== verification/Zbd.thy ===== *)
theory Zbd
  imports ZbdlibBackend
begin

text \<open>
  \<open>ZonedBlockDevice\<close> without the placement policies (\<open>zbd_zenfs.cc\<close>): opening the device, space
  accounting, the open and active zone tokens, resetting and finishing zones, metadata zones,
  and reads. Loops over the zones thread the state; an early return ends the recursion.
\<close>

section \<open>Opening the device\<close>

text \<open>
  The state the constructor leaves, with the parameters already loaded. The heaps start with
  default objects; nothing refers to them before they are created.
\<close>

definition new_file :: "nat \<Rightarrow> zonefile" where
  "new_file fid = \<lparr>f_extents = [], f_linkfiles = [], f_active_zone = None, f_extent_start = NO_EXTENT,
     f_extent_filepos = 0, f_lifetime = WLTH_NOT_SET, f_io_type = KUnknown, f_file_size = 0,
     f_file_id = fid, f_nr_synced_extents = 0, f_open_for_wr = False, f_m_time = 0,
     f_is_sparse = False, f_is_deleted = False, f_level = - 1, f_smallest = [], f_largest = [],
     f_icmp = (\<lambda>a b. 0), f_num_entries = 0, f_num_deletions = 0, f_num_range_deletions = 0,
     f_file_size_meta = 0, f_compensated_file_size = 0, f_compensated_range_deletion_size = 0,
     f_smallest_seqno = 2 ^ 56 - 1, f_largest_seqno = 0, f_has_keys = False, f_is_recorded = False,
     f_key_update_count = 0, f_key_update_post_alloc_count = 0, f_rank = 100000, f_alloc_size = 0\<rparr>"

definition new_device :: "params \<Rightarrow> 'b \<Rightarrow> 'b zbd" where
  "new_device p b = \<lparr>
     zone_at = (\<lambda>_. new_zone \<lparr>r_swr = False, r_offline = True, r_writable = False, r_active = False,
       r_open = False, r_start = 0, r_max_capacity = 0, r_wp = 0\<rparr>),
     file_at = (\<lambda>_. new_file 0), io_zones = [], meta_zones = [], zone_start_to_pointer = Map.empty,
     finish_threshold = 0, bytes_written = 0, gc_bytes_written = 0, finish_bytes_written = 0,
     active_io_zones = 0, open_io_zones = 0, max_nr_active_io_zones = 0, max_nr_open_io_zones = 0,
     zone_deferred_status = OK, migrating = False, levelwise_file_list = [], alloc_count = 0,
     failure_count = 0, total_reset_count = 0, gc_reset_count = 0, nearest_real_success = 0,
     nearest_need_new = 0, nearest_got_new = 0, need_flag = False, zenfs_parameters = p,
     seq_zone_pos = 0, shuffle_calls = 0, be = b\<rparr>"

definition ZENFS_META_ZONES :: nat where "ZENFS_META_ZONES = 3"
definition ZENFS_MIN_ZONES :: nat where "ZENFS_MIN_ZONES = 32"

text \<open>
  The \<open>Zone\<close> object made for entry \<open>i\<close> of the zone report gets the identifier \<open>i\<close>. The map by zone
  index, which nothing reads, is left out.
\<close>

definition create_zone :: "nat \<Rightarrow> zone_rep \<Rightarrow> ('b, 'm) zbd_scheme \<Rightarrow> ('b, 'm) zbd_scheme" where
  "create_zone i r s = s\<lparr>zone_at := (zone_at s)(i := new_zone r),
     zone_start_to_pointer := (zone_start_to_pointer s)(r_start r \<mapsto> i)\<rparr>"

fun open_meta_zones :: "nat \<Rightarrow> (nat \<times> zone_rep) list \<Rightarrow> ('b, 'm) zbd_scheme \<Rightarrow>
    (nat \<times> zone_rep) list \<times> ('b, 'm) zbd_scheme" where
  "open_meta_zones m [] s = ([], s)"
| "open_meta_zones m ((i, r) # rs) s =
     (if m < ZENFS_META_ZONES then
        if r_swr r then
          open_meta_zones (m + 1) rs
            (if \<not> r_offline r then (create_zone i r s)\<lparr>meta_zones := meta_zones s @ [i]\<rparr> else s)
        else open_meta_zones m rs s
      else ((i, r) # rs, s))"

fun open_io_zones_loop :: "'b env \<Rightarrow> bool \<Rightarrow> (nat \<times> zone_rep) list \<Rightarrow> ('b, 'm) zbd_scheme \<Rightarrow>
    status \<times> ('b, 'm) zbd_scheme" where
  "open_io_zones_loop E readonly [] s = (OK, s)"
| "open_io_zones_loop E readonly ((i, r) # rs) s =
     (if r_swr r \<and> \<not> r_offline r then
        let s = create_zone i r s; (got, s) = Acquire i s in
        if \<not> got then (Corruption, s) else
        let s = s\<lparr>io_zones := io_zones s @ [i]\<rparr>;
            s = (if r_active r then
                   let s = s\<lparr>active_io_zones := active_io_zones s + 1\<rparr>
                   in if r_open r \<and> \<not> readonly then snd (Zone_Close E i s) else s
                 else s);
            (st, s) = CheckRelease i s in
        if st \<noteq> OK then (st, s) else open_io_zones_loop E readonly rs s
      else open_io_zones_loop E readonly rs s)"

definition ZBD_Open :: "'b env \<Rightarrow> bool \<Rightarrow> bool \<Rightarrow> ('b, 'm) zbd_scheme \<Rightarrow> status \<times> ('b, 'm) zbd_scheme" where
  "ZBD_Open E readonly exclusive s =
    (if \<not> readonly \<and> \<not> exclusive then (InvalidArgument, s) else
     let ((ios, max_active, max_open), b) = be_open E readonly exclusive (be s); s = s\<lparr>be := b\<rparr> in
     if ios \<noteq> OK then (ios, s) else
     if nr_zones E < ZENFS_MIN_ZONES then (NotSupported, s) else
     let s = s\<lparr>max_nr_active_io_zones :=
                 (if max_active = 0 then nr_zones E else cast32 (max_active + 2 ^ 32 - 2)),
               max_nr_open_io_zones :=
                 (if max_open = 0 then nr_zones E else cast32 (max_open + 2 ^ 32 - 2))\<rparr> in
     case be_list_zones E (be s) of None \<Rightarrow> (IOError, s)
     | Some reps \<Rightarrow>
       if length reps \<noteq> nr_zones E then (IOError, s) else
       let (rest, s) = open_meta_zones 0 (enumerate 0 reps) s;
           s = s\<lparr>active_io_zones := 0, open_io_zones := 0\<rparr>
       in open_io_zones_loop E readonly rest s)"

section \<open>Looking up zones and accounting space\<close>

definition GetIOZone :: "'b env \<Rightarrow> nat \<Rightarrow> ('b, 'm) zbd_scheme \<Rightarrow> zid option" where
  "GetIOZone E offset s = find (\<lambda>z. z_start (zone_at s z) \<le> offset \<and>
     offset < add64 (z_start (zone_at s z)) (zone_sz E)) (io_zones s)"

definition sum64 :: "('a \<Rightarrow> nat) \<Rightarrow> 'a list \<Rightarrow> nat" where
  "sum64 g xs = foldl (\<lambda>acc x. add64 acc (g x)) 0 xs"

definition GetFreeSpace :: "('b, 'm) zbd_scheme \<Rightarrow> nat" where
  "GetFreeSpace s = sum64 (\<lambda>z. z_capacity (zone_at s z)) (io_zones s)"

definition GetUsedSpace :: "('b, 'm) zbd_scheme \<Rightarrow> nat" where
  "GetUsedSpace s = sum64 (\<lambda>z. z_used_capacity (zone_at s z)) (io_zones s)"

definition GetReclaimableSpace :: "('b, 'm) zbd_scheme \<Rightarrow> nat" where
  "GetReclaimableSpace s = sum64 (\<lambda>z. sub64 (z_max_capacity (zone_at s z)) (z_used_capacity (zone_at s z)))
     (filter (\<lambda>z. IsFull (zone_at s z)) (io_zones s))"

text \<open>The division traps when there is neither free nor other space.\<close>

definition GetFreePercent :: "('b, 'm) zbd_scheme \<Rightarrow> nat option" where
  "GetFreePercent s = (let non_free = add64 (GetUsedSpace s) (GetReclaimableSpace s); free = GetFreeSpace s
     in if add64 free non_free = 0 then None else Some (mul64 100 free div add64 free non_free))"

definition GetEmptyZoneCount :: "('b, 'm) zbd_scheme \<Rightarrow> nat" where
  "GetEmptyZoneCount s = length (filter (\<lambda>z. IsEmpty (zone_at s z)) (io_zones s))"

section \<open>Tokens and the deferred status\<close>

text \<open>
  Waiting for an open-zone token returns only once one is free; with the other threads fixed
  that is decided by the current state, and \<open>None\<close> is the caller still waiting.
\<close>

definition allocator_open_limit :: "bool \<Rightarrow> ('b, 'm) zbd_scheme \<Rightarrow> int" where
  "allocator_open_limit prioritized s =
     int (if prioritized then max_nr_open_io_zones s else cast32 (max_nr_open_io_zones s + 2 ^ 32 - 1))"

definition WaitForOpenIOZoneToken :: "bool \<Rightarrow> ('b, 'm) zbd_scheme \<Rightarrow> ('b, 'm) zbd_scheme option" where
  "WaitForOpenIOZoneToken prioritized s =
     (if open_io_zones s < allocator_open_limit prioritized s
      then Some (s\<lparr>open_io_zones := open_io_zones s + 1\<rparr>) else None)"

definition GetActiveIOZoneTokenIfAvailable :: "('b, 'm) zbd_scheme \<Rightarrow> bool \<times> ('b, 'm) zbd_scheme" where
  "GetActiveIOZoneTokenIfAvailable s =
     (if active_io_zones s < int (max_nr_active_io_zones s)
      then (True, s\<lparr>active_io_zones := active_io_zones s + 1\<rparr>) else (False, s))"

definition PutOpenIOZoneToken :: "('b, 'm) zbd_scheme \<Rightarrow> ('b, 'm) zbd_scheme" where
  "PutOpenIOZoneToken s = s\<lparr>open_io_zones := open_io_zones s - 1\<rparr>"

definition PutActiveIOZoneToken :: "('b, 'm) zbd_scheme \<Rightarrow> ('b, 'm) zbd_scheme" where
  "PutActiveIOZoneToken s = s\<lparr>active_io_zones := active_io_zones s - 1\<rparr>"

definition GetZoneDeferredStatus :: "('b, 'm) zbd_scheme \<Rightarrow> status" where
  "GetZoneDeferredStatus s = zone_deferred_status s"

definition SetZoneDeferredStatus :: "status \<Rightarrow> ('b, 'm) zbd_scheme \<Rightarrow> ('b, 'm) zbd_scheme" where
  "SetZoneDeferredStatus st s =
     (if zone_deferred_status s \<noteq> OK then s\<lparr>zone_deferred_status := st\<rparr> else s)"

section \<open>Metadata zones, resetting and finishing\<close>

fun alloc_meta_loop :: "'b env \<Rightarrow> zid list \<Rightarrow> ('b, 'm) zbd_scheme \<Rightarrow>
    (status \<times> zid option) \<times> ('b, 'm) zbd_scheme" where
  "alloc_meta_loop E [] s = ((NoSpace, None), s)"
| "alloc_meta_loop E (z # zs) s = (let (got, s) = Acquire z s in
     if got \<and> \<not> IsUsed (zone_at s z) then
       let (st, s) = (if \<not> IsEmpty (zone_at s z) then Zone_Reset E z s else (OK, s)) in
       if st \<noteq> OK then
         let (st', s) = CheckRelease z s in
         if st' \<noteq> OK then ((st', None), s) else alloc_meta_loop E zs s
       else ((OK, Some z), s)
     else alloc_meta_loop E zs s)"

definition AllocateMetaZone :: "'b env \<Rightarrow> ('b, 'm) zbd_scheme \<Rightarrow>
    (status \<times> zid option) \<times> ('b, 'm) zbd_scheme" where
  "AllocateMetaZone E s = alloc_meta_loop E (meta_zones s) s"

fun reset_unused_loop :: "'b env \<Rightarrow> bool \<Rightarrow> zid list \<Rightarrow> ('b, 'm) zbd_scheme \<Rightarrow>
    status \<times> ('b, 'm) zbd_scheme" where
  "reset_unused_loop E gc [] s = (OK, s)"
| "reset_unused_loop E gc (z # zs) s = (let (got, s) = Acquire z s in
     if \<not> got then reset_unused_loop E gc zs s
     else if \<not> IsEmpty (zone_at s z) \<and> \<not> IsUsed (zone_at s z) then
       let full = IsFull (zone_at s z);
           (reset_status, s) = Zone_Reset E z s; (release_status, s) = CheckRelease z s in
       if reset_status \<noteq> OK then (reset_status, s)
       else if release_status \<noteq> OK then (release_status, s)
       else let s = (if \<not> full then PutActiveIOZoneToken s else s);
                s = s\<lparr>total_reset_count := total_reset_count s + 1\<rparr>;
                s = (if gc then (zone_upd z (\<lambda>x. x\<lparr>z_flag_gc_reset := True\<rparr>) s)\<lparr>gc_reset_count := gc_reset_count s + 1\<rparr> else s)
            in reset_unused_loop E gc zs s
     else let (st, s) = CheckRelease z s in
       if st \<noteq> OK then (st, s) else reset_unused_loop E gc zs s)"

definition ResetUnusedIOZones :: "'b env \<Rightarrow> bool \<Rightarrow> ('b, 'm) zbd_scheme \<Rightarrow> status \<times> ('b, 'm) zbd_scheme" where
  "ResetUnusedIOZones E gc s = reset_unused_loop E gc (io_zones s) s"

fun finish_threshold_loop :: "'b env \<Rightarrow> zid list \<Rightarrow> ('b, 'm) zbd_scheme \<Rightarrow> status \<times> ('b, 'm) zbd_scheme" where
  "finish_threshold_loop E [] s = (OK, s)"
| "finish_threshold_loop E (z # zs) s = (let (got, s) = Acquire z s in
     if \<not> got then finish_threshold_loop E zs s
     else let zn = zone_at s z;
              within_thr = z_capacity zn < mul64 (z_max_capacity zn) (finish_threshold s) div 100 in
       if \<not> (IsEmpty zn \<or> IsFull zn) \<and> within_thr then
         let (st, s) = Zone_Finish E z s in
         if st \<noteq> OK then (st, snd (Release z s))
         else let (st, s) = CheckRelease z s in
           if st \<noteq> OK then (st, s) else finish_threshold_loop E zs (PutActiveIOZoneToken s)
       else let (st, s) = CheckRelease z s in
         if st \<noteq> OK then (st, s) else finish_threshold_loop E zs s)"

definition ApplyFinishThreshold :: "'b env \<Rightarrow> ('b, 'm) zbd_scheme \<Rightarrow> status \<times> ('b, 'm) zbd_scheme" where
  "ApplyFinishThreshold E s =
     (if finish_threshold s = 0 then (OK, s) else finish_threshold_loop E (io_zones s) s)"

text \<open>Choosing the victim of \<open>FinishCheapestIOZone\<close>; the chosen zone stays acquired.\<close>

fun finish_victim_loop :: "zid list \<Rightarrow> zid option \<Rightarrow> ('b, 'm) zbd_scheme \<Rightarrow>
    (status \<times> zid option) \<times> ('b, 'm) zbd_scheme" where
  "finish_victim_loop [] victim s = ((OK, victim), s)"
| "finish_victim_loop (z # zs) victim s = (let (got, s) = Acquire z s in
     if \<not> got then finish_victim_loop zs victim s
     else if IsEmpty (zone_at s z) \<or> IsFull (zone_at s z) then
       let (st, s) = CheckRelease z s in
       if st \<noteq> OK then ((st, victim), s) else finish_victim_loop zs victim s
     else case victim of
       None \<Rightarrow> finish_victim_loop zs (Some z) s
     | Some v \<Rightarrow>
         if z_capacity (zone_at s v) > z_capacity (zone_at s z) then
           let (st, s) = CheckRelease v s in
           if st \<noteq> OK then ((st, victim), s) else finish_victim_loop zs (Some z) s
         else let (st, s) = CheckRelease z s in
           if st \<noteq> OK then ((st, victim), s) else finish_victim_loop zs victim s)"

definition FinishCheapestIOZone :: "'b env \<Rightarrow> ('b, 'm) zbd_scheme \<Rightarrow> status \<times> ('b, 'm) zbd_scheme" where
  "FinishCheapestIOZone E s = (let ((st, victim), s) = finish_victim_loop (io_zones s) None s in
     if st \<noteq> OK then (st, s)
     else case victim of
       None \<Rightarrow> (OK, s)
     | Some v \<Rightarrow>
         let s = s\<lparr>finish_bytes_written := add64 (finish_bytes_written s) (z_capacity (zone_at s v))\<rparr>;
             (st, s) = Zone_Finish E v s; (release_status, s) = CheckRelease v s;
             s = (if st = OK then PutActiveIOZoneToken s else s)
         in if release_status \<noteq> OK then (release_status, s) else (st, s))"

section \<open>Reading\<close>

definition ZBD_InvalidateCache :: "'b env \<Rightarrow> nat \<Rightarrow> nat \<Rightarrow> ('b, 'm) zbd_scheme \<Rightarrow> status \<times> ('b, 'm) zbd_scheme" where
  "ZBD_InvalidateCache E pos n s = (let (ret, b) = be_invalidate E pos n (be s)
     in (if ret \<noteq> 0 then IOError else OK, s\<lparr>be := b\<rparr>))"

text \<open>
  \<open>Read\<close> returns the bytes it put into the buffer, or \<open>None\<close> for a negative result; a request for
  no bytes at all is answered by \<open>-1\<close>, the initial value of \<open>r\<close>. An interrupted call is repeated
  without bound.
\<close>

partial_function (option) zbd_read_loop :: "'b env \<Rightarrow> nat \<Rightarrow> nat \<Rightarrow> bool \<Rightarrow> string \<Rightarrow>
    ('b, 'm) zbd_scheme \<Rightarrow> (string option \<times> ('b, 'm) zbd_scheme) option" where
  "zbd_read_loop E offset left direct buf s =
    (if left = 0 then Some (Some buf, s)
     else case be_read E left offset direct (be s) of
       (ReadEINTR, b) \<Rightarrow> zbd_read_loop E offset left direct buf (s\<lparr>be := b\<rparr>)
     | (ReadError, b) \<Rightarrow> Some (None, s\<lparr>be := b\<rparr>)
     | (ReadOK d, b) \<Rightarrow> if d = [] then Some (Some buf, s\<lparr>be := b\<rparr>)
         else zbd_read_loop E (add64 offset (length d)) (left - length d) direct (buf @ d) (s\<lparr>be := b\<rparr>))"

definition ZBD_Read :: "'b env \<Rightarrow> nat \<Rightarrow> nat \<Rightarrow> bool \<Rightarrow> ('b, 'm) zbd_scheme \<Rightarrow>
    (string option \<times> ('b, 'm) zbd_scheme) option" where
  "ZBD_Read E offset n direct s =
     (if n = 0 then Some (None, s) else zbd_read_loop E offset n direct [] s)"

section \<open>A small device\<close>

text \<open>A device with three metadata and four I/O zones of 16 bytes, all empty, for concrete runs.\<close>

definition mem_dev :: "(nat \<Rightarrow> char) zbdlib zbd" where
  "mem_dev = (new_device default_params (new_zbdlib ''nvme0n1'' (\<lambda>_. CHR 0x00)))\<lparr>
     zone_at := (\<lambda>i. new_zone (zbdlib_rep (mem_zone (16 * i) 16))),
     io_zones := [3, 4, 5, 6], meta_zones := [0, 1, 2],
     zone_start_to_pointer := (\<lambda>p. if p mod 16 = 0 \<and> p div 16 < 7 then Some (p div 16) else None),
     max_nr_active_io_zones := 4, max_nr_open_io_zones := 4\<rparr>"

lemmas mem_dev_eval = mem_dev_def new_device_def new_zone_def zbdlib_rep_def mem_zone_def
  default_params_def

section \<open>Appending to a zone\<close>

text \<open>
  C3. \<open>Zone::Append\<close> always returns and keeps the zone well formed. Without room for the data it
  changes nothing and reports \<open>NoSpace\<close>. Otherwise it either stores all of the data at the write
  pointer, advances the pointer and takes the bytes off the capacity, or reports an I/O error
  after a proper prefix of the data; nothing outside the range of the append changes, and no
  other zone does.
\<close>

theorem zone_append_correct:
  assumes "zoned_backend E cont" "zone_wf E (zone_at s z)" "bytes_written s < 2 ^ 64"
  shows "\<exists>st s'. Zone_Append E z data s = Some (st, s') \<and> zone_wf E (zone_at s' z) \<and>
    (\<forall>y. y \<noteq> z \<longrightarrow> zone_at s' y = zone_at s y) \<and>
    (if z_capacity (zone_at s z) < length data then st = NoSpace \<and> s' = s
     else \<exists>k. z_wp (zone_at s' z) = z_wp (zone_at s z) + k \<and>
       z_capacity (zone_at s' z) = z_capacity (zone_at s z) - k \<and>
       (st = OK \<and> k = length data \<and>
          cont (be s') = overwrite (z_wp (zone_at s z)) data (cont (be s)) \<or>
        st = IOError \<and> k < length data \<and>
          bytes_at (cont (be s')) (z_wp (zone_at s z)) k = take k data \<and>
          (\<forall>a. a < z_wp (zone_at s z) \<or> z_wp (zone_at s z) + length data \<le> a \<longrightarrow>
             cont (be s') a = cont (be s) a)))"
proof (cases "z_capacity (zone_at s z) < length data")
  case True
  then show ?thesis using assms(2) by (simp add: Zone_Append_def)
next
  case False
  let ?wp = "z_wp (zone_at s z)"
  from zoned_backend.append_loop_returns [OF assms(1,2) _ assms(3), of data] False
  obtain st k b where r: "append_loop E z data s = Some (st, advanced z k b s)" "k \<le> length data"
    and post: "st = OK \<and> k = length data \<and> cont b = overwrite ?wp data (cont (be s)) \<or>
      st = IOError \<and> k < length data \<and> (\<forall>a. a < ?wp + k \<or> ?wp + length data \<le> a \<longrightarrow>
        cont b a = overwrite ?wp (take k data) (cont (be s)) a)"
    by auto
  have prefix: "bytes_at (cont b) ?wp k = take k data"
    if "\<forall>a. a < ?wp + k \<longrightarrow> cont b a = overwrite ?wp (take k data) (cont (be s)) a"
    using that r(2) by (intro nth_equalityI) (auto simp: overwrite_def)
  have "zone_wf E (zone_at (advanced z k b s) z)"
    using assms(2) r(2) False by (simp add: zone_at_advanced zone_wf_advance)
  then show ?thesis
    using False r post prefix
    by (intro exI [of _ st] exI [of _ "advanced z k b s"])
      (auto simp: Zone_Append_def zone_at_advanced overwrite_def intro!: exI [of _ k])
qed

theorem zone_append_correct_witness:
  "\<exists>s'. Zone_Append mem_env 3 ''abcd'' mem_dev = Some (OK, s') \<and> zone_wf mem_env (zone_at s' 3) \<and>
     z_wp (zone_at s' 3) = 52 \<and> z_capacity (zone_at s' 3) = 12 \<and> bytes_at (mem_cont (be s')) 48 4 = ''abcd''"
proof -
  have wf: "zone_wf mem_env (zone_at mem_dev 3)" and bw: "bytes_written mem_dev < 2 ^ 64"
    by (simp_all add: zone_wf_def mem_dev_eval mem_env_def zbdlib_env_def mem_info_def sub64_def)
  have "\<exists>s'. Zone_Append mem_env 3 ''abcd'' mem_dev = Some (OK, s')"
    by (simp add: Zone_Append_def mem_dev_eval sub64_def, subst append_loop.simps,
        simp add: mem_env_def zbdlib_env_def zbdlib_Write_def mem_os_def, subst append_loop.simps, simp)
  then obtain s' where run: "Zone_Append mem_env 3 ''abcd'' mem_dev = Some (OK, s')" by blast
  have "\<not> z_capacity (zone_at mem_dev 3) < length ''abcd''" "z_wp (zone_at mem_dev 3) = 48"
    "z_capacity (zone_at mem_dev 3) = 16"
    by (simp_all add: mem_dev_eval sub64_def)
  with zone_append_correct [OF mem.zoned_backend_axioms wf bw, of "''abcd''"] run
    bytes_at_overwrite [of 48 "''abcd''" "mem_cont (be mem_dev)"]
  show ?thesis by (auto simp: numeral_eq_Suc)
qed

end
