(* ===== verification/Scan.thy ===== *)
theory Scan
  imports Zbd
begin

text \<open>
  The scans of the zone allocator. Every policy of \<open>zbd_extension_zenfs.cc\<close> walks over candidate
  zones, acquires each, keeps the best one so far acquired and releases the others. The loops
  are modelled with all their acquire, release and early-return steps; \<open>hold\<close> describes the state
  while one zone is kept, and the lemmas show that a loop never fails, leaves exactly the zone
  it returns acquired, and that the choice is a pure function of the state before the loop.
\<close>

section \<open>Holding a zone\<close>

definition hold :: "zid option \<Rightarrow> ('b, 'm) zbd_scheme \<Rightarrow> ('b, 'm) zbd_scheme" where
  "hold a s = (case a of None \<Rightarrow> s | Some z \<Rightarrow> zone_upd z (\<lambda>x. x\<lparr>z_busy := True\<rparr>) s)"

abbreviation free_in :: "('b, 'm) zbd_scheme \<Rightarrow> zid \<Rightarrow> bool" where
  "free_in s z \<equiv> \<not> z_busy (zone_at s z)"

definition held_free :: "zid option \<Rightarrow> ('b, 'm) zbd_scheme \<Rightarrow> bool" where
  "held_free a s \<longleftrightarrow> (\<forall>z. a = Some z \<longrightarrow> free_in s z)"

lemma held_free_simps [simp]: "held_free None s" "held_free (Some z) s = free_in s z"
  by (simp_all add: held_free_def)

lemma hold_None [simp]: "hold None s = s"
  by (simp add: hold_def)

lemma busy_roundtrip: "\<not> z_busy x \<Longrightarrow> x\<lparr>z_busy := False\<rparr> = x"
  by (cases x) simp

lemma busy_set: "z_busy x \<Longrightarrow> x\<lparr>z_busy := True\<rparr> = x"
  by (cases x) simp

lemma zone_at_hold: "zone_at (hold a s) z = (if a = Some z then (zone_at s z)\<lparr>z_busy := True\<rparr> else zone_at s z)"
  by (cases a) (simp_all add: hold_def)

lemma busy_blind [simp]:
  "IsUsed (x\<lparr>z_busy := b\<rparr>) = IsUsed x" "IsFull (x\<lparr>z_busy := b\<rparr>) = IsFull x" "IsEmpty (x\<lparr>z_busy := b\<rparr>) = IsEmpty x"
  by (simp_all add: IsUsed_def IsFull_def IsEmpty_def)

lemma hold_other [simp]:
  "io_zones (hold a s) = io_zones s" "meta_zones (hold a s) = meta_zones s"
  "file_at (hold a s) = file_at s" "zenfs_parameters (hold a s) = zenfs_parameters s"
  "be (hold a s) = be s" "active_io_zones (hold a s) = active_io_zones s"
  "open_io_zones (hold a s) = open_io_zones s" "levelwise_file_list (hold a s) = levelwise_file_list s"
  "zone_start_to_pointer (hold a s) = zone_start_to_pointer s"
  "max_nr_active_io_zones (hold a s) = max_nr_active_io_zones s"
  "max_nr_open_io_zones (hold a s) = max_nr_open_io_zones s" "need_flag (hold a s) = need_flag s"
  by (cases a; simp add: hold_def)+

lemma Acquire_busy: "z_busy (zone_at s z) \<Longrightarrow> Acquire z s = (False, s)"
  by (simp add: Acquire_def)

lemma Acquire_free: "free_in s z \<Longrightarrow> Acquire z s = (True, hold (Some z) s)"
  by (simp add: Acquire_def hold_def)

lemma CheckRelease_hold: "free_in s z \<Longrightarrow> CheckRelease z (hold (Some z) s) = (OK, s)"
  by (simp add: CheckRelease_def Release_def hold_def busy_roundtrip fun_upd_idem)

lemma Release_hold: "free_in s z \<Longrightarrow> Release z (hold (Some z) s) = (True, s)"
  by (simp add: Release_def hold_def busy_roundtrip fun_upd_idem)

lemma hold_comm: "hold (Some y) (hold (Some z) s) = hold (Some z) (hold (Some y) s)"
  by (cases "y = z") (simp_all add: hold_def fun_upd_twist)

lemma CheckRelease_first:
  "a \<noteq> z \<Longrightarrow> free_in s a \<Longrightarrow> CheckRelease a (hold (Some z) (hold (Some a) s)) = (OK, hold (Some z) s)"
  by (subst hold_comm) (simp add: CheckRelease_hold zone_at_hold)

lemmas scan_simps = Acquire_busy Acquire_free CheckRelease_hold Release_hold CheckRelease_first zone_at_hold

section \<open>The scan shared by the placement policies\<close>

text \<open>
  \<open>match_loop\<close> is the loop body common to the \<open>Match...\<close> and \<open>ChooseZone...\<close> functions: \<open>elig\<close> is the
  eligibility test on the acquired zone, \<open>score\<close> the value compared, \<open>better\<close> the comparison with the
  best value so far. Candidates are zones, or extents that name a zone.
\<close>

fun match_loop :: "(zone \<Rightarrow> bool) \<Rightarrow> ('c \<Rightarrow> zid) \<Rightarrow> ('c \<Rightarrow> zone \<Rightarrow> nat) \<Rightarrow> (nat \<Rightarrow> nat \<Rightarrow> bool) \<Rightarrow>
    'c list \<Rightarrow> zid option \<Rightarrow> nat \<Rightarrow> ('b, 'm) zbd_scheme \<Rightarrow>
    (status \<times> zid option \<times> nat) \<times> ('b, 'm) zbd_scheme" where
  "match_loop elig zof score better [] allocated best s = ((OK, allocated, best), s)"
| "match_loop elig zof score better (c # cs) allocated best s =
    (let z = zof c; (got, s) = Acquire z s in
     if \<not> got then match_loop elig zof score better cs allocated best s
     else if elig (zone_at s z) then
       let diff = score c (zone_at s z) in
       if better diff best then
         case allocated of
           None \<Rightarrow> match_loop elig zof score better cs (Some z) diff s
         | Some a \<Rightarrow>
             let (st, s) = CheckRelease a s in
             if st \<noteq> OK then
               let (st', s) = CheckRelease z s in
               ((if st' \<noteq> OK then st' else st, allocated, best), s)
             else match_loop elig zof score better cs (Some z) diff s
       else
         let (st, s) = CheckRelease z s in
         if st \<noteq> OK then ((st, allocated, best), s)
         else match_loop elig zof score better cs allocated best s
     else
       let (st, s) = CheckRelease z s in
       if st \<noteq> OK then ((st, allocated, best), s)
       else match_loop elig zof score better cs allocated best s)"

text \<open>The choice as a function of the state before the scan.\<close>

fun pick :: "(zone \<Rightarrow> bool) \<Rightarrow> ('c \<Rightarrow> zid) \<Rightarrow> ('c \<Rightarrow> zone \<Rightarrow> nat) \<Rightarrow> (nat \<Rightarrow> nat \<Rightarrow> bool) \<Rightarrow>
    (zid \<Rightarrow> zone) \<Rightarrow> 'c list \<Rightarrow> zid option \<Rightarrow> nat \<Rightarrow> zid option \<times> nat" where
  "pick elig zof score better Z [] a b = (a, b)"
| "pick elig zof score better Z (c # cs) a b =
    (let z = zof c; x = Z z in
     if z_busy x \<or> a = Some z \<or> \<not> elig x \<or> \<not> better (score c x) b
     then pick elig zof score better Z cs a b
     else pick elig zof score better Z cs (Some z) (score c x))"

lemma pick_member:
  "fst (pick elig zof score better Z cs a b) = Some z \<Longrightarrow>
   a = Some z \<or> (\<exists>c \<in> set cs. zof c = z \<and> \<not> z_busy (Z z) \<and> elig (Z z))"
  by (induction cs arbitrary: a b) (fastforce simp: Let_def split: if_splits)+

text \<open>Tests and scores of the policies do not look at the busy flag.\<close>

locale zone_scan =
  fixes elig :: "zone \<Rightarrow> bool" and score :: "'c \<Rightarrow> zone \<Rightarrow> nat"
  assumes elig_blind: "elig (x\<lparr>z_busy := b\<rparr>) = elig x"
    and score_blind: "score c (x\<lparr>z_busy := b\<rparr>) = score c x"
begin

lemma pick_free:
  assumes "held_free a s"
  shows "held_free (fst (pick elig zof score better (zone_at s) cs a b)) s"
  using assms by (induction cs arbitrary: a b) (auto simp: Let_def)

lemma match_loop_hold:
  assumes "held_free a s"
  shows "match_loop elig zof score better cs a b (hold a s) =
    ((OK, pick elig zof score better (zone_at s) cs a b),
     hold (fst (pick elig zof score better (zone_at s) cs a b)) s)"
  using assms
proof (induction cs arbitrary: a b)
  case Nil
  then show ?case by simp
next
  case (Cons c cs)
  let ?z = "zof c"
  show ?case
  proof (cases "z_busy (zone_at s ?z) \<or> a = Some ?z")
    case True
    then have "Acquire ?z (hold a s) = (False, hold a s)"
      by (intro Acquire_busy) (auto simp: zone_at_hold)
    then show ?thesis using True Cons by (auto simp: Let_def)
  next
    case False
    then have acq: "Acquire ?z (hold a s) = (True, hold (Some ?z) (hold a s))"
      by (intro Acquire_free) (auto simp: zone_at_hold)
    have rel: "CheckRelease ?z (hold (Some ?z) (hold a s)) = (OK, hold a s)"
      using False by (intro CheckRelease_hold) (auto simp: zone_at_hold)
    have z: "zone_at (hold (Some ?z) (hold a s)) ?z = (zone_at s ?z)\<lparr>z_busy := True\<rparr>"
      using False by (simp add: zone_at_hold)
    show ?thesis
    proof (cases a)
      case None
      then show ?thesis using False Cons.IH [of "Some ?z"] Cons.IH [of None] acq rel z
        by (simp add: Let_def elig_blind score_blind)
    next
      case (Some y)
      have "CheckRelease y (hold (Some ?z) (hold (Some y) s)) = (OK, hold (Some ?z) s)"
        using False Some Cons.prems by (intro CheckRelease_first) auto
      then show ?thesis using False Some Cons.IH [of "Some ?z"] Cons.IH [of "Some y"] Cons.prems acq rel z
        by (simp add: Let_def elig_blind score_blind)
    qed
  qed
qed

end

section \<open>What the scan chooses\<close>

text \<open>
  \<open>scan_cand Z elig z\<close>: the scan over zones considers \<open>z\<close>. With \<open>\<le>\<close> as comparison the scan returns a
  candidate of least score among those not above the start value, the last one of them in the
  list; with \<open>>\<close> a candidate of greatest score above the start value, the first one.
\<close>

definition scan_cand :: "(zid \<Rightarrow> zone) \<Rightarrow> (zone \<Rightarrow> bool) \<Rightarrow> zid \<Rightarrow> bool" where
  "scan_cand Z elig z \<longleftrightarrow> \<not> z_busy (Z z) \<and> elig (Z z)"

definition last_least :: "(zid \<Rightarrow> bool) \<Rightarrow> (zid \<Rightarrow> nat) \<Rightarrow> nat \<Rightarrow> zid list \<Rightarrow> zid \<Rightarrow> bool" where
  "last_least cand f b zs z \<longleftrightarrow> cand z \<and> f z \<le> b \<and>
     (\<exists>pre post. zs = pre @ z # post \<and> (\<forall>y \<in> set pre. cand y \<longrightarrow> f z \<le> f y) \<and>
        (\<forall>y \<in> set post. cand y \<longrightarrow> f z < f y))"

definition first_greatest :: "(zid \<Rightarrow> bool) \<Rightarrow> (zid \<Rightarrow> nat) \<Rightarrow> nat \<Rightarrow> zid list \<Rightarrow> zid \<Rightarrow> bool" where
  "first_greatest cand f b zs z \<longleftrightarrow> cand z \<and> b < f z \<and>
     (\<exists>pre post. zs = pre @ z # post \<and> (\<forall>y \<in> set pre. cand y \<longrightarrow> f y < f z) \<and>
        (\<forall>y \<in> set post. cand y \<longrightarrow> f y \<le> f z))"

lemma last_least_Cons:
  "last_least cand f b zs z \<Longrightarrow> (cand y \<Longrightarrow> f z \<le> f y) \<Longrightarrow> last_least cand f b (y # zs) z"
  unfolding last_least_def by (metis append_Cons set_ConsD)

lemma first_greatest_Cons:
  "first_greatest cand f b zs z \<Longrightarrow> (cand y \<Longrightarrow> f y < f z) \<Longrightarrow> first_greatest cand f b (y # zs) z"
  unfolding first_greatest_def by (metis append_Cons set_ConsD)

lemma pick_least:
  fixes Z score elig
  defines "cand \<equiv> scan_cand Z elig" and "f \<equiv> \<lambda>z. score z (Z z)"
  assumes "pick elig (\<lambda>z. z) score (\<le>) Z zs a b = (r, d)" "distinct zs" "\<And>z. a = Some z \<Longrightarrow> z \<notin> set zs"
  shows "r = a \<and> d = b \<and> (\<forall>z \<in> set zs. cand z \<longrightarrow> b < f z) \<or>
    (\<exists>z. r = Some z \<and> d = f z \<and> last_least cand f b zs z)"
  using assms(3-5)
proof (induction zs arbitrary: a b)
  case Nil
  then show ?case by simp
next
  case (Cons y zs)
  show ?case
  proof (cases "cand y \<and> f y \<le> b")
    case True
    then have "pick elig (\<lambda>z. z) score (\<le>) Z zs (Some y) (f y) = (r, d)"
      using Cons.prems by (auto simp: Let_def cand_def scan_cand_def f_def split: if_splits)
    from Cons.IH [OF this] Cons.prems(2)
    consider "r = Some y" "d = f y" "\<forall>z \<in> set zs. cand z \<longrightarrow> f y < f z"
      | z where "r = Some z" "d = f z" "last_least cand f (f y) zs z"
      by auto
    then show ?thesis
    proof cases
      case 1
      then have "last_least cand f b (y # zs) y"
        using True unfolding last_least_def by (intro conjI exI [of _ "[]"] exI [of _ zs]) auto
      then show ?thesis using 1 by blast
    next
      case 2
      then have "last_least cand f b (y # zs) z"
        using True by (intro last_least_Cons) (auto simp: last_least_def)
      then show ?thesis using 2 by blast
    qed
  next
    case False
    then have "pick elig (\<lambda>z. z) score (\<le>) Z zs a b = (r, d)"
      using Cons.prems by (auto simp: Let_def cand_def scan_cand_def f_def split: if_splits)
    from Cons.IH [OF this] Cons.prems(2,3)
    consider "r = a" "d = b" "\<forall>z \<in> set zs. cand z \<longrightarrow> b < f z"
      | z where "r = Some z" "d = f z" "last_least cand f b zs z"
      by auto
    then show ?thesis
    proof cases
      case 1
      with False show ?thesis by auto
    next
      case 2
      then have "last_least cand f b (y # zs) z"
        using False by (intro last_least_Cons) (auto simp: last_least_def)
      then show ?thesis using 2 by blast
    qed
  qed
qed

lemma pick_greatest:
  fixes Z score elig
  defines "cand \<equiv> scan_cand Z elig" and "f \<equiv> \<lambda>z. score z (Z z)"
  assumes "pick elig (\<lambda>z. z) score (>) Z zs a b = (r, d)" "distinct zs" "\<And>z. a = Some z \<Longrightarrow> z \<notin> set zs"
  shows "r = a \<and> d = b \<and> (\<forall>z \<in> set zs. cand z \<longrightarrow> f z \<le> b) \<or>
    (\<exists>z. r = Some z \<and> d = f z \<and> first_greatest cand f b zs z)"
  using assms(3-5)
proof (induction zs arbitrary: a b)
  case Nil
  then show ?case by simp
next
  case (Cons y zs)
  show ?case
  proof (cases "cand y \<and> b < f y")
    case True
    then have "pick elig (\<lambda>z. z) score (>) Z zs (Some y) (f y) = (r, d)"
      using Cons.prems by (auto simp: Let_def cand_def scan_cand_def f_def split: if_splits)
    from Cons.IH [OF this] Cons.prems(2)
    consider "r = Some y" "d = f y" "\<forall>z \<in> set zs. cand z \<longrightarrow> f z \<le> f y"
      | z where "r = Some z" "d = f z" "first_greatest cand f (f y) zs z"
      by auto
    then show ?thesis
    proof cases
      case 1
      then have "first_greatest cand f b (y # zs) y"
        using True unfolding first_greatest_def by (intro conjI exI [of _ "[]"] exI [of _ zs]) auto
      then show ?thesis using 1 by blast
    next
      case 2
      then have "first_greatest cand f b (y # zs) z"
        using True by (intro first_greatest_Cons) (auto simp: first_greatest_def)
      then show ?thesis using 2 by blast
    qed
  next
    case False
    then have "pick elig (\<lambda>z. z) score (>) Z zs a b = (r, d)"
      using Cons.prems by (auto simp: Let_def cand_def scan_cand_def f_def split: if_splits)
    from Cons.IH [OF this] Cons.prems(2,3)
    consider "r = a" "d = b" "\<forall>z \<in> set zs. cand z \<longrightarrow> f z \<le> b"
      | z where "r = Some z" "d = f z" "first_greatest cand f b zs z"
      by auto
    then show ?thesis
    proof cases
      case 1
      with False show ?thesis by auto
    next
      case 2
      then have "first_greatest cand f b (y # zs) z"
        using False by (intro first_greatest_Cons) (auto simp: first_greatest_def)
      then show ?thesis using 2 by blast
    qed
  qed
qed

section \<open>Keeping the best of all candidates\<close>

text \<open>
  The pure form of the two scans that start with the first candidate they meet
  (\<open>FinishCheapestIOZone\<close>, \<open>AllocateEmptyZoneLeastWear\<close>): \<open>repl y z\<close> tells whether \<open>z\<close> replaces \<open>y\<close>.
\<close>

fun keep_best :: "(zone \<Rightarrow> bool) \<Rightarrow> (zone \<Rightarrow> zone \<Rightarrow> bool) \<Rightarrow> (zid \<Rightarrow> zone) \<Rightarrow> zid list \<Rightarrow> zid option \<Rightarrow> zid option" where
  "keep_best elig repl Z [] a = a"
| "keep_best elig repl Z (z # zs) a =
    (if z_busy (Z z) \<or> a = Some z \<or> \<not> elig (Z z) then keep_best elig repl Z zs a
     else case a of None \<Rightarrow> keep_best elig repl Z zs (Some z)
       | Some y \<Rightarrow> keep_best elig repl Z zs (if repl (Z y) (Z z) then Some z else a))"

lemma keep_best_free:
  "held_free a s \<Longrightarrow> held_free (keep_best elig repl (zone_at s) zs a) s"
  by (induction zs arbitrary: a) (auto split: option.splits)

lemma keep_best_None:
  "keep_best elig repl Z zs a = None \<longleftrightarrow> a = None \<and> (\<forall>z \<in> set zs. \<not> scan_cand Z elig z)"
  by (induction zs arbitrary: a) (auto simp: scan_cand_def split: option.splits)

lemma keep_best_member:
  "keep_best elig repl Z zs a = Some z \<Longrightarrow> a = Some z \<or> z \<in> set zs \<and> scan_cand Z elig z"
  by (induction zs arbitrary: a) (fastforce simp: scan_cand_def split: option.splits if_splits)+

lemma keep_best_least:
  fixes f :: "zone \<Rightarrow> nat"
  assumes "keep_best elig repl Z zs a = Some z"
    and "\<And>y x. repl y x \<Longrightarrow> f x \<le> f y" "\<And>y x. \<not> repl y x \<Longrightarrow> f y \<le> f x"
  shows "(a = Some z \<or> z \<in> set zs \<and> scan_cand Z elig z) \<and>
    (\<forall>y \<in> set zs. scan_cand Z elig y \<longrightarrow> f (Z z) \<le> f (Z y)) \<and> (\<forall>y. a = Some y \<longrightarrow> f (Z z) \<le> f (Z y))"
  using assms(1)
proof (induction zs arbitrary: a)
  case (Cons x zs)
  show ?case
  proof (cases "z_busy (Z x) \<or> a = Some x \<or> \<not> elig (Z x)")
    case True
    then have "keep_best elig repl Z zs a = Some z" using Cons.prems by simp
    from Cons.IH [OF this] True show ?thesis by (auto simp: scan_cand_def)
  next
    case False
    define a' where "a' = (case a of None \<Rightarrow> Some x | Some y \<Rightarrow> if repl (Z y) (Z x) then Some x else a)"
    have "keep_best elig repl Z zs a' = Some z"
      using Cons.prems False by (auto simp: a'_def split: option.splits)
    note IH = Cons.IH [OF this]
    have x: "f (Z z) \<le> f (Z x)" and a: "f (Z z) \<le> f (Z y)" if "a = Some y" for y
      using IH that assms(2) [of "Z y" "Z x"] assms(3) [of "Z y" "Z x"]
      by (auto simp: a'_def split: if_splits)
    have "f (Z z) \<le> f (Z x)" using IH x by (cases a) (auto simp: a'_def)
    moreover have "a' = a \<or> a' = Some x" by (auto simp: a'_def split: option.splits)
    ultimately show ?thesis using IH a False by (auto simp: scan_cand_def)
  qed
qed simp

lemma finish_victim_hold:
  assumes "held_free v s"
  defines "elig \<equiv> \<lambda>x. \<not> (IsEmpty x \<or> IsFull x)" and "repl \<equiv> \<lambda>y x. z_capacity y > z_capacity x"
  shows "finish_victim_loop zs v (hold v s) =
    ((OK, keep_best elig repl (zone_at s) zs v), hold (keep_best elig repl (zone_at s) zs v) s)"
  using assms(1)
proof (induction zs arbitrary: v)
  case Nil
  then show ?case by simp
next
  case (Cons z zs)
  show ?case
  proof (cases "z_busy (zone_at s z) \<or> v = Some z")
    case True
    then have "Acquire z (hold v s) = (False, hold v s)"
      by (intro Acquire_busy) (auto simp: zone_at_hold)
    then show ?thesis using True Cons by auto
  next
    case False
    then have acq: "Acquire z (hold v s) = (True, hold (Some z) (hold v s))"
      by (intro Acquire_free) (auto simp: zone_at_hold)
    have rel: "CheckRelease z (hold (Some z) (hold v s)) = (OK, hold v s)"
      using False by (intro CheckRelease_hold) (auto simp: zone_at_hold)
    have z: "zone_at (hold (Some z) (hold v s)) z = (zone_at s z)\<lparr>z_busy := True\<rparr>"
      using False by (simp add: zone_at_hold)
    show ?thesis
    proof (cases v)
      case None
      then show ?thesis using False Cons.IH [of "Some z"] Cons.IH [of None] acq rel z
        by (simp add: Let_def elig_def)
    next
      case (Some y)
      have "CheckRelease y (hold (Some z) (hold (Some y) s)) = (OK, hold (Some z) s)"
        using False Some Cons.prems by (intro CheckRelease_first) auto
      moreover have "zone_at (hold (Some z) (hold (Some y) s)) y = (zone_at s y)\<lparr>z_busy := True\<rparr>"
        using False Some by (simp add: zone_at_hold)
      ultimately show ?thesis
        using False Some Cons.IH [of "Some z"] Cons.IH [of "Some y"] Cons.prems acq rel z
        by (simp add: Let_def elig_def repl_def)
    qed
  qed
qed

end
