(* ===== verification/EmptyZone.thy ===== *)
theory EmptyZone
  imports Scan
begin

text \<open>
  The allocators of empty zones (\<open>AllocateEmptyZone...\<close> in \<open>zbd_extension_zenfs.cc\<close>, dispatched by
  \<open>AllocateEmptyZone\<close> in \<open>zbd_zenfs.cc\<close>). An index outside a vector is undefined behaviour; the
  allocator then has no result (\<open>None\<close>).
\<close>

section \<open>The allocators\<close>

text \<open>
  The loop that takes the first zone it can acquire and that is empty. The entries of the list may
  carry more than the zone (the position, for the hotness-based allocator).
\<close>

fun first_empty :: "('c \<Rightarrow> zid) \<Rightarrow> 'c list \<Rightarrow> ('b, 'm) zbd_scheme \<Rightarrow> (status \<times> 'c option) \<times> ('b, 'm) zbd_scheme" where
  "first_empty zof [] s = ((OK, None), s)"
| "first_empty zof (c # cs) s = (let z = zof c; (got, s) = Acquire z s in
     if \<not> got then first_empty zof cs s
     else if IsEmpty (zone_at s z) then ((OK, Some c), s)
     else let (st, s) = CheckRelease z s in
       if st \<noteq> OK then ((st, None), s) else first_empty zof cs s)"

definition AllocateEmptyZoneDefault :: "('b, 'm) zbd_scheme \<Rightarrow> (status \<times> zid option) \<times> ('b, 'm) zbd_scheme" where
  "AllocateEmptyZoneDefault s = first_empty (\<lambda>z. z) (io_zones s) s"

definition AllocateEmptyZoneRandom :: "'b env \<Rightarrow> ('b, 'm) zbd_scheme \<Rightarrow> (status \<times> zid option) \<times> ('b, 'm) zbd_scheme" where
  "AllocateEmptyZoneRandom E s = (let shuffled = std_shuffle E (shuffle_calls s) (io_zones s)
     in first_empty (\<lambda>z. z) shuffled (s\<lparr>shuffle_calls := shuffle_calls s + 1\<rparr>))"

text \<open>The position of the round-robin allocator is a static variable; it keeps moving with the loop.\<close>

fun sequential_loop :: "nat \<Rightarrow> ('b, 'm) zbd_scheme \<Rightarrow> (status \<times> zid option) \<times> ('b, 'm) zbd_scheme" where
  "sequential_loop 0 s = ((OK, None), s)"
| "sequential_loop (Suc n) s = (let z = io_zones s ! seq_zone_pos s;
     pos = seq_zone_pos s + 1;
     s = s\<lparr>seq_zone_pos := (if length (io_zones s) \<le> pos then 0 else pos)\<rparr>;
     (got, s) = Acquire z s in
     if \<not> got then sequential_loop n s
     else if IsEmpty (zone_at s z) then ((OK, Some z), s)
     else let (st, s) = CheckRelease z s in
       if st \<noteq> OK then ((st, None), s) else sequential_loop n s)"

definition AllocateEmptyZoneSequential :: "('b, 'm) zbd_scheme \<Rightarrow>
    ((status \<times> zid option) \<times> ('b, 'm) zbd_scheme) option" where
  "AllocateEmptyZoneSequential s =
     (if io_zones s \<noteq> [] \<and> length (io_zones s) \<le> seq_zone_pos s then None
      else Some (sequential_loop (length (io_zones s)) s))"

fun least_wear_loop :: "zid list \<Rightarrow> zid option \<Rightarrow> ('b, 'm) zbd_scheme \<Rightarrow>
    (status \<times> zid option) \<times> ('b, 'm) zbd_scheme" where
  "least_wear_loop [] allocated s = ((OK, allocated), s)"
| "least_wear_loop (z # zs) allocated s = (let (got, s) = Acquire z s in
     if \<not> got then least_wear_loop zs allocated s
     else if \<not> IsEmpty (zone_at s z) then
       let (st, s) = CheckRelease z s in
       if st \<noteq> OK then ((st, None), s) else least_wear_loop zs allocated s
     else case allocated of
       None \<Rightarrow> least_wear_loop zs (Some z) s
     | Some a \<Rightarrow>
         if z_reset_count (zone_at s a) < z_reset_count (zone_at s z) then
           let (st, s) = CheckRelease z s in
           if st \<noteq> OK then ((st, None), s) else least_wear_loop zs allocated s
         else
           let (st, s) = CheckRelease a s in
           if st \<noteq> OK then ((st, None), s) else least_wear_loop zs (Some z) s)"

definition AllocateEmptyZoneLeastWear :: "('b, 'm) zbd_scheme \<Rightarrow> (status \<times> zid option) \<times> ('b, 'm) zbd_scheme" where
  "AllocateEmptyZoneLeastWear s = least_wear_loop (io_zones s) None s"

text \<open>
  The interval of the sorted zones that belongs to a level: \<open>lower_index\<close> truncates the product,
  \<open>upper_index\<close> rounds it up.
\<close>

definition hotness_interval :: "nat \<Rightarrow> nat \<Rightarrow> int \<Rightarrow> int \<times> int" where
  "hotness_interval n maxl level =
    (let interval = d_div (d_mul 1 (d_of_nat n)) (d_of_nat maxl);
         lower_index = \<lfloor>d_mul interval (d_of_nat (nat (level - 1)))\<rfloor>;
         upper_index = \<lceil>d_mul interval (d_of_nat (nat level))\<rceil>
     in (max lower_index 0, min upper_index (int n)))"

definition AllocateEmptyZoneHotnessBased :: "'b env \<Rightarrow> int \<Rightarrow> ('b, 'm) zbd_scheme \<Rightarrow>
    ((status \<times> zid option) \<times> ('b, 'm) zbd_scheme) option" where
  "AllocateEmptyZoneHotnessBased E level s =
    (if level \<le> 0 then Some (AllocateEmptyZoneLeastWear s)
     else if max_level (zenfs_parameters s) = 0 then None else
     let zs = std_sort E (\<lambda>a b. z_reset_count (zone_at s a) < z_reset_count (zone_at s b)) (io_zones s);
         n = length zs;
         (lower_index, upper_index) = hotness_interval n (max_level (zenfs_parameters s)) level;
         entry = (\<lambda>i. (int i, zs ! i));
         ((st, found), s) = first_empty snd (map entry [nat lower_index..<nat upper_index]) s in
     if st \<noteq> OK then Some ((st, None), s)
     else if found \<noteq> None then Some ((OK, map_option snd found), s) else
     let ((st, upper_alloc), s) = first_empty snd (map entry [nat upper_index..<n]) s in
     if st \<noteq> OK then Some ((st, None), s) else
     if int n < lower_index then None else
     let ((st, lower_alloc), s) = first_empty snd (map entry (rev [0..<nat lower_index])) s in
     if st \<noteq> OK then Some ((st, None), s) else
     case (lower_alloc, upper_alloc) of
       (None, None) \<Rightarrow> Some (AllocateEmptyZoneDefault s)
     | (None, Some (_, u)) \<Rightarrow> Some ((OK, Some u), s)
     | (Some (_, l), None) \<Rightarrow> Some ((OK, Some l), s)
     | (Some (li, l), Some (ui, u)) \<Rightarrow>
         if lower_index - li < ui - upper_index
         then Some ((OK, Some l), snd (CheckRelease u s))
         else Some ((OK, Some u), snd (CheckRelease l s)))"

definition AllocateEmptyZone :: "'b env \<Rightarrow> int \<Rightarrow> ('b, 'm) zbd_scheme \<Rightarrow>
    ((status \<times> zid option) \<times> ('b, 'm) zbd_scheme) option" where
  "AllocateEmptyZone E level s =
    (let p = zenfs_parameters s;
         s = (if 0 < level \<and> int (max_level p) < level
              then s\<lparr>zenfs_parameters := p\<lparr>max_level := nat level mod 256\<rparr>\<rparr> else s)
     in case empty_zone_allocator p of
       KDefault \<Rightarrow> Some (AllocateEmptyZoneDefault s)
     | KSequential \<Rightarrow> AllocateEmptyZoneSequential s
     | KRandom \<Rightarrow> Some (AllocateEmptyZoneRandom E s)
     | KLeastWear \<Rightarrow> Some (AllocateEmptyZoneLeastWear s)
     | KHotnessBased \<Rightarrow> AllocateEmptyZoneHotnessBased E level s
     | KUserDefinedAlloc \<Rightarrow> AllocateEmptyZoneSequential s)"

section \<open>The loops\<close>

abbreviation empty_cand :: "('b, 'm) zbd_scheme \<Rightarrow> zid \<Rightarrow> bool" where
  "empty_cand s z \<equiv> scan_cand (zone_at s) IsEmpty z"

lemma first_empty_hold:
  "first_empty zof cs s = ((OK, find (\<lambda>c. empty_cand s (zof c)) cs),
     hold (map_option zof (find (\<lambda>c. empty_cand s (zof c)) cs)) s)"
proof (induction cs)
  case (Cons c cs)
  then show ?case
    by (cases "free_in s (zof c)") (simp_all add: scan_cand_def scan_simps Let_def)
qed simp

lemma least_wear_hold:
  assumes "held_free a s"
  defines "repl \<equiv> \<lambda>y x. \<not> z_reset_count y < z_reset_count x"
  shows "least_wear_loop zs a (hold a s) =
    ((OK, keep_best IsEmpty repl (zone_at s) zs a), hold (keep_best IsEmpty repl (zone_at s) zs a) s)"
  using assms(1)
proof (induction zs arbitrary: a)
  case Nil
  then show ?case by simp
next
  case (Cons z zs)
  show ?case
  proof (cases "z_busy (zone_at s z) \<or> a = Some z")
    case True
    then have "Acquire z (hold a s) = (False, hold a s)"
      by (intro Acquire_busy) (auto simp: zone_at_hold)
    then show ?thesis using True Cons by auto
  next
    case False
    then have acq: "Acquire z (hold a s) = (True, hold (Some z) (hold a s))"
      by (intro Acquire_free) (auto simp: zone_at_hold)
    have rel: "CheckRelease z (hold (Some z) (hold a s)) = (OK, hold a s)"
      using False by (intro CheckRelease_hold) (auto simp: zone_at_hold)
    have z: "zone_at (hold (Some z) (hold a s)) z = (zone_at s z)\<lparr>z_busy := True\<rparr>"
      using False by (simp add: zone_at_hold)
    show ?thesis
    proof (cases a)
      case None
      then show ?thesis using False Cons.IH [of "Some z"] Cons.IH [of None] acq rel z
        by (simp add: Let_def)
    next
      case (Some y)
      have "CheckRelease y (hold (Some z) (hold (Some y) s)) = (OK, hold (Some z) s)"
        using False Some Cons.prems by (intro CheckRelease_first) auto
      moreover have "zone_at (hold (Some z) (hold (Some y) s)) y = (zone_at s y)\<lparr>z_busy := True\<rparr>"
        using False Some by (simp add: zone_at_hold)
      ultimately show ?thesis
        using False Some Cons.IH [of "Some z"] Cons.IH [of "Some y"] Cons.prems acq rel z
        by (simp add: Let_def repl_def)
    qed
  qed
qed

lemma hold_seq_pos: "hold a (s\<lparr>seq_zone_pos := p\<rparr>) = (hold a s)\<lparr>seq_zone_pos := p\<rparr>"
  by (cases a) (simp_all add: hold_def)

lemma sequential_loop_hold:
  assumes "seq_zone_pos s < length (io_zones s)"
  defines "visit \<equiv> \<lambda>p n. map (\<lambda>i. io_zones s ! ((p + i) mod length (io_zones s))) [0..<n]"
  shows "\<exists>p < length (io_zones s). sequential_loop n s =
    ((OK, find (empty_cand s) (visit (seq_zone_pos s) n)),
     hold (find (empty_cand s) (visit (seq_zone_pos s) n)) (s\<lparr>seq_zone_pos := p\<rparr>))"
proof -
  let ?L = "length (io_zones s)"
  have "\<exists>p < ?L. sequential_loop n (s\<lparr>seq_zone_pos := q\<rparr>) =
      ((OK, find (empty_cand s) (visit q n)), hold (find (empty_cand s) (visit q n)) (s\<lparr>seq_zone_pos := p\<rparr>))"
    if "q < ?L" for q
    using that
  proof (induction n arbitrary: q)
    case 0
    then show ?case by (auto simp: visit_def)
  next
    case (Suc n)
    let ?z = "io_zones s ! q" and ?q = "if ?L \<le> q + 1 then 0 else q + 1"
    let ?s = "s\<lparr>seq_zone_pos := ?q\<rparr>"
    have q: "?q = (q + 1) mod ?L" "?q < ?L" using Suc.prems by (auto simp: le_Suc_eq)
    have "visit q (Suc n) = ?z # visit ?q n"
      unfolding visit_def q(1) using Suc.prems
      by (simp add: upt_conv_Cons map_Suc_upt [symmetric] mod_simps del: upt_Suc)
    moreover have "Acquire ?z ?s = (if free_in s ?z then (True, hold (Some ?z) ?s) else (False, ?s))"
      by (simp add: Acquire_free Acquire_busy)
    moreover have "free_in s ?z \<Longrightarrow> CheckRelease ?z (hold (Some ?z) ?s) = (OK, ?s)"
      by (simp add: CheckRelease_hold)
    ultimately show ?case
      using Suc.IH [OF q(2)] Suc.prems q(2) by (auto simp: Let_def scan_cand_def zone_at_hold)
  qed
  from this [OF assms(1)] show ?thesis by simp
qed

lemma mod_range:
  assumes "p < (L::nat)"
  shows "(\<lambda>i. (p + i) mod L) ` {0..<L} = {0..<L}"
proof (intro equalityI subsetI)
  fix j assume j: "j \<in> {0..<L}"
  have "(p + (j + L - p) mod L) mod L = (p + (j + L - p)) mod L" by (rule mod_add_right_eq)
  also have "\<dots> = j" using assms j by simp
  finally show "j \<in> (\<lambda>i. (p + i) mod L) ` {0..<L}"
    using assms by (intro image_eqI [of _ _ "(j + L - p) mod L"]) auto
qed (use assms in auto)

section \<open>The library algorithms\<close>

text \<open>
  What the standard promises: \<open>std::shuffle\<close> and \<open>std::sort\<close> permute their argument, and for a strict
  weak order the result of \<open>std::sort\<close> is ordered.
\<close>

definition strict_weak :: "('a \<Rightarrow> 'a \<Rightarrow> bool) \<Rightarrow> bool" where
  "strict_weak lt \<longleftrightarrow> (\<forall>x y. lt x y \<longrightarrow> \<not> lt y x) \<and> (\<forall>x y z. \<not> lt x y \<longrightarrow> \<not> lt y z \<longrightarrow> \<not> lt x z)"

locale std_algorithms =
  fixes E :: "'b env"
  assumes shuffle_perm: "mset (std_shuffle E n xs) = mset xs"
    and sort_perm: "mset (std_sort E lt xs) = mset xs"
    and sort_sorted: "strict_weak lt \<Longrightarrow> sorted_wrt (\<lambda>a b. \<not> lt b a) (std_sort E lt xs)"
begin

lemma set_shuffle [simp]: "set (std_shuffle E n xs) = set xs"
  using shuffle_perm [of n xs] by (rule mset_eq_setD)

lemma set_sort [simp]: "set (std_sort E lt xs) = set xs"
  using sort_perm [of lt xs] by (rule mset_eq_setD)

lemma length_sort [simp]: "length (std_sort E lt xs) = length xs"
  using sort_perm [of lt xs] by (rule mset_eq_length)

lemma distinct_sort [simp]: "distinct (std_sort E lt xs) = distinct xs"
  using sort_perm [of lt xs] by (rule mset_eq_imp_distinct_iff)

lemma sort_key_sorted: "sorted (map f (std_sort E (\<lambda>a b. f a < f b) xs))" for f :: "nat \<Rightarrow> nat"
proof -
  have "strict_weak (\<lambda>a b. f a < f b)" by (auto simp: strict_weak_def)
  from sort_sorted [OF this] show ?thesis by (simp add: sorted_map not_less)
qed

end

lemma mem_sort_mset: "mset (mem_sort lt xs) = mset xs"
proof (induction xs)
  case (Cons x xs)
  have "mset (takeWhile P ys @ x # dropWhile P ys) = add_mset x (mset ys)" for P ys
    by (metis mset.simps(2) mset_append takeWhile_dropWhile_id union_mset_add_mset_right)
  with Cons show ?case by (simp add: mem_sort_def)
qed (simp add: mem_sort_def)

lemma strict_weakD: 
  assumes "strict_weak lt" shows "lt a b \<Longrightarrow> \<not> lt b a" "\<not> lt a b \<Longrightarrow> \<not> lt b c \<Longrightarrow> \<not> lt a c"
  using assms unfolding strict_weak_def by iprover+

lemma mem_sort_sorted:
  assumes "strict_weak lt"
  shows "sorted_wrt (\<lambda>a b. \<not> lt b a) (mem_sort lt xs)"
proof (induction xs)
  case (Cons x xs)
  let ?ys = "mem_sort lt xs"
  define t d where "t = takeWhile (\<lambda>y. lt y x) ?ys" and "d = dropWhile (\<lambda>y. lt y x) ?ys"
  have "t @ d = ?ys" by (simp add: t_def d_def)
  then have s: "sorted_wrt (\<lambda>a b. \<not> lt b a) (t @ d)" using Cons by simp
  have d: "\<not> lt w x" if w: "w \<in> set d" for w
  proof -
    obtain v vs where v: "d = v # vs" using w by (cases d) auto
    then have "\<not> lt v x" using hd_dropWhile [of "\<lambda>y. lt y x" ?ys] unfolding d_def [symmetric] by simp
    moreover have "\<forall>u \<in> set vs. \<not> lt u v" using s by (simp add: v sorted_wrt_append)
    then have "w = v \<or> \<not> lt w v" using w by (auto simp: v)
    ultimately show ?thesis using strict_weakD(2) [OF assms] by iprover
  qed
  have "\<not> lt x y" if "y \<in> set t" for y
    using set_takeWhileD [of y "\<lambda>y. lt y x" ?ys] that strict_weakD(1) [OF assms] by (simp add: t_def)
  with d s have "sorted_wrt (\<lambda>a b. \<not> lt b a) (t @ x # d)"
    by (simp add: sorted_wrt_append)
  then show ?case by (simp add: mem_sort_def t_def d_def)
qed (simp add: mem_sort_def)
interpretation mem_std: std_algorithms mem_env
  by unfold_locales (simp_all add: mem_env_def zbdlib_env_def mem_sort_mset mem_sort_sorted)

section \<open>Every allocator returns an empty zone if there is one\<close>

text \<open>The outcome of an allocator: the state differs in the zone taken and its own bookkeeping only.\<close>

definition empty_zone_result :: "('b, 'm) zbd_scheme \<Rightarrow> (status \<times> zid option) \<times> ('b, 'm) zbd_scheme \<Rightarrow> bool" where
  "empty_zone_result s res \<longleftrightarrow> (case res of ((st, r), s') \<Rightarrow> st = OK \<and>
     (\<exists>p q k. s' = hold r (s\<lparr>zenfs_parameters := p, seq_zone_pos := q, shuffle_calls := k\<rparr>)) \<and>
     (case r of None \<Rightarrow> \<forall>z \<in> set (io_zones s). \<not> empty_cand s z
      | Some z \<Rightarrow> z \<in> set (io_zones s) \<and> empty_cand s z))"

lemma empty_zone_resultI:
  assumes "case r of None \<Rightarrow> \<forall>z \<in> set (io_zones s). \<not> empty_cand s z
      | Some z \<Rightarrow> z \<in> set (io_zones s) \<and> empty_cand s z"
    and "s' = hold r (s\<lparr>zenfs_parameters := p, seq_zone_pos := q, shuffle_calls := k\<rparr>)"
  shows "empty_zone_result s ((OK, r), s')"
  using assms unfolding empty_zone_result_def by blast

lemma find_choice:
  assumes "set zs = set (io_zones s)"
  shows "case find (empty_cand s) zs of None \<Rightarrow> \<forall>z \<in> set (io_zones s). \<not> empty_cand s z
      | Some z \<Rightarrow> z \<in> set (io_zones s) \<and> empty_cand s z"
proof (cases "find (empty_cand s) zs")
  case None
  then have "\<forall>z \<in> set zs. \<not> empty_cand s z" by (simp add: find_None_iff)
  then show ?thesis using None assms by simp
next
  case (Some z)
  then show ?thesis using assms find_SomeD [OF Some] by simp
qed

lemma empty_zone_resultI0:
  assumes "case r of None \<Rightarrow> \<forall>z \<in> set (io_zones s). \<not> empty_cand s z
      | Some z \<Rightarrow> z \<in> set (io_zones s) \<and> empty_cand s z"
  shows "empty_zone_result s ((OK, r), hold r s)"
  by (rule empty_zone_resultI [OF assms, where p = "zenfs_parameters s" and q = "seq_zone_pos s" and k = "shuffle_calls s"]) simp

lemma default_result: "empty_zone_result s (AllocateEmptyZoneDefault s)"
  unfolding AllocateEmptyZoneDefault_def first_empty_hold option.map_ident
  by (rule empty_zone_resultI0 [OF find_choice]) simp

lemma sequential_result:
  assumes "AllocateEmptyZoneSequential s = Some res"
  shows "empty_zone_result s res"
proof (cases "io_zones s = []")
  case True
  then have "res = ((OK, None), s)" using assms by (simp add: AllocateEmptyZoneSequential_def)
  then show ?thesis using True empty_zone_resultI0 [where r = None and s = s] by simp
next
  case False
  let ?L = "length (io_zones s)"
  let ?zs = "map (\<lambda>i. io_zones s ! ((seq_zone_pos s + i) mod ?L)) [0..<?L]"
  have lt: "seq_zone_pos s < ?L"
    using assms False by (simp add: AllocateEmptyZoneSequential_def split: if_splits)
  from sequential_loop_hold [OF this, of ?L] obtain p where
    res: "res = ((OK, find (empty_cand s) ?zs), hold (find (empty_cand s) ?zs) (s\<lparr>seq_zone_pos := p\<rparr>))"
    using assms lt by (auto simp: AllocateEmptyZoneSequential_def)
  have "set ?zs = (\<lambda>i. io_zones s ! i) ` ((\<lambda>i. (seq_zone_pos s + i) mod ?L) ` {0..<?L})"
    by (simp add: image_image)
  also have "\<dots> = set (io_zones s)"
    unfolding mod_range [OF lt] by (auto simp: set_conv_nth)
  finally show ?thesis
    unfolding res by (intro empty_zone_resultI [OF find_choice,
      where p = "zenfs_parameters s" and q = p and k = "shuffle_calls s"]) simp_all
qed

lemma least_wear_eq:
  defines "repl \<equiv> \<lambda>y x. \<not> z_reset_count y < z_reset_count x"
  shows "AllocateEmptyZoneLeastWear s = ((OK, keep_best IsEmpty repl (zone_at s) (io_zones s) None),
     hold (keep_best IsEmpty repl (zone_at s) (io_zones s) None) s)"
  using least_wear_hold [of None s "io_zones s"] by (simp add: AllocateEmptyZoneLeastWear_def repl_def)

lemma least_wear_result: "empty_zone_result s (AllocateEmptyZoneLeastWear s)"
proof -
  let ?r = "keep_best IsEmpty (\<lambda>y x. \<not> z_reset_count y < z_reset_count x) (zone_at s) (io_zones s) None"
  have "case ?r of None \<Rightarrow> \<forall>z \<in> set (io_zones s). \<not> empty_cand s z
        | Some z \<Rightarrow> z \<in> set (io_zones s) \<and> empty_cand s z"
    by (auto split: option.splits simp: keep_best_None dest: keep_best_member)
  then show ?thesis unfolding least_wear_eq by (rule empty_zone_resultI0)
qed

context std_algorithms
begin

lemma random_result: "empty_zone_result s (AllocateEmptyZoneRandom E s)"
proof -
  let ?s = "s\<lparr>shuffle_calls := shuffle_calls s + 1\<rparr>"
  let ?zs = "std_shuffle E (shuffle_calls s) (io_zones s)"
  have "AllocateEmptyZoneRandom E s = ((OK, find (empty_cand s) ?zs), hold (find (empty_cand s) ?zs) ?s)"
    by (simp add: AllocateEmptyZoneRandom_def first_empty_hold option.map_ident Let_def)
  then show ?thesis
    by (simp only:) (intro empty_zone_resultI [OF find_choice,
      where p = "zenfs_parameters s" and q = "seq_zone_pos s" and k = "shuffle_calls s + 1"]; simp)
qed

lemma hotness_result:
  assumes "AllocateEmptyZoneHotnessBased E level s = Some res"
  shows "empty_zone_result s res"
proof (cases "level \<le> 0")
  case True
  then show ?thesis using assms least_wear_result [of s] by (simp add: AllocateEmptyZoneHotnessBased_def)
next
  case pos: False
  define zs where "zs = std_sort E (\<lambda>a b. z_reset_count (zone_at s a) < z_reset_count (zone_at s b)) (io_zones s)"
  define entry where "entry = (\<lambda>i. (int i, zs ! i))"
  obtain lo up where lu: "hotness_interval (length zs) (max_level (zenfs_parameters s)) level = (lo, up)"
    by force
  have up: "up \<le> int (length zs)" using lu by (auto simp: hotness_interval_def Let_def)
  have mem: "snd c \<in> set (io_zones s)" if "c \<in> entry ` {..<length zs}" for c
  proof -
    have "snd c \<in> set zs" using that by (auto simp: entry_def)
    then show ?thesis by (simp add: zs_def)
  qed
  define f1 where "f1 = find (\<lambda>c. empty_cand s (snd c)) (map entry [nat lo..<nat up])"
  define f2 where "f2 = find (\<lambda>c. empty_cand s (snd c)) (map entry [nat up..<length zs])"
  define s2 where "s2 = hold (map_option snd f2) s"
  define f3 where "f3 = find (\<lambda>c. empty_cand s2 (snd c)) (map entry (rev [0..<nat lo]))"
  have run: "AllocateEmptyZoneHotnessBased E level s =
    (if max_level (zenfs_parameters s) = 0 then None else
     if f1 \<noteq> None then Some ((OK, map_option snd f1), hold (map_option snd f1) s)
     else if int (length zs) < lo then None
     else case (f3, f2) of
       (None, None) \<Rightarrow> Some (AllocateEmptyZoneDefault s2)
     | (None, Some (_, u)) \<Rightarrow> Some ((OK, Some u), s2)
     | (Some (_, l), None) \<Rightarrow> Some ((OK, Some l), hold (Some l) s2)
     | (Some (li, l), Some (ui, u)) \<Rightarrow>
         if lo - li < ui - up then Some ((OK, Some l), snd (CheckRelease u (hold (Some l) s2)))
         else Some ((OK, Some u), snd (CheckRelease l (hold (Some l) s2))))"
    using pos by (cases f1; simp add: AllocateEmptyZoneHotnessBased_def Let_def zs_def [symmetric] lu
        entry_def [symmetric] first_empty_hold f1_def [symmetric] f2_def [symmetric] s2_def [symmetric]
        f3_def [symmetric] split: option.split)
  have f1: "snd c \<in> set (io_zones s) \<and> empty_cand s (snd c)" if "f1 = Some c" for c
    using find_SomeD [OF that [unfolded f1_def]] up mem [of c] by auto
  have f2: "snd c \<in> set (io_zones s) \<and> empty_cand s (snd c)" if "f2 = Some c" for c
    using find_SomeD [OF that [unfolded f2_def]] mem [of c] by auto
  have f3: "snd c \<in> set (io_zones s) \<and> empty_cand s (snd c) \<and> (\<forall>d. f2 = Some d \<longrightarrow> snd c \<noteq> snd d)"
    if "f3 = Some c" "lo \<le> int (length zs)" for c
    using find_SomeD [OF that(1) [unfolded f3_def]] that(2) mem [of c]
    by (auto simp: scan_cand_def s2_def zone_at_hold split: if_splits)
  have takes: "empty_zone_result s ((OK, Some z), hold (Some z) s)"
    if "z \<in> set (io_zones s) \<and> empty_cand s z" for z
    using that by (intro empty_zone_resultI0) simp
  show ?thesis
    using assms default_result [of s] takes f1 f2 f3 unfolding run
    by (auto simp: s2_def scan_cand_def CheckRelease_first CheckRelease_hold zone_at_hold
        split: if_splits option.splits prod.splits)
qed

lemma empty_zone_allocated:
  assumes "AllocateEmptyZone E level s = Some res"
  shows "empty_zone_result s res"
proof -
  let ?s = "if 0 < level \<and> int (max_level (zenfs_parameters s)) < level
    then s\<lparr>zenfs_parameters := (zenfs_parameters s)\<lparr>max_level := nat level mod 256\<rparr>\<rparr> else s"
  have "empty_zone_result ?s res"
    using assms default_result [of ?s] sequential_result [of ?s] random_result [of ?s]
      least_wear_result [of ?s] hotness_result [of level ?s]
    unfolding AllocateEmptyZone_def Let_def
    by (cases "empty_zone_allocator (zenfs_parameters s)") (simp_all only: empty_zone_alloc_type.case option.inject)
  moreover have "empty_zone_result (s\<lparr>zenfs_parameters := p\<rparr>) res = empty_zone_result s res" for p
    by (simp add: empty_zone_result_def split: prod.split option.split)
  ultimately show ?thesis by (simp split: if_splits)
qed

end

section \<open>The hotness intervals lie inside the zone list\<close>

lemma ilog2_ge:
  assumes "0 < x" "2 powi k \<le> x"
  shows "k \<le> ilog2 x"
proof (rule ccontr)
  assume "\<not> ?thesis"
  then have "(2::rat) powi (ilog2 x + 1) \<le> 2 powi k" by (intro power_int_increasing) simp_all
  then show False using ilog2_bounds [OF assms(1)] assms(2) by linarith
qed

lemma hotness_lower_le:
  assumes "n < 2 ^ 53" "0 < maxl" "maxl < 256" "0 < level" "level \<le> int maxl"
  shows "fst (hotness_interval n maxl level) \<le> int n"
proof (cases "n = 0")
  case True
  then show ?thesis by (simp add: hotness_interval_def Let_def d_div_def d_mul_def d_of_nat_def rnd64_def)
next
  case False
  define k where "k = nat (level - 1)"
  have k: "k < maxl" using assms by (simp add: k_def)
  define x where "x = (of_nat n / of_nat maxl :: rat)"
  have x: "0 < x" using False assms by (simp add: x_def)
  define w where "w = (1 / of_nat maxl :: rat)"
  have "(of_nat maxl :: rat) \<le> of_nat 256" using assms(3) by (simp only: of_nat_le_iff)
  then have "1 / 256 \<le> w" unfolding w_def using assms(2) by (intro frac_le) simp_all
  then have w: "1 / 256 \<le> w" "0 < w" by simp_all
  have "w * 1 \<le> w * of_nat n" using w False by (intro mult_left_mono) simp_all
  moreover have xw: "x = w * of_nat n" by (simp add: x_def w_def)
  moreover have "2 powi (- 8) = (1 / 256 :: rat)" by (simp add: power_int_minus)
  ultimately have "2 powi (- 8) \<le> x" using w(1) by linarith
  then have "- 8 \<le> ilog2 x" using x by (intro ilog2_ge)
  then have up: "rnd64 x \<le> x * (1 + 1 / 2 ^ 53)" using x by (intro rnd64_upper) simp_all
  have "rnd64 0 \<le> rnd64 x" using x by (intro rnd64_mono) simp_all
  then have nn: "0 \<le> rnd64 x" by (simp add: rnd64_def)
  have "of_nat k \<le> (of_nat (maxl - 1) :: rat)" using k by (simp only: of_nat_le_iff)
  then have "of_nat k \<le> (of_nat maxl - 1 :: rat)" using assms(2) by (simp add: of_nat_diff)
  then have "rnd64 x * of_nat k \<le> (x * (1 + 1 / 2 ^ 53)) * (of_nat maxl - 1)"
    using up nn x by (intro mult_mono) simp_all
  also have "\<dots> = of_nat n * ((1 + 1 / 2 ^ 53) * (1 - w))"
  proof -
    have "w * (of_nat maxl - 1) = 1 - w" using assms(2) by (simp add: w_def right_diff_distrib)
    moreover have "x * (1 + 1 / 2 ^ 53) * (of_nat maxl - 1) = of_nat n * ((1 + 1 / 2 ^ 53) * (w * (of_nat maxl - 1)))"
      by (simp only: xw ac_simps)
    ultimately show ?thesis by (simp only:)
  qed
  also have "\<dots> \<le> of_nat n * 1"
  proof (rule mult_left_mono)
    have "(1 + u) * (1 - w) \<le> 1" if "0 \<le> u" "u \<le> w" for u :: rat
    proof -
      have "(1 + u) * (1 - w) = 1 + u - w - u * w" by (simp add: algebra_simps)
      moreover have "0 \<le> u * w" using that w by simp
      ultimately show ?thesis using that by linarith
    qed
    moreover have "1 / 2 ^ 53 \<le> (1 / 256 :: rat)" "0 \<le> (1 / 2 ^ 53 :: rat)" by simp_all
    then have "1 / 2 ^ 53 \<le> w" "0 \<le> (1 / 2 ^ 53 :: rat)" using w(1) by linarith+
    ultimately show "(1 + 1 / 2 ^ 53) * (1 - w) \<le> 1" by iprover
  qed simp
  finally have "rnd64 x * of_nat k \<le> of_nat n" by simp
  then have "rnd64 (rnd64 x * of_nat k) \<le> rnd64 (of_nat n)"
    using nn by (intro rnd64_mono) simp_all
  then have "rnd64 (rnd64 x * of_nat k) \<le> of_nat n" using assms(1) by simp
  then have "\<lfloor>rnd64 (rnd64 x * of_nat k)\<rfloor> \<le> int n" by (simp add: floor_le_iff)
  moreover have "fst (hotness_interval n maxl level) = max \<lfloor>rnd64 (rnd64 x * of_nat k)\<rfloor> 0"
    using assms k by (simp add: hotness_interval_def Let_def d_div_def d_mul_def x_def flip: k_def)
  ultimately show ?thesis by simp
qed

text \<open>
  C4. Whatever allocator is configured, if \<open>AllocateEmptyZone\<close> returns it reports success; it
  returns a zone exactly when some I/O zone is empty and not in use, that zone was such a zone,
  and the only busy flag that has changed is the one of the zone returned.
\<close>

theorem allocate_empty_zone_correct:
  assumes "std_algorithms E" and "AllocateEmptyZone E level s = Some ((st, r), s')"
  shows "st = OK \<and> zone_at s' = zone_at (hold r s) \<and>
    (r = None \<longrightarrow> (\<forall>z \<in> set (io_zones s). z_busy (zone_at s z) \<or> \<not> IsEmpty (zone_at s z))) \<and>
    (\<forall>z. r = Some z \<longrightarrow> z \<in> set (io_zones s) \<and> \<not> z_busy (zone_at s z) \<and> IsEmpty (zone_at s z))"
  using std_algorithms.empty_zone_allocated [OF assms]
  by (cases r) (auto simp: empty_zone_result_def scan_cand_def hold_def)

theorem allocate_empty_zone_correct_witness:
  "std_algorithms mem_env \<and>
   (\<exists>s'. AllocateEmptyZone mem_env 1 mem_dev = Some ((OK, Some 3), s') \<and> z_busy (zone_at s' 3) \<and>
      \<not> z_busy (zone_at s' 4) \<and> IsEmpty (zone_at mem_dev 3))"
proof -
  let ?s = "hold (Some 3) mem_dev"
  have "AllocateEmptyZone mem_env 1 mem_dev = Some ((OK, Some 3), ?s)"
    by (simp add: AllocateEmptyZone_def AllocateEmptyZoneDefault_def mem_dev_eval IsEmpty_def Acquire_def hold_def)
  with allocate_empty_zone_correct [OF mem_std.std_algorithms_axioms this] mem_std.std_algorithms_axioms
  show ?thesis by (auto simp: zone_at_hold mem_dev_eval)
qed

lemma hotness_returns:
  assumes "std_algorithms E" "length (io_zones s) < 2 ^ 53"
    and "0 < max_level (zenfs_parameters s)" "max_level (zenfs_parameters s) < 256"
    and "level \<le> int (max_level (zenfs_parameters s))"
  shows "AllocateEmptyZoneHotnessBased E level s \<noteq> None"
proof (cases "level \<le> 0")
  case False
  let ?m = "max_level (zenfs_parameters s)"
  obtain lo up where lu: "hotness_interval (length (io_zones s)) ?m level = (lo, up)" by force
  have "lo \<le> int (length (io_zones s))"
    using hotness_lower_le [of "length (io_zones s)" ?m level] lu False assms by simp
  then show ?thesis
    using False assms(3)
    by (simp add: AllocateEmptyZoneHotnessBased_def Let_def lu std_algorithms.length_sort [OF assms(1)]
        del: not_None_eq split: prod.split option.split)
qed (simp add: AllocateEmptyZoneHotnessBased_def)

lemma allocate_empty_returns:
  assumes "std_algorithms E" "length (io_zones s) < 2 ^ 53" "level < 256"
    and "0 < max_level (zenfs_parameters s)" "max_level (zenfs_parameters s) < 256"
    and "io_zones s \<noteq> [] \<longrightarrow> seq_zone_pos s < length (io_zones s)"
  shows "\<exists>res. AllocateEmptyZone E level s = Some res"
proof -
  let ?s = "if 0 < level \<and> int (max_level (zenfs_parameters s)) < level
    then s\<lparr>zenfs_parameters := (zenfs_parameters s)\<lparr>max_level := nat level mod 256\<rparr>\<rparr> else s"
  have "AllocateEmptyZoneHotnessBased E level ?s \<noteq> None"
    using assms by (intro hotness_returns) auto
  moreover have "AllocateEmptyZoneSequential ?s \<noteq> None"
    using assms(6) by (auto simp: AllocateEmptyZoneSequential_def simp del: not_None_eq)
  ultimately have "AllocateEmptyZone E level s \<noteq> None"
    unfolding AllocateEmptyZone_def Let_def
    by (cases "empty_zone_allocator (zenfs_parameters s)") (simp_all del: not_None_eq)
  then show ?thesis by (simp only: not_None_eq)
qed



end
