(* ===== verification/LevelFiles.thy ===== *)
theory LevelFiles
  imports EmptyZone
begin

text \<open>
  The per-level file lists (\<open>levelwise_file_list_\<close> in \<open>zbd_extension_zenfs.cc\<close>) with the key-range
  queries of the placement policies, and the size estimate \<open>ComputeCompensatedSize\<close>
  (\<open>zbd_zonefile_zenfs.cc\<close>). Each list is kept in the order of the smallest keys.
\<close>

section \<open>Recording files\<close>

definition insert_by_key :: "(fid \<Rightarrow> zonefile) \<Rightarrow> fid \<Rightarrow> fid list \<Rightarrow> fid list" where
  "insert_by_key F f xs =
    (let before = \<lambda>g. f_icmp (F f) (f_smallest (F g)) (f_smallest (F f)) \<le> 0
     in takeWhile before xs @ f # dropWhile before xs)"

definition resize :: "nat \<Rightarrow> 'a list list \<Rightarrow> 'a list list" where
  "resize n xss = xss @ replicate (n - length xss) []"

definition recordable :: "zonefile \<Rightarrow> bool" where
  "recordable f \<longleftrightarrow> f_has_keys f \<and> 0 \<le> f_level f \<and> f_io_type f = KData"

definition AddZoneFileRecord :: "fid \<Rightarrow> ('b, 'm) zbd_scheme \<Rightarrow> ('b, 'm) zbd_scheme" where
  "AddZoneFileRecord f s = (if \<not> recordable (file_at s f) then s else
     let level = nat (f_level (file_at s f));
         ls = (if length (levelwise_file_list s) \<le> level then resize (level + 1) (levelwise_file_list s)
                  else levelwise_file_list s)
     in s\<lparr>levelwise_file_list := ls[level := insert_by_key (file_at s) f (ls ! level)]\<rparr>)"

definition RemoveZoneFileRecord :: "fid \<Rightarrow> ('b, 'm) zbd_scheme \<Rightarrow> ('b, 'm) zbd_scheme" where
  "RemoveZoneFileRecord f s = s\<lparr>levelwise_file_list := map (removeAll f) (levelwise_file_list s)\<rparr>"

section \<open>Sizes\<close>

definition GetFileSizeMeta :: "fid \<Rightarrow> ('b, 'm) zbd_scheme \<Rightarrow> nat \<times> ('b, 'm) zbd_scheme" where
  "GetFileSizeMeta f s = (let x = file_at s f;
     m = max (max (f_file_size_meta x) (f_file_size x)) (f_alloc_size x)
     in (m, file_upd f (\<lambda>x. x\<lparr>f_file_size_meta := m\<rparr>) s))"

definition ComputeCompensatedSize :: "fid \<Rightarrow> ('b, 'm) zbd_scheme \<Rightarrow> ('b, 'm) zbd_scheme" where
  "ComputeCompensatedSize f s = (let x = file_at s f; avg = average_value_size (zenfs_parameters s);
     m = max (max (f_file_size_meta x) (f_file_size x)) (f_alloc_size x);
     dels = mul64 (sub64 (f_num_deletions x) (f_num_range_deletions x)) 2;
     c = (if f_num_entries x \<le> dels
          then add64 m (mul64 (mul64 (sub64 dels (f_num_entries x)) avg) 2) else m)
     in file_upd f (\<lambda>x. x\<lparr>f_file_size_meta := m,
          f_compensated_file_size := add64 c (f_compensated_range_deletion_size x)\<rparr>) s)"

definition RecomputeCompensatedFileSizes :: "('b, 'm) zbd_scheme \<Rightarrow> ('b, 'm) zbd_scheme" where
  "RecomputeCompensatedFileSizes s =
     foldl (\<lambda>s f. ComputeCompensatedSize f s) s (concat (levelwise_file_list s))"

section \<open>Key ranges\<close>

definition IsOverlapping :: "zonefile \<Rightarrow> zonefile \<Rightarrow> (string \<Rightarrow> string \<Rightarrow> int) \<Rightarrow> bool" where
  "IsOverlapping a b icmp \<longleftrightarrow>
     \<not> icmp (f_largest a) (f_smallest b) < 0 \<and> \<not> icmp (f_smallest a) (f_largest b) > 0"

definition valid_level :: "int \<Rightarrow> ('b, 'm) zbd_scheme \<Rightarrow> bool" where
  "valid_level level s \<longleftrightarrow> 0 \<le> level \<and> level < int (length (levelwise_file_list s))"

definition GetOverlappingFiles :: "fid list \<Rightarrow> fid \<Rightarrow> int \<Rightarrow> ('b, 'm) zbd_scheme \<Rightarrow> fid list" where
  "GetOverlappingFiles ret f target s = (if \<not> valid_level target s then ret
     else ret @ filter (\<lambda>g. f \<noteq> g \<and> IsOverlapping (file_at s f) (file_at s g) (f_icmp (file_at s f)))
       (levelwise_file_list s ! nat target))"

definition GetSameLevelFiles :: "fid list \<Rightarrow> int \<Rightarrow> ('b, 'm) zbd_scheme \<Rightarrow> fid list" where
  "GetSameLevelFiles ret target s =
     (if \<not> valid_level target s then ret else levelwise_file_list s ! nat target)"

definition GetOverlapFileCount :: "fid \<Rightarrow> int \<Rightarrow> ('b, 'm) zbd_scheme \<Rightarrow> nat" where
  "GetOverlapFileCount f target s = (if \<not> valid_level target s then 0
     else foldl (\<lambda>n g. if f \<noteq> g \<and> IsOverlapping (file_at s f) (file_at s g) (f_icmp (file_at s f))
                       then n + 1 else n) 0 (levelwise_file_list s ! nat target))"

text \<open>\<open>GetFileSizeMeta\<close> stores the size it returns, so counting bytes changes the files.\<close>

definition GetOverlapByteCount :: "fid \<Rightarrow> int \<Rightarrow> ('b, 'm) zbd_scheme \<Rightarrow> nat \<times> ('b, 'm) zbd_scheme" where
  "GetOverlapByteCount f target s = (if \<not> valid_level target s then (0, s)
     else foldl (\<lambda>(n, s) g.
         if f \<noteq> g \<and> IsOverlapping (file_at s f) (file_at s g) (f_icmp (file_at s f))
         then let (m, s) = GetFileSizeMeta g s in (add64 n m, s) else (n, s))
       (0, s) (levelwise_file_list s ! nat target))"

definition GetOverlapKeyCount :: "fid \<Rightarrow> int \<Rightarrow> ('b, 'm) zbd_scheme \<Rightarrow> nat" where
  "GetOverlapKeyCount f target s = (if \<not> valid_level target s then 0
     else foldl (\<lambda>n g. if f \<noteq> g \<and> IsOverlapping (file_at s f) (file_at s g) (f_icmp (file_at s f))
                       then add64 n (f_num_entries (file_at s g)) else n)
       0 (levelwise_file_list s ! nat target))"

definition IsHighTombstone :: "fid \<Rightarrow> ('b, 'm) zbd_scheme \<Rightarrow> bool" where
  "IsHighTombstone f s = (let x = file_at s f;
     ratio = (if f_num_entries x \<noteq> 0
              then d_div (d_mul 1 (d_of_nat (f_num_deletions x))) (d_of_nat (f_num_entries x)) else 0)
     in tombstone_density (zenfs_parameters s) \<le> ratio)"

section \<open>The order of keys\<close>

definition key_sorted :: "(string \<Rightarrow> string \<Rightarrow> int) \<Rightarrow> (fid \<Rightarrow> zonefile) \<Rightarrow> fid list \<Rightarrow> bool" where
  "key_sorted cmp F = sorted_wrt (\<lambda>f g. cmp (f_smallest (F f)) (f_smallest (F g)) \<le> 0)"

text \<open>The lists of a device: every recorded file stands in the list of its level, once, in key order.\<close>

definition levels_ok :: "(string \<Rightarrow> string \<Rightarrow> int) \<Rightarrow> ('b, 'm) zbd_scheme \<Rightarrow> bool" where
  "levels_ok cmp s \<longleftrightarrow> (\<forall>l < length (levelwise_file_list s).
     key_sorted cmp (file_at s) (levelwise_file_list s ! l) \<and> distinct (levelwise_file_list s ! l) \<and>
     (\<forall>f \<in> set (levelwise_file_list s ! l). recordable (file_at s f) \<and> f_level (file_at s f) = int l))"

definition recorded :: "('b, 'm) zbd_scheme \<Rightarrow> fid set" where
  "recorded s = (\<Union>xs \<in> set (levelwise_file_list s). set xs)"

text \<open>
  The comparison of internal keys is a total preorder: its sign is antisymmetric, and being
  not greater is transitive.
\<close>

locale key_order =
  fixes cmp :: "string \<Rightarrow> string \<Rightarrow> int"
  assumes cmp_sym: "cmp a b < 0 \<longleftrightarrow> cmp b a > 0"
    and cmp_trans: "cmp a b \<le> 0 \<Longrightarrow> cmp b c \<le> 0 \<Longrightarrow> cmp a c \<le> 0"
begin

lemma cmp_total: "\<not> cmp a b \<le> 0 \<Longrightarrow> cmp b a \<le> 0"
  using cmp_sym [of b a] by linarith

lemma cmp_refl: "cmp a a \<le> 0"
  using cmp_total [of a a] by blast

lemma insert_sorted:
  assumes "key_sorted cmp F xs" "f_icmp (F f) = cmp"
  shows "key_sorted cmp F (insert_by_key F f xs)"
proof -
  define before where "before = (\<lambda>g. cmp (f_smallest (F g)) (f_smallest (F f)) \<le> 0)"
  define td dd where "td = takeWhile before xs" and "dd = dropWhile before xs"
  have "td @ dd = xs" by (simp add: td_def dd_def)
  then have s: "key_sorted cmp F (td @ dd)" using assms by simp
  have t: "\<forall>g \<in> set td. cmp (f_smallest (F g)) (f_smallest (F f)) \<le> 0"
    by (auto simp: td_def before_def dest: set_takeWhileD)
  have d: "\<forall>g \<in> set dd. cmp (f_smallest (F f)) (f_smallest (F g)) \<le> 0"
  proof (cases dd)
    case (Cons h ds)
    have "\<not> before h" using hd_dropWhile [of before xs] unfolding Cons [unfolded dd_def] by simp
    then have h: "cmp (f_smallest (F f)) (f_smallest (F h)) \<le> 0"
      unfolding before_def by (rule cmp_total)
    have "\<forall>g \<in> set ds. cmp (f_smallest (F h)) (f_smallest (F g)) \<le> 0"
      using s Cons by (simp add: key_sorted_def sorted_wrt_append)
    then show ?thesis using h cmp_trans [OF h] Cons by simp
  next
    case Nil
    show ?thesis unfolding Nil by simp
  qed
  have "insert_by_key F f xs = td @ f # dd"
    using assms(2) by (simp add: insert_by_key_def before_def td_def dd_def Let_def)
  moreover have "key_sorted cmp F (td @ f # dd)"
    using s t d by (simp add: key_sorted_def sorted_wrt_append)
  ultimately show ?thesis by simp
qed

lemma remove_sorted: "key_sorted cmp F xs \<Longrightarrow> key_sorted cmp F (removeAll f xs)"
  unfolding key_sorted_def removeAll_filter_not_eq by (rule sorted_wrt_filter)

lemma overlap_iff:
  assumes "f_icmp x = cmp" "cmp (f_smallest x) (f_largest x) \<le> 0" "cmp (f_smallest y) (f_largest y) \<le> 0"
  shows "IsOverlapping x y cmp \<longleftrightarrow>
    (\<exists>k. cmp (f_smallest x) k \<le> 0 \<and> cmp k (f_largest x) \<le> 0 \<and> cmp (f_smallest y) k \<le> 0 \<and> cmp k (f_largest y) \<le> 0)"
proof
  assume "IsOverlapping x y cmp"
  then have "cmp (f_smallest y) (f_largest x) \<le> 0" "cmp (f_smallest x) (f_largest y) \<le> 0"
    using cmp_sym [of "f_largest x" "f_smallest y"] by (auto simp: IsOverlapping_def not_less)
  then show "\<exists>k. cmp (f_smallest x) k \<le> 0 \<and> cmp k (f_largest x) \<le> 0 \<and> cmp (f_smallest y) k \<le> 0 \<and> cmp k (f_largest y) \<le> 0"
    using assms cmp_refl cmp_total [of "f_smallest x" "f_smallest y"]
    by (cases "cmp (f_smallest x) (f_smallest y) \<le> 0") blast+
next
  assume "\<exists>k. cmp (f_smallest x) k \<le> 0 \<and> cmp k (f_largest x) \<le> 0 \<and> cmp (f_smallest y) k \<le> 0 \<and> cmp k (f_largest y) \<le> 0"
  then have "cmp (f_smallest y) (f_largest x) \<le> 0" "cmp (f_smallest x) (f_largest y) \<le> 0"
    using cmp_trans by blast+
  then show "IsOverlapping x y cmp"
    using cmp_sym [of "f_largest x" "f_smallest y"] by (auto simp: IsOverlapping_def)
qed

end

text \<open>The bytewise order of \<open>Slice::compare\<close> (\<open>include/rocksdb/slice.h\<close>) is such an order.\<close>

fun memcmp :: "string \<Rightarrow> string \<Rightarrow> int" where
  "memcmp (x # xs) (y # ys) = (if ord x < ord y then - 1 else if ord y < ord x then 1 else memcmp xs ys)"
| "memcmp _ _ = 0"

definition Slice_compare :: "string \<Rightarrow> string \<Rightarrow> int" where
  "Slice_compare a b = (let min_len = (if length a < length b then length a else length b);
     r = memcmp (take min_len a) (take min_len b)
     in if r = 0 then (if length a < length b then - 1 else if length b < length a then 1 else r) else r)"

lemma Slice_compare_simps [simp]:
  "Slice_compare [] [] = 0" "Slice_compare [] (y # ys) = - 1" "Slice_compare (x # xs) [] = 1"
  "Slice_compare (x # xs) (y # ys) =
    (if ord x < ord y then - 1 else if ord y < ord x then 1 else Slice_compare xs ys)"
  by (simp_all add: Slice_compare_def Let_def)

lemma Slice_compare_trans:
  "Slice_compare a b \<le> 0 \<Longrightarrow> Slice_compare b c \<le> 0 \<Longrightarrow> Slice_compare a c \<le> 0"
proof (induction a arbitrary: b c)
  case Nil
  then show ?case by (cases c) simp_all
next
  case (Cons x xs)
  then obtain y ys where b: "b = y # ys" by (cases b) simp_all
  with Cons obtain z zs where c: "c = z # zs" by (cases c) simp_all
  show ?case using Cons b c by (auto split: if_splits)
qed

lemma Slice_compare_sym: "Slice_compare a b < 0 \<longleftrightarrow> Slice_compare b a > 0"
proof (induction a arbitrary: b)
  case Nil
  then show ?case by (cases b) simp_all
next
  case (Cons x xs)
  then show ?case by (cases b) simp_all
qed

interpretation bytewise: key_order Slice_compare
  by unfold_locales (rule Slice_compare_sym, erule (1) Slice_compare_trans)

section \<open>Recording keeps the lists in order\<close>

lemma set_insert_by_key [simp]: "set (insert_by_key F f xs) = insert f (set xs)"
  unfolding insert_by_key_def Let_def
  by (metis (no_types) Un_insert_right list.simps(15) set_append takeWhile_dropWhile_id)

lemma distinct_insert_by_key:
  assumes "distinct xs" "f \<notin> set xs"
  shows "distinct (insert_by_key F f xs)"
proof -
  have ins: "distinct (t @ d) \<Longrightarrow> f \<notin> set (t @ d) \<Longrightarrow> distinct (t @ f # d)" for t d by auto
  show ?thesis
    unfolding insert_by_key_def Let_def by (rule ins) (simp_all only: takeWhile_dropWhile_id assms not_False_eq_True)
qed

lemma nth_resize: "i < max n (length xss) \<Longrightarrow> resize n xss ! i = (if i < length xss then xss ! i else [])"
  by (auto simp: resize_def nth_append)

lemma length_resize [simp]: "length (resize n xss) = max n (length xss)"
  by (simp add: resize_def)

lemma levels_add:
  assumes "recordable (file_at s f)"
  defines "L \<equiv> nat (f_level (file_at s f))" and "ls \<equiv> levelwise_file_list s"
  shows "length (levelwise_file_list (AddZoneFileRecord f s)) = max (L + 1) (length ls)"
    and "l < max (L + 1) (length ls) \<Longrightarrow> levelwise_file_list (AddZoneFileRecord f s) ! l =
      (let old = if l < length ls then ls ! l else [] in
       if l = L then insert_by_key (file_at s) f old else old)"
  using assms by (auto simp: AddZoneFileRecord_def Let_def nth_list_update nth_resize)

lemma file_at_record [simp]:
  "file_at (AddZoneFileRecord f s) = file_at s" "file_at (RemoveZoneFileRecord f s) = file_at s"
  by (simp_all add: AddZoneFileRecord_def RemoveZoneFileRecord_def Let_def)

lemma recorded_nth: "f \<in> recorded s \<longleftrightarrow> (\<exists>l < length (levelwise_file_list s). f \<in> set (levelwise_file_list s ! l))"
  by (fastforce simp: recorded_def in_set_conv_nth)

context key_order
begin

lemma levels_ok_add:
  assumes "levels_ok cmp s" "f \<notin> recorded s" "f_icmp (file_at s f) = cmp"
  shows "levels_ok cmp (AddZoneFileRecord f s)"
proof (cases "recordable (file_at s f)")
  case True
  let ?L = "nat (f_level (file_at s f))" and ?n = "length (levelwise_file_list s)"
  define old where "old = (\<lambda>l. if l < ?n then levelwise_file_list s ! l else [])"
  have L: "0 \<le> f_level (file_at s f)" using True by (simp add: recordable_def)
  have new: "levelwise_file_list (AddZoneFileRecord f s) ! l =
      (if l = ?L then insert_by_key (file_at s) f (old l) else old l)" if "l < max (?L + 1) ?n" for l
    using levels_add(2) [OF True that] by (simp add: old_def Let_def)
  have srt: "key_sorted cmp (file_at s) (old l)" and dst: "distinct (old l)" and nin: "f \<notin> set (old l)"
    and lev: "\<forall>g \<in> set (old l). recordable (file_at s g) \<and> f_level (file_at s g) = int l" for l
    using assms(1,2) by (auto simp: old_def levels_ok_def recorded_nth key_sorted_def)
  show ?thesis
    unfolding levels_ok_def levels_add(1) [OF True] file_at_record
  proof (intro allI impI)
    fix l assume l: "l < max (?L + 1) ?n"
    show "key_sorted cmp (file_at s) (levelwise_file_list (AddZoneFileRecord f s) ! l) \<and>
      distinct (levelwise_file_list (AddZoneFileRecord f s) ! l) \<and>
      (\<forall>g \<in> set (levelwise_file_list (AddZoneFileRecord f s) ! l).
         recordable (file_at s g) \<and> f_level (file_at s g) = int l)"
    proof (cases "l = ?L")
      case eq: True
      then have "f_level (file_at s f) = int l" using L by simp
      then have "\<forall>g \<in> insert f (set (old l)). recordable (file_at s g) \<and> f_level (file_at s g) = int l"
        using lev [of l] True by blast
      then show ?thesis
        unfolding new [OF l] if_P [OF eq] set_insert_by_key
        by (intro conjI insert_sorted distinct_insert_by_key srt dst nin assms(3))
    next
      case False
      show ?thesis unfolding new [OF l] if_not_P [OF False] by (intro conjI srt dst lev)
    qed
  qed
next
  case False
  then show ?thesis using assms by (simp add: AddZoneFileRecord_def)
qed

lemma levels_ok_remove:
  assumes "levels_ok cmp s"
  shows "levels_ok cmp (RemoveZoneFileRecord f s)"
  using assms unfolding levels_ok_def
  by (simp add: RemoveZoneFileRecord_def remove_sorted distinct_removeAll)

end

lemma recorded_add:
  assumes "recordable (file_at s f)"
  shows "recorded (AddZoneFileRecord f s) = insert f (recorded s)"
proof (intro set_eqI iffI)
  note la = levels_add [OF assms]
  fix x
  assume "x \<in> recorded (AddZoneFileRecord f s)"
  then show "x \<in> insert f (recorded s)"
    unfolding recorded_nth la(1) by (auto simp: la(2) recorded_nth Let_def split: if_splits)
next
  note la = levels_add [OF assms]
  let ?L = "nat (f_level (file_at s f))" and ?n = "length (levelwise_file_list s)"
  fix x
  assume "x \<in> insert f (recorded s)"
  then consider "x = f" | l where "l < ?n" "x \<in> set (levelwise_file_list s ! l)"
    by (auto simp: recorded_nth)
  then show "x \<in> recorded (AddZoneFileRecord f s)"
  proof cases
    case 1
    then have "x \<in> set (levelwise_file_list (AddZoneFileRecord f s) ! ?L)" by (simp add: la(2))
    then show ?thesis unfolding recorded_nth la(1) by (intro exI [of _ ?L]) simp
  next
    case 2
    then have "x \<in> set (levelwise_file_list (AddZoneFileRecord f s) ! l)" by (auto simp: la(2) Let_def)
    then show ?thesis using 2 unfolding recorded_nth la(1) by (intro exI [of _ l]) simp
  qed
qed

lemma recorded_remove: "recorded (RemoveZoneFileRecord f s) = recorded s - {f}"
  by (auto simp: recorded_def RemoveZoneFileRecord_def)

text \<open>
  C6. Recording a file anew (removing its record and adding it again, as \<open>CreateOrUpdateRecord\<close>
  does) keeps every level list in key order, free of duplicates and restricted to files of its
  level; afterwards the file is recorded exactly if it is an SST file with keys and a level, and
  the records of all other files are as before.
\<close>

theorem level_lists_maintained:
  assumes "key_order cmp" "levels_ok cmp s" "f_icmp (file_at s f) = cmp"
  defines "s' \<equiv> AddZoneFileRecord f (RemoveZoneFileRecord f s)"
  shows "levels_ok cmp s' \<and>
    recorded s' = (if recordable (file_at s f) then insert f (recorded s) else recorded s - {f})"
proof
  show "levels_ok cmp s'"
    unfolding s'_def using assms(1-3)
    by (intro key_order.levels_ok_add [of cmp]) (simp_all add: key_order.levels_ok_remove recorded_remove)
  show "recorded s' = (if recordable (file_at s f) then insert f (recorded s) else recorded s - {f})"
  proof (cases "recordable (file_at s f)")
    case True
    then show ?thesis by (simp add: s'_def recorded_add recorded_remove)
  next
    case False
    then have "s' = RemoveZoneFileRecord f s" by (simp add: s'_def AddZoneFileRecord_def)
    then show ?thesis using False by (simp add: recorded_remove)
  qed
qed

text \<open>A sample: three files with one-byte keys, two of them recorded at level 1.\<close>

definition sample_file :: "nat \<Rightarrow> string \<Rightarrow> string \<Rightarrow> int \<Rightarrow> zonefile" where
  "sample_file i lo hi level = (new_file i)\<lparr>f_smallest := lo, f_largest := hi, f_icmp := Slice_compare,
     f_has_keys := True, f_level := level, f_io_type := KData\<rparr>"

definition sample_dev :: "(nat \<Rightarrow> char) zbdlib zbd" where
  "sample_dev = mem_dev\<lparr>
     file_at := (file_at mem_dev)(1 := sample_file 1 ''a'' ''c'' 1, 2 := sample_file 2 ''p'' ''t'' 1,
       3 := sample_file 3 ''b'' ''q'' 2),
     levelwise_file_list := [[], [1, 2]]\<rparr>"

lemma sample_levels_ok: "levels_ok Slice_compare sample_dev"
  by (simp add: levels_ok_def sample_dev_def sample_file_def recordable_def key_sorted_def
      less_Suc_eq ord_def)

theorem level_lists_maintained_witness:
  "levels_ok Slice_compare (AddZoneFileRecord 3 (RemoveZoneFileRecord 3 sample_dev)) \<and>
   recorded (AddZoneFileRecord 3 (RemoveZoneFileRecord 3 sample_dev)) = {1, 2, 3} \<and>
   f_icmp (file_at sample_dev 3) = Slice_compare"
proof -
  have f: "f_icmp (file_at sample_dev 3) = Slice_compare" "recordable (file_at sample_dev 3)"
    "recorded sample_dev = {1, 2}"
    by (auto simp: sample_dev_def sample_file_def recordable_def recorded_def)
  from level_lists_maintained [OF bytewise.key_order_axioms sample_levels_ok f(1)] f show ?thesis
    by auto
qed

lemma count_filter: "foldl (\<lambda>n x. if P x then n + 1 else n) k xs = k + length (filter P xs)"
  by (induction xs arbitrary: k) simp_all

text \<open>
  C7. The overlap queries answer by key range: for files with ordered key ranges, the files
  \<open>GetOverlappingFiles\<close> appends are exactly the other files of the level whose range shares a key
  with the range of the given file, and \<open>GetOverlapFileCount\<close> counts them.
\<close>

theorem overlapping_files_correct:
  assumes "key_order cmp" "valid_level l s" "f_icmp (file_at s f) = cmp"
    and "\<forall>g \<in> insert f (set (levelwise_file_list s ! nat l)). cmp (f_smallest (file_at s g)) (f_largest (file_at s g)) \<le> 0"
  shows "set (GetOverlappingFiles ret f l s) = set ret \<union> {g \<in> set (levelwise_file_list s ! nat l). g \<noteq> f \<and>
      (\<exists>k. cmp (f_smallest (file_at s f)) k \<le> 0 \<and> cmp k (f_largest (file_at s f)) \<le> 0 \<and>
           cmp (f_smallest (file_at s g)) k \<le> 0 \<and> cmp k (f_largest (file_at s g)) \<le> 0)} \<and>
    GetOverlapFileCount f l s = length (GetOverlappingFiles [] f l s)"
proof
  have "IsOverlapping (file_at s f) (file_at s g) cmp \<longleftrightarrow>
     (\<exists>k. cmp (f_smallest (file_at s f)) k \<le> 0 \<and> cmp k (f_largest (file_at s f)) \<le> 0 \<and>
          cmp (f_smallest (file_at s g)) k \<le> 0 \<and> cmp k (f_largest (file_at s g)) \<le> 0)"
    if "g \<in> set (levelwise_file_list s ! nat l)" for g
    using assms that by (intro key_order.overlap_iff) auto
  then show "set (GetOverlappingFiles ret f l s) = set ret \<union> {g \<in> set (levelwise_file_list s ! nat l). g \<noteq> f \<and>
      (\<exists>k. cmp (f_smallest (file_at s f)) k \<le> 0 \<and> cmp k (f_largest (file_at s f)) \<le> 0 \<and>
           cmp (f_smallest (file_at s g)) k \<le> 0 \<and> cmp k (f_largest (file_at s g)) \<le> 0)}"
    unfolding GetOverlappingFiles_def using assms(2,3) by auto
  show "GetOverlapFileCount f l s = length (GetOverlappingFiles [] f l s)"
    unfolding GetOverlapFileCount_def GetOverlappingFiles_def count_filter by simp
qed

theorem overlapping_files_correct_witness:
  "set (GetOverlappingFiles [] 3 1 sample_dev) = {1, 2} \<and> GetOverlapFileCount 3 1 sample_dev = 2"
proof -
  have h: "valid_level 1 sample_dev" "f_icmp (file_at sample_dev 3) = Slice_compare"
    "\<forall>g \<in> insert 3 (set (levelwise_file_list sample_dev ! nat 1)).
       Slice_compare (f_smallest (file_at sample_dev g)) (f_largest (file_at sample_dev g)) \<le> 0"
    by (simp_all add: valid_level_def sample_dev_def sample_file_def ord_def)
  have "GetOverlappingFiles [] 3 1 sample_dev = [1, 2]"
    by (simp add: GetOverlappingFiles_def valid_level_def sample_dev_def sample_file_def IsOverlapping_def ord_def)
  with overlapping_files_correct [OF bytewise.key_order_axioms h, of "[]"] show ?thesis by simp
qed

end
