(* ===== verification/Placement.thy ===== *)
theory Placement
  imports LevelFiles
begin

text \<open>
  The file placement policies (\<open>Match...\<close>, \<open>ChooseZone...\<close> and their helpers in
  \<open>zbd_extension_zenfs.cc\<close>). A policy receives the current values of its out parameters
  \<open>best_diff_out\<close> and \<open>zone_out\<close> and returns them together with its status; where the code
  returns without writing them they keep their value. \<open>None\<close> is a run the code does not survive
  (an integer division by zero, an access outside a vector).
\<close>

section \<open>Snapshots of files\<close>

record zone_extent_snapshot =
  x_start :: nat
  x_length :: nat
  x_zone_start :: nat
  x_level :: int
  x_filename :: string

record zone_file_snapshot =
  fs_file_id :: nat
  fs_filename :: string
  fs_level :: int
  fs_extents :: "zone_extent_snapshot list"

text \<open>A file in use has at least one name; the first one is its file name.\<close>

definition GetFilename :: "zonefile \<Rightarrow> string" where
  "GetFilename x = (case f_linkfiles x of [] \<Rightarrow> [] | n # _ \<Rightarrow> n)"

definition extent_snapshot :: "string \<Rightarrow> ('b, 'm) zbd_scheme \<Rightarrow> extent \<Rightarrow> zone_extent_snapshot" where
  "extent_snapshot fname s e = \<lparr>x_start = e_start e, x_length = e_length e,
     x_zone_start = z_start (zone_at s (e_zone e)), x_level = e_level e, x_filename = fname\<rparr>"

definition file_snapshot :: "fid \<Rightarrow> ('b, 'm) zbd_scheme \<Rightarrow> zone_file_snapshot" where
  "file_snapshot f s = (let x = file_at s f in
     \<lparr>fs_file_id = f_file_id x, fs_filename = GetFilename x, fs_level = f_level x,
      fs_extents = map (extent_snapshot (GetFilename x) s) (f_extents x)\<rparr>)"

section \<open>Contributions of files to zones\<close>

text \<open>A contribution map gives the weighted number of bytes by start of the zone, zero by default.\<close>

type_synonym contribution_map = "nat \<Rightarrow> nat"

definition add_extent_contribution :: "rat \<Rightarrow> contribution_map \<Rightarrow> zone_extent_snapshot \<Rightarrow> contribution_map" where
  "add_extent_contribution factor m x =
     m(x_zone_start x := nat_of_d (d_add (d_of_nat (m (x_zone_start x))) (d_mul factor (d_of_nat (x_length x)))))"

definition GetPerZoneContribution :: "fid \<Rightarrow> rat \<Rightarrow> contribution_map \<Rightarrow> ('b, 'm) zbd_scheme \<Rightarrow> contribution_map" where
  "GetPerZoneContribution f factor m s = foldl (add_extent_contribution factor) m (fs_extents (file_snapshot f s))"

definition GetPerZoneContributions :: "fid list \<Rightarrow> rat \<Rightarrow> contribution_map \<Rightarrow> ('b, 'm) zbd_scheme \<Rightarrow> contribution_map" where
  "GetPerZoneContributions fs factor m s = foldl (\<lambda>m f. GetPerZoneContribution f factor m s) m fs"

text \<open>Contributions with a factor that decays from one file to the next.\<close>

fun decaying_contributions :: "(rat \<Rightarrow> rat) \<Rightarrow> rat \<Rightarrow> fid list \<Rightarrow> contribution_map \<Rightarrow> ('b, 'm) zbd_scheme \<Rightarrow> contribution_map" where
  "decaying_contributions decay factor [] m s = m"
| "decaying_contributions decay factor (f # fs) m s =
     decaying_contributions decay (decay factor) fs (GetPerZoneContribution f factor m s) s"

definition decay_08 :: "rat \<Rightarrow> rat" where
  "decay_08 factor = (let factor = d_mul factor (rnd64 (4 / 5))
     in if factor < rnd64 (1 / 5) then rnd64 (1 / 5) else factor)"

definition decay_05 :: "rat \<Rightarrow> rat" where
  "decay_05 factor = d_mul factor (1 / 2)"

section \<open>Choosing among candidate zones\<close>

definition eligible :: "nat \<Rightarrow> zone \<Rightarrow> bool" where
  "eligible min_capacity z \<longleftrightarrow> 0 < z_used_capacity z \<and> \<not> IsFull z \<and> min_capacity \<le> z_capacity z"

definition ChooseZoneWithHighestContrib :: "zid option \<Rightarrow> nat \<Rightarrow> contribution_map \<Rightarrow> nat \<Rightarrow>
    ('b, 'm) zbd_scheme \<Rightarrow> (status \<times> zid option \<times> nat) \<times> ('b, 'm) zbd_scheme" where
  "ChooseZoneWithHighestContrib allocated highest m min_capacity s =
     match_loop (eligible min_capacity) (\<lambda>z. z) (\<lambda>_ x. m (z_start x)) (>) (io_zones s) allocated highest s"

text \<open>The extents whose zone the device knows, each with its length.\<close>

definition extent_candidates :: "zone_extent_snapshot list \<Rightarrow> ('b, 'm) zbd_scheme \<Rightarrow> (zid \<times> nat) list" where
  "extent_candidates xs s = concat (map (\<lambda>x. case zone_start_to_pointer s (x_zone_start x) of
     None \<Rightarrow> [] | Some z \<Rightarrow> [(z, x_length x)]) xs)"

definition choose_by_extent :: "zone_extent_snapshot list \<Rightarrow> nat \<Rightarrow> ('b, 'm) zbd_scheme \<Rightarrow>
    (status \<times> zid option \<times> nat) \<times> ('b, 'm) zbd_scheme" where
  "choose_by_extent xs min_capacity s =
     match_loop (eligible min_capacity) fst (\<lambda>c _. snd c) (>) (extent_candidates xs s) None 0 s"

text \<open>
  \<open>ChooseZoneWithClosestFile\<close>: \<open>ps\<close> are the files before the given one, nearest first, and \<open>ns\<close> the
  files after it; one step of the loop looks at the head of both.
\<close>

function closest_file_loop :: "nat \<Rightarrow> fid list \<Rightarrow> fid list \<Rightarrow> ('b, 'm) zbd_scheme \<Rightarrow>
    (status \<times> zid option) \<times> ('b, 'm) zbd_scheme" where
  "closest_file_loop min_capacity ps ns s =
    (if ps = [] \<and> ns = [] then ((OK, None), s) else
     let xs = (case ps of [] \<Rightarrow> [] | p # _ \<Rightarrow> fs_extents (file_snapshot p s)) @
              (case ns of [] \<Rightarrow> [] | n # _ \<Rightarrow> fs_extents (file_snapshot n s));
         ((st, allocated, _), s) = choose_by_extent xs min_capacity s in
     if st \<noteq> OK then ((st, allocated), s)
     else if allocated \<noteq> None then ((OK, allocated), s)
     else closest_file_loop min_capacity (tl ps) (tl ns) s)"
  by pat_completeness auto
termination
  by (relation "measure (\<lambda>(_, ps, ns, _). length ps + length ns)") (auto simp: neq_Nil_conv)

definition ChooseZoneWithClosestFile :: "nat \<Rightarrow> fid list \<Rightarrow> nat \<Rightarrow> ('b, 'm) zbd_scheme \<Rightarrow>
    (status \<times> zid option) \<times> ('b, 'm) zbd_scheme" where
  "ChooseZoneWithClosestFile index files min_capacity s =
     closest_file_loop min_capacity (rev (take index files)) (drop (index + 1) files) s"

text \<open>The distance of two ranks: \<open>labs\<close> of the 64-bit difference.\<close>

definition rank_diff :: "nat \<Rightarrow> nat \<Rightarrow> nat" where
  "rank_diff a b = (let d = sub64 a b in if d < 2 ^ 63 then d else 2 ^ 64 - d)"

text \<open>
  \<open>ChooseZoneWithClosestRank\<close>: the loop runs while \<open>prev_index > 0\<close>, that is, while at least two
  files come before, and there is a next file.
\<close>

function closest_rank_loop :: "nat \<Rightarrow> fid \<Rightarrow> fid list \<Rightarrow> fid list \<Rightarrow> ('b, 'm) zbd_scheme \<Rightarrow>
    (status \<times> zid option) \<times> ('b, 'm) zbd_scheme" where
  "closest_rank_loop min_capacity f ps ns s =
    (if length ps \<le> 1 \<or> ns = [] then ((OK, None), s) else
     let prev_diff = rank_diff (f_rank (file_at s f)) (f_rank (file_at s (hd ps)));
         next_diff = rank_diff (f_rank (file_at s (hd ns))) (f_rank (file_at s f));
         closest = (if prev_diff < next_diff then hd ps else hd ns);
         ps' = (if prev_diff < next_diff then tl ps else ps);
         ns' = (if prev_diff < next_diff then ns else tl ns);
         ((st, allocated, _), s) = choose_by_extent (fs_extents (file_snapshot closest s)) min_capacity s in
     if st \<noteq> OK then ((st, allocated), s)
     else if allocated \<noteq> None then ((OK, allocated), s)
     else closest_rank_loop min_capacity f ps' ns' s)"
  by pat_completeness auto
termination
  by (relation "measure (\<lambda>(_, _, ps, ns, _). length ps + length ns)") (auto simp: neq_Nil_conv)

definition ChooseZoneWithClosestRank :: "fid \<Rightarrow> nat \<Rightarrow> fid list \<Rightarrow> nat \<Rightarrow> ('b, 'm) zbd_scheme \<Rightarrow>
    (status \<times> zid option) \<times> ('b, 'm) zbd_scheme" where
  "ChooseZoneWithClosestRank f index files min_capacity s =
     closest_rank_loop min_capacity f (rev (take index files)) (drop (index + 1) files) s"

section \<open>Ranking the files of a level\<close>

definition set_rank :: "nat \<Rightarrow> fid \<Rightarrow> ('b, 'm) zbd_scheme \<Rightarrow> ('b, 'm) zbd_scheme" where
  "set_rank r f s = file_upd f (\<lambda>x. x\<lparr>f_rank := r\<rparr>) s"

fun number_ranks :: "nat \<Rightarrow> fid list \<Rightarrow> ('b, 'm) zbd_scheme \<Rightarrow> ('b, 'm) zbd_scheme" where
  "number_ranks i [] s = s"
| "number_ranks i (f # fs) s = number_ranks (i + 1) fs (set_rank (i + 1) f s)"

definition sort_by_rank :: "'b env \<Rightarrow> fid list \<Rightarrow> ('b, 'm) zbd_scheme \<Rightarrow> fid list" where
  "sort_by_rank E fs s = std_sort E (\<lambda>a b. f_rank (file_at s a) < f_rank (file_at s b)) fs"

fun size_ranks :: "int \<Rightarrow> fid list \<Rightarrow> ('b, 'm) zbd_scheme \<Rightarrow> ('b, 'm) zbd_scheme option" where
  "size_ranks target [] s = Some s"
| "size_ranks target (f # fs) s = (let (count, s) = GetOverlapByteCount f target s;
     c = f_compensated_file_size (file_at s f)
     in if c = 0 then None else size_ranks target fs (set_rank (mul64 count 1024 div c) f s))"

definition OverlapRankHelperSizeBased :: "'b env \<Rightarrow> fid list \<Rightarrow> int \<Rightarrow> int \<Rightarrow> ('b, 'm) zbd_scheme \<Rightarrow>
    (fid list \<times> ('b, 'm) zbd_scheme) option" where
  "OverlapRankHelperSizeBased E container own target s =
    (if \<not> valid_level own s \<or> \<not> valid_level target s
     then Some (container, foldl (\<lambda>s f. set_rank 0 f s) s container)
     else do {
       s \<leftarrow> size_ranks target container s;
       let container = sort_by_rank E container s;
       Some (container, number_ranks 0 container s)
     })"

fun key_ranks :: "int \<Rightarrow> fid list \<Rightarrow> ('b, 'm) zbd_scheme \<Rightarrow> ('b, 'm) zbd_scheme option" where
  "key_ranks target [] s = Some s"
| "key_ranks target (f # fs) s = (let count = GetOverlapKeyCount f target s; n = f_num_entries (file_at s f)
     in if n = 0 then None else key_ranks target fs (set_rank (mul64 count 1024 div n) f s))"

definition OverlapRankHelperKeyBased :: "'b env \<Rightarrow> fid list \<Rightarrow> int \<Rightarrow> int \<Rightarrow> ('b, 'm) zbd_scheme \<Rightarrow>
    (fid list \<times> ('b, 'm) zbd_scheme) option" where
  "OverlapRankHelperKeyBased E container own target s =
    (if \<not> valid_level own s \<or> \<not> valid_level target s
     then Some (container, foldl (\<lambda>s f. set_rank 0 f s) s container)
     else do {
       s \<leftarrow> key_ranks target container s;
       Some (sort_by_rank E container s, s)
     })"

definition sort_by_size :: "'b env \<Rightarrow> fid list \<Rightarrow> ('b, 'm) zbd_scheme \<Rightarrow> fid list" where
  "sort_by_size E fs s = std_sort E
     (\<lambda>a b. f_compensated_file_size (file_at s a) > f_compensated_file_size (file_at s b)) fs"

text \<open>The rank of the first overlapping file of the upper level is added to each file's own rank.\<close>

definition add_upper_rank :: "(string \<Rightarrow> string \<Rightarrow> int) \<Rightarrow> fid list \<Rightarrow> ('b, 'm) zbd_scheme \<Rightarrow> fid \<Rightarrow> ('b, 'm) zbd_scheme" where
  "add_upper_rank icmp upper s f =
    (case find (\<lambda>g. IsOverlapping (file_at s f) (file_at s g) icmp) upper of
       None \<Rightarrow> s
     | Some g \<Rightarrow> set_rank (add64 (f_rank (file_at s f)) (f_rank (file_at s g))) f s)"

definition index_of :: "fid \<Rightarrow> fid list \<Rightarrow> nat" where
  "index_of f fs = length (takeWhile (\<lambda>g. g \<noteq> f) fs)"

section \<open>The policies\<close>

type_synonym match_out = "status \<times> nat \<times> zid option"

definition GetLifeTimeDiff :: "nat \<Rightarrow> nat \<Rightarrow> nat" where
  "GetLifeTimeDiff zone_lifetime file_lifetime =
    (if file_lifetime = WLTH_NOT_SET \<or> file_lifetime = WLTH_NONE then
       if file_lifetime = zone_lifetime then 0 else LIFETIME_DIFF_NOT_GOOD
     else if zone_lifetime > file_lifetime then zone_lifetime - file_lifetime
     else if zone_lifetime = file_lifetime then LIFETIME_DIFF_COULD_BE_WORSE
     else LIFETIME_DIFF_NOT_GOOD)"

definition GetPolicy :: "int \<Rightarrow> params \<Rightarrow> policy" where
  "GetPolicy level p = (if level < 0 then KLifetimeBased
     else if level \<le> int (min_boundary p) then upper_level_policy p
     else if level \<ge> int (max_boundary p) then lower_level_policy p
     else middle_level_policy p)"

definition GetSecondaryPolicy :: "int \<Rightarrow> params \<Rightarrow> policy" where
  "GetSecondaryPolicy level p = (if level < 0 then KLifetimeBased
     else if level \<le> int (min_boundary p) then upper_level_policy_fallback p
     else if level \<ge> int (max_boundary p) then lower_level_policy_fallback p
     else middle_level_policy_fallback p)"

text \<open>What a policy stores: the outcome of a scan, or \<open>zone_out\<close> only when a zone was found.\<close>

definition store_scan :: "nat \<Rightarrow> zid option \<Rightarrow> (status \<times> zid option \<times> nat) \<Rightarrow> match_out" where
  "store_scan diff zone r = (case r of (st, allocated, best) \<Rightarrow>
     if st \<noteq> OK then (st, diff, zone) else (OK, best, allocated))"

definition store_found :: "zid option \<Rightarrow> zid option \<Rightarrow> match_out" where
  "store_found zone allocated = (case allocated of None \<Rightarrow> (OK, LIFETIME_DIFF_NOT_GOOD, zone)
     | Some z \<Rightarrow> (OK, 0, Some z))"

definition MatchLifetimeBased :: "nat \<Rightarrow> nat \<Rightarrow> zid option \<Rightarrow> nat \<Rightarrow> ('b, 'm) zbd_scheme \<Rightarrow>
    match_out \<times> ('b, 'm) zbd_scheme" where
  "MatchLifetimeBased lifetime diff zone min_capacity s =
    (let (r, s) = match_loop (eligible min_capacity) (\<lambda>z. z) (\<lambda>_ x. GetLifeTimeDiff (z_lifetime x) lifetime)
       (\<le>) (io_zones s) None LIFETIME_DIFF_NOT_GOOD s
     in (store_scan diff zone r, s))"

text \<open>The scans for a zone with a property; among several the last one is kept.\<close>

definition match_property :: "(zone \<Rightarrow> bool) \<Rightarrow> nat \<Rightarrow> zid option \<Rightarrow> nat \<Rightarrow> ('b, 'm) zbd_scheme \<Rightarrow>
    match_out \<times> ('b, 'm) zbd_scheme" where
  "match_property P diff zone min_capacity s =
    (let (r, s) = match_loop (eligible min_capacity) (\<lambda>z. z) (\<lambda>_ x. if P x then 0 else 1)
       (\<lambda>d _. d = 0) (io_zones s) None LIFETIME_DIFF_NOT_GOOD s
     in (store_scan diff zone r, s))"

definition MatchArrivalTimeBased :: "fid \<Rightarrow> nat \<Rightarrow> zid option \<Rightarrow> nat \<Rightarrow> ('b, 'm) zbd_scheme \<Rightarrow>
    match_out \<times> ('b, 'm) zbd_scheme" where
  "MatchArrivalTimeBased f diff zone min_capacity s =
     match_property (\<lambda>x. max 1 (z_level x) = max 1 (f_level (file_at s f))) diff zone min_capacity s"

definition MatchTombstoneDensity :: "fid \<Rightarrow> nat \<Rightarrow> zid option \<Rightarrow> nat \<Rightarrow> ('b, 'm) zbd_scheme \<Rightarrow>
    match_out \<times> ('b, 'm) zbd_scheme" where
  "MatchTombstoneDensity f diff zone min_capacity s =
    (if \<not> IsHighTombstone f s then ((OK, LIFETIME_DIFF_NOT_GOOD, None), s)
     else match_property (\<lambda>x. z_policy x = KTombstoneDensity) diff zone min_capacity s)"

definition MatchTombstoneTTL :: "nat \<Rightarrow> nat \<Rightarrow> zid option \<Rightarrow> nat \<Rightarrow> ('b, 'm) zbd_scheme \<Rightarrow>
    match_out \<times> ('b, 'm) zbd_scheme" where
  "MatchTombstoneTTL lifetime diff zone min_capacity s = MatchLifetimeBased lifetime diff zone min_capacity s"

definition MatchClusterTogether :: "nat \<Rightarrow> zid option \<Rightarrow> nat \<Rightarrow> ('b, 'm) zbd_scheme \<Rightarrow>
    match_out \<times> ('b, 'm) zbd_scheme" where
  "MatchClusterTogether diff zone min_capacity s =
     match_property (\<lambda>x. z_policy x = KClusterTogether) diff zone min_capacity s"

definition uses_policy :: "policy \<Rightarrow> int \<Rightarrow> params \<Rightarrow> bool" where
  "uses_policy q level p \<longleftrightarrow> GetPolicy level p = q \<or> GetSecondaryPolicy level p = q"

text \<open>The files of the neighbouring levels that overlap, where those levels use the policy.\<close>

definition caza_files :: "fid \<Rightarrow> ('b, 'm) zbd_scheme \<Rightarrow> fid list" where
  "caza_files f s =
    (let level = f_level (file_at s f); p = zenfs_parameters s;
         overlapping = (if uses_policy KCAZA (level - 1) p then GetOverlappingFiles [] f (level - 1) s else [])
     in if uses_policy KCAZA (level + 1) p then GetOverlappingFiles overlapping f (level + 1) s else overlapping)"

definition MatchCAZA :: "fid \<Rightarrow> nat \<Rightarrow> zid option \<Rightarrow> nat \<Rightarrow> ('b, 'm) zbd_scheme \<Rightarrow>
    match_out \<times> ('b, 'm) zbd_scheme" where
  "MatchCAZA f diff zone min_capacity s =
    (let level = f_level (file_at s f); overlapping = caza_files f s in
     if overlapping = [] \<and> level > 0 then ((OK, LIFETIME_DIFF_NOT_GOOD, zone), s) else
     let overlap_map = GetPerZoneContributions overlapping 1 (\<lambda>_. 0) s;
         ((st, allocated, _), s) = ChooseZoneWithHighestContrib None 0 overlap_map min_capacity s in
     if st \<noteq> OK then ((st, diff, zone), s) else
     let ((st, allocated), s) =
       (if allocated = None \<and> level = 0 then
          let ((st, allocated, _), s) = ChooseZoneWithHighestContrib allocated 0 (\<lambda>_. 0) min_capacity s
          in ((st, allocated), s)
        else ((OK, allocated), s)) in
     if st \<noteq> OK then ((st, diff, zone), s) else (store_found zone allocated, s))"

definition MatchSameLevelNearbyKeys :: "fid \<Rightarrow> nat \<Rightarrow> zid option \<Rightarrow> nat \<Rightarrow> ('b, 'm) zbd_scheme \<Rightarrow>
    match_out \<times> ('b, 'm) zbd_scheme" where
  "MatchSameLevelNearbyKeys f diff zone min_capacity s =
    (let x = file_at s f; level = f_level x in
     if \<not> valid_level level s then ((OK, LIFETIME_DIFF_NOT_GOOD, zone), s) else
     let files = GetSameLevelFiles [] level s;
         index_middle = length (takeWhile (\<lambda>g. f_icmp x (f_smallest (file_at s g)) (f_smallest x) < 0) files);
         m = decaying_contributions decay_08 1 (filter (\<lambda>g. g \<noteq> f) (drop index_middle files)) (\<lambda>_. 0) s;
         m = decaying_contributions decay_08 1 (rev (take index_middle files)) m s;
         ((st, allocated, highest), s) = ChooseZoneWithHighestContrib None 0 m min_capacity s in
     if st \<noteq> OK then ((st, LIFETIME_DIFF_NOT_GOOD, zone), s) else
     case allocated of
       None \<Rightarrow> ((OK, LIFETIME_DIFF_NOT_GOOD, zone), s)
     | Some z \<Rightarrow>
         if d_div (d_mul 1 (d_of_nat highest)) (d_of_nat (z_used_capacity (zone_at s z)))
            < nearest_newzone_threshold (zenfs_parameters s)
         then ((OK, LIFETIME_DIFF_COULD_BE_WORSE, Some z),
               s\<lparr>need_flag := True, nearest_need_new := nearest_need_new s + 1\<rparr>)
         else ((OK, 0, Some z), s\<lparr>nearest_real_success := nearest_real_success s + 1\<rparr>))"

definition MatchSameLevelNearbyKeysSimple :: "fid \<Rightarrow> nat \<Rightarrow> zid option \<Rightarrow> nat \<Rightarrow> ('b, 'm) zbd_scheme \<Rightarrow>
    match_out \<times> ('b, 'm) zbd_scheme" where
  "MatchSameLevelNearbyKeysSimple f diff zone min_capacity s =
    (let level = f_level (file_at s f) in
     if \<not> valid_level level s then ((OK, LIFETIME_DIFF_NOT_GOOD, zone), s) else
     let s = AddZoneFileRecord f (RemoveZoneFileRecord f s);
         files = levelwise_file_list s ! nat level;
         ((st, allocated), s) = ChooseZoneWithClosestFile (index_of f files) files min_capacity s in
     if st \<noteq> OK then ((st, diff, zone), s) else (store_found zone allocated, s))"

text \<open>The level a file sinks to while no file of the next level overlaps it.\<close>

function sink_level :: "fid \<Rightarrow> int \<Rightarrow> ('b, 'm) zbd_scheme \<Rightarrow> int" where
  "sink_level f level s =
    (if level < int (max_level (zenfs_parameters s)) then
       if GetOverlapFileCount f (level + 1) s \<noteq> 0 then level else sink_level f (level + 1) s
     else level)"
  by pat_completeness auto
termination
  by (relation "measure (\<lambda>(_, level, s). nat (int (max_level (zenfs_parameters s)) - level))") auto

text \<open>The neighbours of a file in a ranking, with their decaying contributions.\<close>

definition rank_contributions :: "(rat \<Rightarrow> rat) \<Rightarrow> fid \<Rightarrow> fid list \<Rightarrow> ('b, 'm) zbd_scheme \<Rightarrow> contribution_map" where
  "rank_contributions decay f ranking s =
    (let i = index_of f ranking
     in decaying_contributions decay 1 (rev (take i ranking))
          (decaying_contributions decay 1 (drop (i + 1) ranking) (\<lambda>_. 0) s) s)"

definition choose_ranked :: "(rat \<Rightarrow> rat) \<Rightarrow> fid \<Rightarrow> fid list \<Rightarrow> nat \<Rightarrow> zid option \<Rightarrow> nat \<Rightarrow> ('b, 'm) zbd_scheme \<Rightarrow>
    match_out \<times> ('b, 'm) zbd_scheme" where
  "choose_ranked decay f ranking diff zone min_capacity s =
    (let ((st, allocated, _), s) =
       ChooseZoneWithHighestContrib None 0 (rank_contributions decay f ranking s) min_capacity s in
     if st \<noteq> OK then ((st, diff, zone), s) else (store_found zone allocated, s))"

definition level_files :: "fid \<Rightarrow> int \<Rightarrow> ('b, 'm) zbd_scheme \<Rightarrow> fid list" where
  "level_files f level s = filter (\<lambda>g. g \<noteq> f) (levelwise_file_list s ! nat level)"

definition MatchOverlapChildren :: "'b env \<Rightarrow> fid \<Rightarrow> nat \<Rightarrow> zid option \<Rightarrow> nat \<Rightarrow> ('b, 'm) zbd_scheme \<Rightarrow>
    (match_out \<times> ('b, 'm) zbd_scheme) option" where
  "MatchOverlapChildren E f diff zone min_capacity s =
    (let s = RecomputeCompensatedFileSizes (ComputeCompensatedSize f s);
         level = sink_level f (f_level (file_at s f)) s;
         s = (if level > f_level (file_at s f) then
                AddZoneFileRecord f (file_upd f (\<lambda>x. x\<lparr>f_level := level\<rparr>) (RemoveZoneFileRecord f s))
              else s) in
     if \<not> valid_level level s then Some ((OK, LIFETIME_DIFF_NOT_GOOD, zone), s) else do {
       (own, s) \<leftarrow> OverlapRankHelperSizeBased E (f # level_files f level s) level (level + 1) s;
       (upper, s) \<leftarrow> OverlapRankHelperSizeBased E
         (if level - 1 \<ge> 0 then level_files f (level - 1) s else []) (level - 1) level s;
       let s = foldl (add_upper_rank (f_icmp (file_at s f)) upper) s own;
       Some (choose_ranked decay_08 f (sort_by_rank E own s) diff zone min_capacity s)
     })"

text \<open>Here the level is not checked before its list is read.\<close>

definition MatchOverlapGrandchildren :: "'b env \<Rightarrow> fid \<Rightarrow> nat \<Rightarrow> zid option \<Rightarrow> nat \<Rightarrow> ('b, 'm) zbd_scheme \<Rightarrow>
    (match_out \<times> ('b, 'm) zbd_scheme) option" where
  "MatchOverlapGrandchildren E f diff zone min_capacity s =
    (let s = RecomputeCompensatedFileSizes (ComputeCompensatedSize f s);
         level = sink_level f (f_level (file_at s f)) s in
     if \<not> valid_level level s then None else do {
       (own, s) \<leftarrow> OverlapRankHelperSizeBased E (f # level_files f level s) level (level + 2) s;
       (upper, s) \<leftarrow> OverlapRankHelperSizeBased E
         (if level - 1 > 0 then level_files f (level - 1) s else []) (level - 1) (level + 1) s;
       let s = foldl (add_upper_rank (f_icmp (file_at s f)) upper) s own;
       Some (choose_ranked decay_05 f (sort_by_rank E own s) diff zone min_capacity s)
     })"

definition MatchCompensatedSize :: "'b env \<Rightarrow> fid \<Rightarrow> nat \<Rightarrow> zid option \<Rightarrow> nat \<Rightarrow> ('b, 'm) zbd_scheme \<Rightarrow>
    (match_out \<times> ('b, 'm) zbd_scheme) option" where
  "MatchCompensatedSize E f diff zone min_capacity s =
    (let s = RecomputeCompensatedFileSizes (ComputeCompensatedSize f s);
         level = sink_level f (f_level (file_at s f)) s in
     if \<not> valid_level level s then None else
     let own = sort_by_size E (f # level_files f level s) s;
         s = number_ranks 0 own s;
         upper = sort_by_size E (if level - 1 > 0 then level_files f (level - 1) s else []) s;
         s = number_ranks 0 upper s;
         s = foldl (add_upper_rank (f_icmp (file_at s f)) upper) s own
     in Some (choose_ranked decay_05 f (sort_by_rank E own s) diff zone min_capacity s))"

definition MatchOAZA :: "'b env \<Rightarrow> fid \<Rightarrow> nat \<Rightarrow> zid option \<Rightarrow> nat \<Rightarrow> ('b, 'm) zbd_scheme \<Rightarrow>
    (match_out \<times> ('b, 'm) zbd_scheme) option" where
  "MatchOAZA E f diff zone min_capacity s =
    (let s = RecomputeCompensatedFileSizes (ComputeCompensatedSize f s);
         level = f_level (file_at s f); maxl = int (max_level (zenfs_parameters s)) in
     if \<not> valid_level level s then Some ((OK, LIFETIME_DIFF_NOT_GOOD, zone), s)
     else if level < maxl \<and> GetOverlapFileCount f (level + 1) s = 0 then
       Some ((OK, LIFETIME_DIFF_NOT_GOOD, zone),
         AddZoneFileRecord f (file_upd f (\<lambda>x. x\<lparr>f_level := f_level x + 1\<rparr>) (RemoveZoneFileRecord f s)))
     else if level = maxl \<and> GetOverlapFileCount f (level - 1) s = 0 then
       Some ((OK, LIFETIME_DIFF_NOT_GOOD, zone), s)
     else do {
       (own, s) \<leftarrow> OverlapRankHelperKeyBased E (f # level_files f level s) level
         (if level < maxl then level + 1 else level - 1) s;
       let ((st, allocated), s) =
         (if real_oaza (zenfs_parameters s) \<noteq> 0
          then ChooseZoneWithClosestRank f (index_of f own) own min_capacity s
          else ChooseZoneWithClosestFile (index_of f own) own min_capacity s);
       Some (if st \<noteq> OK then (st, diff, zone) else store_found zone allocated, s)
     })"

section \<open>Interface of the scans\<close>

lemma eligible_blind [simp]: "eligible c (x\<lparr>z_busy := b\<rparr>) = eligible c x"
  by (simp add: eligible_def)

interpretation lifetime_scan: zone_scan "eligible c" "\<lambda>(_::zid) x. GetLifeTimeDiff (z_lifetime x) lt" for c lt
  by unfold_locales simp_all

interpretation contrib_scan: zone_scan "eligible c" "\<lambda>(_::zid) x. m (z_start x)" for c and m :: contribution_map
  by unfold_locales simp_all

interpretation extent_scan: zone_scan "eligible c" "\<lambda>(x :: zid \<times> nat) _. snd x" for c
  by unfold_locales simp_all

section \<open>What a policy may change\<close>

text \<open>
  \<open>core\<close> blanks the part of the state the policies use for their own books: sizes, level and rank of
  the files, the level lists and the statistics. Policies change the rest in one way only, they take
  a zone.
\<close>

definition blank :: "zonefile \<Rightarrow> zonefile" where
  "blank x = x\<lparr>f_level := 0, f_file_size_meta := 0, f_compensated_file_size := 0, f_rank := 0\<rparr>"

lemma blank_upd [simp]:
  "blank (x\<lparr>f_level := l\<rparr>) = blank x" "blank (x\<lparr>f_file_size_meta := n\<rparr>) = blank x"
  "blank (x\<lparr>f_compensated_file_size := n\<rparr>) = blank x" "blank (x\<lparr>f_rank := n\<rparr>) = blank x"
  by (simp_all add: blank_def)

definition core :: "('b, 'm) zbd_scheme \<Rightarrow> ('b, 'm) zbd_scheme" where
  "core s = s\<lparr>file_at := (\<lambda>f. blank (file_at s f)), levelwise_file_list := [], alloc_count := 0, failure_count := 0,
     nearest_real_success := 0, nearest_need_new := 0, nearest_got_new := 0, need_flag := False\<rparr>"

lemma core_files [simp]: "(\<And>f. blank (F f) = blank (file_at s f)) \<Longrightarrow> core (s\<lparr>file_at := F\<rparr>) = core s"
  by (simp add: core_def)

lemma core_upd [simp]:
  "core (s\<lparr>levelwise_file_list := l\<rparr>) = core s"
  "core (s\<lparr>alloc_count := n\<rparr>) = core s" "core (s\<lparr>failure_count := n\<rparr>) = core s"
  "core (s\<lparr>nearest_real_success := n\<rparr>) = core s" "core (s\<lparr>nearest_need_new := n\<rparr>) = core s"
  "core (s\<lparr>nearest_got_new := n\<rparr>) = core s" "core (s\<lparr>need_flag := b\<rparr>) = core s"
  by (simp_all add: core_def)

lemma core_hold: "core (hold a s) = hold a (core s)"
  by (cases a) (simp_all add: core_def hold_def)

lemma core_hold_cong: "core s = core s' \<Longrightarrow> core (hold a s) = core (hold a s')"
  by (simp add: core_hold)

lemma core_sel [simp]:
  "zone_at (core s) = zone_at s" "io_zones (core s) = io_zones s" "meta_zones (core s) = meta_zones s"
  "zone_start_to_pointer (core s) = zone_start_to_pointer s" "zenfs_parameters (core s) = zenfs_parameters s"
  "active_io_zones (core s) = active_io_zones s" "open_io_zones (core s) = open_io_zones s"
  "max_nr_active_io_zones (core s) = max_nr_active_io_zones s"
  "max_nr_open_io_zones (core s) = max_nr_open_io_zones s" "be (core s) = be s"
  "migrating (core s) = migrating s" "zone_deferred_status (core s) = zone_deferred_status s"
  "bytes_written (core s) = bytes_written s" "finish_threshold (core s) = finish_threshold s" "zbd.more (core s) = zbd.more s"
  by (simp_all add: core_def)

lemma core_file_at: "file_at (core s) f = blank (file_at s f)"
  by (simp add: core_def)

lemma core_eqD:
  assumes "core s = core s'"
  shows "zone_at s = zone_at s'" "io_zones s = io_zones s'" "meta_zones s = meta_zones s'"
    "zone_start_to_pointer s = zone_start_to_pointer s'" "zenfs_parameters s = zenfs_parameters s'"
    "active_io_zones s = active_io_zones s'" "open_io_zones s = open_io_zones s'"
    "max_nr_active_io_zones s = max_nr_active_io_zones s'"
    "max_nr_open_io_zones s = max_nr_open_io_zones s'" "be s = be s'" "bytes_written s = bytes_written s'"
    "zbd.more s = zbd.more s'" "blank (file_at s f) = blank (file_at s' f)"
  using arg_cong [OF assms, of zone_at] arg_cong [OF assms, of io_zones] arg_cong [OF assms, of meta_zones]
    arg_cong [OF assms, of zone_start_to_pointer] arg_cong [OF assms, of zenfs_parameters]
    arg_cong [OF assms, of active_io_zones] arg_cong [OF assms, of open_io_zones]
    arg_cong [OF assms, of max_nr_active_io_zones] arg_cong [OF assms, of max_nr_open_io_zones]
    arg_cong [OF assms, of be] arg_cong [OF assms, of bytes_written] arg_cong [OF assms, of zbd.more] arg_cong [OF assms, of "\<lambda>s. file_at s f"]
  by (simp_all add: core_file_at)

lemma core_record [simp]: "core (AddZoneFileRecord f s) = core s" "core (RemoveZoneFileRecord f s) = core s"
  by (simp_all add: AddZoneFileRecord_def RemoveZoneFileRecord_def Let_def)

lemma core_foldl: "(\<And>s x. core (g s x) = core s) \<Longrightarrow> core (foldl g s xs) = core s"
  by (induction xs arbitrary: s) simp_all

lemma core_sizes [simp]:
  "core (ComputeCompensatedSize f s) = core s" "core (RecomputeCompensatedFileSizes s) = core s"
  "core (snd (GetFileSizeMeta f s)) = core s" "core (set_rank r f s) = core s"
  "core (add_upper_rank icmp upper s f) = core s"
  by (simp_all add: ComputeCompensatedSize_def RecomputeCompensatedFileSizes_def core_foldl GetFileSizeMeta_def
      set_rank_def add_upper_rank_def Let_def split: option.split)

lemma core_size_meta: "GetFileSizeMeta f s = (m, s') \<Longrightarrow> core s' = core s"
  by (auto simp: GetFileSizeMeta_def Let_def)

lemma core_byte_count [simp]: "core (snd (GetOverlapByteCount f l s)) = core s"
proof -
  have "core (snd (foldl (\<lambda>(n, s) g. if f \<noteq> g \<and> IsOverlapping (file_at s f) (file_at s g) (f_icmp (file_at s f))
      then let (m, s) = GetFileSizeMeta g s in (add64 n m, s) else (n, s)) (k, s) xs)) = core s" for k xs
  proof (induction xs arbitrary: k s)
    case (Cons g xs)
    then show ?case by (auto simp: Let_def core_size_meta split: prod.split)
  qed simp
  then show ?thesis by (simp add: GetOverlapByteCount_def)
qed

lemma core_number_ranks [simp]: "core (number_ranks i fs s) = core s"
  by (induction fs arbitrary: i s) simp_all

lemma core_size_ranks: "size_ranks l fs s = Some s' \<Longrightarrow> core s' = core s"
proof (induction fs arbitrary: s)
  case (Cons f fs)
  obtain n s1 where b: "GetOverlapByteCount f l s = (n, s1)" by force
  then have "core s1 = core s" using core_byte_count [of f l s] by (simp del: core_byte_count)
  then show ?case
    using Cons.prems by (auto simp: Let_def b split: if_splits dest!: Cons.IH)
qed simp

lemma core_key_ranks: "key_ranks l fs s = Some s' \<Longrightarrow> core s' = core s"
proof (induction fs arbitrary: s)
  case (Cons f fs)
  then show ?case by (auto simp: Let_def split: if_splits dest!: Cons.IH)
qed simp

lemma core_rank_helpers:
  "OverlapRankHelperSizeBased E fs a b s = Some (fs', s') \<Longrightarrow> core s' = core s"
  "OverlapRankHelperKeyBased E fs a b s = Some (fs', s') \<Longrightarrow> core s' = core s"
  by (auto simp: OverlapRankHelperSizeBased_def OverlapRankHelperKeyBased_def core_foldl core_size_ranks core_key_ranks
      Let_def split: if_splits Option.bind_splits)

section \<open>Every policy hands out at most one free zone\<close>

text \<open>
  The contract of a policy: it never fails, and except for its own books the state differs from
  before only in the busy flag of the zone it hands out. That zone was free, in use, not full
  and had room for \<open>c\<close> bytes; without a zone, \<open>zone_out\<close> is the old value or null.
\<close>

definition fits :: "nat \<Rightarrow> ('b, 'm) zbd_scheme \<Rightarrow> zid \<Rightarrow> bool" where
  "fits c s z \<longleftrightarrow> free_in s z \<and> eligible c (zone_at s z) \<and>
     (z \<in> set (io_zones s) \<or> z \<in> ran (zone_start_to_pointer s))"

definition match_ok :: "nat \<Rightarrow> zid option \<Rightarrow> ('b, 'm) zbd_scheme \<Rightarrow> match_out \<times> ('b, 'm) zbd_scheme \<Rightarrow> bool" where
  "match_ok c zone s res \<longleftrightarrow> (case res of ((st, d, z'), s') \<Rightarrow> st = OK \<and>
     (\<exists>a. core s' = core (hold a s) \<and>
        (case a of None \<Rightarrow> z' = zone \<or> z' = None | Some z \<Rightarrow> z' = Some z \<and> fits c s z)))"

lemma fits_core: "core s = core s' \<Longrightarrow> fits c s z = fits c s' z"
  using core_eqD [of s s'] by (simp add: fits_def)

lemma match_ok_core:
  assumes "core s = core s'"
  shows "match_ok c zone s res = match_ok c zone s' res"
proof -
  have f: "fits c s = fits c s'" using fits_core [OF assms] by blast
  have "core (hold a s) = core (hold a s')" for a using core_hold_cong [OF assms] by blast
  then show ?thesis unfolding match_ok_def f by simp
qed

lemma match_okI:
  "core s' = core (hold a s) \<Longrightarrow> (\<And>z. a = Some z \<Longrightarrow> z' = Some z \<and> fits c s z) \<Longrightarrow>
   (a = None \<Longrightarrow> z' = zone \<or> z' = None) \<Longrightarrow> match_ok c zone s ((OK, d, z'), s')"
  unfolding match_ok_def by (auto intro!: exI [of _ a] split: option.split)

lemma scan_zones:
  assumes "zone_scan (eligible c) score"
  shows "\<exists>a b. match_loop (eligible c) zof score better cs None b0 s = ((OK, a, b), hold a s) \<and>
    (\<forall>z. a = Some z \<longrightarrow> free_in s z \<and> eligible c (zone_at s z) \<and> z \<in> zof ` set cs)"
proof -
  let ?p = "pick (eligible c) zof score better (zone_at s) cs None b0"
  have "match_loop (eligible c) zof score better cs None b0 s = ((OK, ?p), hold (fst ?p) s)"
    using zone_scan.match_loop_hold [OF assms, of None s zof better cs b0] by simp
  then show ?thesis
    using pick_member [of "eligible c" zof score better "zone_at s" cs None b0]
    by (intro exI [of _ "fst ?p"] exI [of _ "snd ?p"]) fastforce
qed

lemma lifetime_ok: "match_ok c zone s (MatchLifetimeBased lt diff zone c s)"
proof -
  obtain a b where r: "match_loop (eligible c) (\<lambda>z. z) (\<lambda>_ x. GetLifeTimeDiff (z_lifetime x) lt) (\<le>)
      (io_zones s) None LIFETIME_DIFF_NOT_GOOD s = ((OK, a, b), hold a s)"
    and a: "\<forall>z. a = Some z \<longrightarrow> free_in s z \<and> eligible c (zone_at s z) \<and> z \<in> (\<lambda>z. z) ` set (io_zones s)"
    using scan_zones [OF lifetime_scan.zone_scan_axioms] by blast
  show ?thesis
    using a by (auto simp: MatchLifetimeBased_def r store_scan_def fits_def intro!: match_okI [of _ a])
qed

lemma property_ok:
  assumes "\<And>x b. P (x\<lparr>z_busy := b\<rparr>) = P x"
  shows "match_ok c zone s (match_property P diff zone c s)"
proof -
  have "zone_scan (eligible c) (\<lambda>(_::zid) x. if P x then 0 else 1)"
    using assms by unfold_locales simp_all
  from scan_zones [OF this] obtain a b where
    r: "match_loop (eligible c) (\<lambda>z. z) (\<lambda>_ x. if P x then 0 else 1) (\<lambda>d _. d = 0)
      (io_zones s) None LIFETIME_DIFF_NOT_GOOD s = ((OK, a, b), hold a s)"
    and a: "\<forall>z. a = Some z \<longrightarrow> free_in s z \<and> eligible c (zone_at s z) \<and> z \<in> (\<lambda>z. z) ` set (io_zones s)"
    by blast
  show ?thesis
    using a by (auto simp: match_property_def r store_scan_def fits_def intro!: match_okI [of _ a])
qed

lemma arrival_ok: "match_ok c zone s (MatchArrivalTimeBased f diff zone c s)"
  unfolding MatchArrivalTimeBased_def by (rule property_ok) simp

lemma cluster_ok: "match_ok c zone s (MatchClusterTogether diff zone c s)"
  unfolding MatchClusterTogether_def by (rule property_ok) simp

lemma tombstone_ok: "match_ok c zone s (MatchTombstoneDensity f diff zone c s)"
  unfolding MatchTombstoneDensity_def
  by (auto intro!: property_ok match_okI [of _ None])

lemma highest_contrib:
  "\<exists>a b. ChooseZoneWithHighestContrib None b0 m c s = ((OK, a, b), hold a s) \<and> (\<forall>z. a = Some z \<longrightarrow> fits c s z)"
  using scan_zones [OF contrib_scan.zone_scan_axioms, of c "\<lambda>z. z" m "(>)" "io_zones s" b0 s]
  unfolding ChooseZoneWithHighestContrib_def fits_def by auto

lemma store_found_ok:
  "core s' = core (hold a s) \<Longrightarrow> (\<And>z. a = Some z \<Longrightarrow> fits c s z) \<Longrightarrow> match_ok c zone s (store_found zone a, s')"
  by (cases a) (auto simp: store_found_def intro!: match_okI [of _ a])

lemma ranked_ok: "match_ok c zone s (choose_ranked decay f ranking diff zone c s)"
proof -
  obtain a b where r: "ChooseZoneWithHighestContrib None 0 (rank_contributions decay f ranking s) c s = ((OK, a, b), hold a s)"
    and a: "\<forall>z. a = Some z \<longrightarrow> fits c s z"
    using highest_contrib by blast
  then show ?thesis by (auto simp: choose_ranked_def r intro!: store_found_ok [of _ a])
qed

end
