(* ===== verification/Policies.thy ===== *)
theory Policies
  imports Placement
begin

text \<open>
  The contract of the placement policies (\<open>match_ok\<close>) for each of them, what the two basic scans
  choose, and the selection among the policies in \<open>GetBestOpenZoneMatch\<close>.
\<close>

declare closest_file_loop.simps [simp del] closest_rank_loop.simps [simp del] sink_level.simps [simp del]

section \<open>The remaining policies\<close>

lemma none_ok: "core s' = core s \<Longrightarrow> z' = zone \<or> z' = None \<Longrightarrow> match_ok c zone s ((OK, d, z'), s')"
  by (rule match_okI [of _ None]) auto

lemma caza_eq:
  assumes "ChooseZoneWithHighestContrib None 0 (GetPerZoneContributions (caza_files f s) 1 (\<lambda>_. 0) s) c s = ((OK, a, b), hold a s)"
    and "ChooseZoneWithHighestContrib None 0 (\<lambda>_. 0) c s = ((OK, a', b'), hold a' s)"
  shows "MatchCAZA f diff zone c s =
    (if caza_files f s = [] \<and> f_level (file_at s f) > 0 then ((OK, LIFETIME_DIFF_NOT_GOOD, zone), s)
     else if a = None \<and> f_level (file_at s f) = 0 then (store_found zone a', hold a' s)
     else (store_found zone a, hold a s))"
  by (simp add: MatchCAZA_def Let_def assms)

lemma caza_ok: "match_ok c zone s (MatchCAZA f diff zone c s)"
proof -
  obtain a b where r: "ChooseZoneWithHighestContrib None 0 (GetPerZoneContributions (caza_files f s) 1 (\<lambda>_. 0) s) c s = ((OK, a, b), hold a s)"
    and a: "\<forall>z. a = Some z \<longrightarrow> fits c s z" using highest_contrib by blast
  obtain a' b' where r': "ChooseZoneWithHighestContrib None 0 (\<lambda>_. 0) c s = ((OK, a', b'), hold a' s)"
    and a': "\<forall>z. a' = Some z \<longrightarrow> fits c s z" using highest_contrib by blast
  show ?thesis
    unfolding caza_eq [OF r r'] using a a' by (auto intro!: none_ok store_found_ok)
qed

lemma nearby_keys_ok: "match_ok c zone s (MatchSameLevelNearbyKeys f diff zone c s)"
proof -
  have h: "\<exists>a b. ChooseZoneWithHighestContrib None 0 m c s = ((OK, a, b), hold a s) \<and>
      (\<forall>z. a = Some z \<longrightarrow> fits c s z)" for m by (rule highest_contrib)
  show ?thesis
  proof (cases "valid_level (f_level (file_at s f)) s")
    case True
    define m where "m = (let x = file_at s f; files = GetSameLevelFiles [] (f_level x) s;
        i = length (takeWhile (\<lambda>g. f_icmp x (f_smallest (file_at s g)) (f_smallest x) < 0) files);
        m = decaying_contributions decay_08 1 (filter (\<lambda>g. g \<noteq> f) (drop i files)) (\<lambda>_. 0) s
      in decaying_contributions decay_08 1 (rev (take i files)) m s)"
    obtain a b where r: "ChooseZoneWithHighestContrib None 0 m c s = ((OK, a, b), hold a s)"
      and a: "\<forall>z. a = Some z \<longrightarrow> fits c s z" using h by blast
    have eq: "MatchSameLevelNearbyKeys f diff zone c s = (case a of
        None \<Rightarrow> ((OK, LIFETIME_DIFF_NOT_GOOD, zone), s)
      | Some z \<Rightarrow>
         if d_div (d_mul 1 (d_of_nat b)) (d_of_nat (z_used_capacity (zone_at (hold a s) z)))
            < nearest_newzone_threshold (zenfs_parameters s)
         then ((OK, LIFETIME_DIFF_COULD_BE_WORSE, Some z),
               (hold a s)\<lparr>need_flag := True, nearest_need_new := nearest_need_new (hold a s) + 1\<rparr>)
         else ((OK, 0, Some z), (hold a s)\<lparr>nearest_real_success := nearest_real_success (hold a s) + 1\<rparr>))"
      unfolding MatchSameLevelNearbyKeys_def Let_def m_def [symmetric, unfolded Let_def]
      using True by (cases a) (simp_all add: r)
    show ?thesis
      unfolding eq using a by (cases a) (auto simp: none_ok intro!: match_okI [of _ a])
  qed (simp add: MatchSameLevelNearbyKeys_def Let_def none_ok)
qed

lemma choose_by_extent_ok:
  "\<exists>a b. choose_by_extent xs c s = ((OK, a, b), hold a s) \<and> (\<forall>z. a = Some z \<longrightarrow> fits c s z)"
proof -
  have ran: "fst ` set (extent_candidates xs s) \<subseteq> ran (zone_start_to_pointer s)"
    by (auto simp: extent_candidates_def ran_def split: option.splits)
  obtain a b where "choose_by_extent xs c s = ((OK, a, b), hold a s)"
    "\<forall>z. a = Some z \<longrightarrow> free_in s z \<and> eligible c (zone_at s z) \<and> z \<in> fst ` set (extent_candidates xs s)"
    using scan_zones [OF extent_scan.zone_scan_axioms, of c fst "(>)" "extent_candidates xs s" 0 s]
    unfolding choose_by_extent_def by blast
  then show ?thesis using ran by (auto simp: fits_def)
qed

lemma closest_file_ok:
  "\<exists>a. closest_file_loop c ps ns s = ((OK, a), hold a s) \<and> (\<forall>z. a = Some z \<longrightarrow> fits c s z)"
proof (induction c ps ns s rule: closest_file_loop.induct)
  case (1 c ps ns s)
  show ?case
  proof (cases "ps = [] \<and> ns = []")
    case False
    define xs where "xs = (case ps of [] \<Rightarrow> [] | p # _ \<Rightarrow> fs_extents (file_snapshot p s)) @
      (case ns of [] \<Rightarrow> [] | n # _ \<Rightarrow> fs_extents (file_snapshot n s))"
    obtain a b where r: "choose_by_extent xs c s = ((OK, a, b), hold a s)"
      and a: "\<forall>z. a = Some z \<longrightarrow> fits c s z" using choose_by_extent_ok by blast
    have eq: "closest_file_loop c ps ns s =
      (if a \<noteq> None then ((OK, a), hold a s) else closest_file_loop c (tl ps) (tl ns) (hold a s))"
      using False by (subst closest_file_loop.simps) (auto simp: xs_def [symmetric] r)
    show ?thesis
    proof (cases a)
      case None
      have "\<exists>a. closest_file_loop c (tl ps) (tl ns) s = ((OK, a), hold a s) \<and> (\<forall>z. a = Some z \<longrightarrow> fits c s z)"
        by (rule 1 [OF False xs_def r [symmetric]]) (simp_all add: None)
      then show ?thesis using eq None by simp
    next
      case (Some z)
      then show ?thesis using eq a by simp
    qed
  qed (simp add: closest_file_loop.simps)
qed

lemma closest_rank_ok:
  "\<exists>a. closest_rank_loop c f ps ns s = ((OK, a), hold a s) \<and> (\<forall>z. a = Some z \<longrightarrow> fits c s z)"
proof (induction "length ps + length ns" arbitrary: ps ns rule: less_induct)
  case less
  show ?case
  proof (cases "length ps \<le> 1 \<or> ns = []")
    case False
    let ?p = "rank_diff (f_rank (file_at s f)) (f_rank (file_at s (hd ps)))
      < rank_diff (f_rank (file_at s (hd ns))) (f_rank (file_at s f))"
    let ?ps = "if ?p then tl ps else ps" and ?ns = "if ?p then ns else tl ns"
    obtain a b where r: "choose_by_extent (fs_extents (file_snapshot (if ?p then hd ps else hd ns) s)) c s
        = ((OK, a, b), hold a s)"
      and a: "\<forall>z. a = Some z \<longrightarrow> fits c s z" using choose_by_extent_ok by blast
    have eq: "closest_rank_loop c f ps ns s =
      (if a \<noteq> None then ((OK, a), hold a s) else closest_rank_loop c f ?ps ?ns (hold a s))"
      using False by (subst closest_rank_loop.simps) (simp add: Let_def r)
    have "length ?ps + length ?ns < length ps + length ns"
      using False by (cases ps; cases ns) auto
    from less [OF this] show ?thesis using eq a by (cases a) simp_all
  qed (simp add: closest_rank_loop.simps)
qed

lemma nearby_keys_simple_ok: "match_ok c zone s (MatchSameLevelNearbyKeysSimple f diff zone c s)"
proof (cases "valid_level (f_level (file_at s f)) s")
  case True
  define s1 where "s1 = AddZoneFileRecord f (RemoveZoneFileRecord f s)"
  have core: "core s1 = core s" by (simp add: s1_def)
  define fs where "fs = levelwise_file_list s1 ! nat (f_level (file_at s f))"
  obtain a where r: "ChooseZoneWithClosestFile (index_of f fs) fs c s1 = ((OK, a), hold a s1)"
    and a: "\<forall>z. a = Some z \<longrightarrow> fits c s1 z"
    using closest_file_ok unfolding ChooseZoneWithClosestFile_def by blast
  have eq: "MatchSameLevelNearbyKeysSimple f diff zone c s = (store_found zone a, hold a s1)"
    using True by (simp add: MatchSameLevelNearbyKeysSimple_def Let_def s1_def [symmetric] fs_def [symmetric] r)
  have "match_ok c zone s1 (store_found zone a, hold a s1)"
    using a by (intro store_found_ok) auto
  then show ?thesis unfolding eq match_ok_core [OF core] .
qed (simp add: MatchSameLevelNearbyKeysSimple_def Let_def none_ok)

lemma ranked_core: "core s' = core s \<Longrightarrow> match_ok c zone s (choose_ranked decay f ranking diff zone c s')"
  using ranked_ok [of c zone s'] match_ok_core [of s' s] by blast

lemma core_add_upper: "core (foldl (add_upper_rank icmp upper) s own) = core s"
  by (rule core_foldl) simp

lemma children_ok:
  assumes "MatchOverlapChildren E f diff zone c s = Some r"
  shows "match_ok c zone s r"
proof -
  define s1 where "s1 = RecomputeCompensatedFileSizes (ComputeCompensatedSize f s)"
  define level where "level = sink_level f (f_level (file_at s1 f)) s1"
  define s2 where "s2 = (if level > f_level (file_at s1 f) then
      AddZoneFileRecord f (file_upd f (\<lambda>x. x\<lparr>f_level := level\<rparr>) (RemoveZoneFileRecord f s1)) else s1)"
  have core: "core s2 = core s" by (simp add: s2_def s1_def)
  show ?thesis
  proof (cases "valid_level level s2")
    case True
    from assms True obtain own s3 upper s4 where
      "OverlapRankHelperSizeBased E (f # level_files f level s2) level (level + 1) s2 = Some (own, s3)"
      "OverlapRankHelperSizeBased E (if level - 1 \<ge> 0 then level_files f (level - 1) s3 else []) (level - 1) level s3
        = Some (upper, s4)"
      and r: "r = choose_ranked decay_08 f (sort_by_rank E own (foldl (add_upper_rank (f_icmp (file_at s4 f)) upper) s4 own))
        diff zone c (foldl (add_upper_rank (f_icmp (file_at s4 f)) upper) s4 own)"
      unfolding MatchOverlapChildren_def Let_def s1_def [symmetric] level_def [symmetric] s2_def [symmetric]
      by (auto split: Option.bind_splits)
    then have "core s4 = core s" using core_rank_helpers core by metis
    then show ?thesis unfolding r by (intro ranked_core) (simp add: core_add_upper)
  next
    case False
    then have "r = ((OK, LIFETIME_DIFF_NOT_GOOD, zone), s2)"
      using assms unfolding MatchOverlapChildren_def Let_def s1_def [symmetric] level_def [symmetric] s2_def [symmetric]
      by simp
    then show ?thesis using core by (auto intro: none_ok)
  qed
qed

lemma grandchildren_ok:
  assumes "MatchOverlapGrandchildren E f diff zone c s = Some r"
  shows "match_ok c zone s r"
proof -
  define s1 where "s1 = RecomputeCompensatedFileSizes (ComputeCompensatedSize f s)"
  define level where "level = sink_level f (f_level (file_at s1 f)) s1"
  from assms obtain own s3 upper s4 where
    "OverlapRankHelperSizeBased E (f # level_files f level s1) level (level + 2) s1 = Some (own, s3)"
    "OverlapRankHelperSizeBased E (if level - 1 > 0 then level_files f (level - 1) s3 else []) (level - 1) (level + 1) s3
      = Some (upper, s4)"
    and r: "r = choose_ranked decay_05 f (sort_by_rank E own (foldl (add_upper_rank (f_icmp (file_at s4 f)) upper) s4 own))
      diff zone c (foldl (add_upper_rank (f_icmp (file_at s4 f)) upper) s4 own)"
    unfolding MatchOverlapGrandchildren_def Let_def s1_def [symmetric] level_def [symmetric]
    by (auto split: Option.bind_splits if_splits)
  then have "core s4 = core s1" using core_rank_helpers by metis
  then show ?thesis unfolding r by (intro ranked_core) (simp add: core_add_upper s1_def)
qed

lemma compensated_ok:
  assumes "MatchCompensatedSize E f diff zone c s = Some r"
  shows "match_ok c zone s r"
  using assms unfolding MatchCompensatedSize_def Let_def
  by (auto split: if_splits intro!: ranked_core simp: core_add_upper)

lemma oaza_ok:
  assumes "MatchOAZA E f diff zone c s = Some r"
  shows "match_ok c zone s r"
proof -
  define s1 where "s1 = RecomputeCompensatedFileSizes (ComputeCompensatedSize f s)"
  let ?l = "f_level (file_at s1 f)" and ?m = "int (max_level (zenfs_parameters s1))"
  have core: "core s1 = core s" by (simp add: s1_def)
  show ?thesis
  proof (cases "\<not> valid_level ?l s1 \<or> ?l < ?m \<and> GetOverlapFileCount f (?l + 1) s1 = 0 \<or>
      ?l = ?m \<and> GetOverlapFileCount f (?l - 1) s1 = 0")
    case True
    then obtain s2 where "r = ((OK, LIFETIME_DIFF_NOT_GOOD, zone), s2)" "core s2 = core s"
      using assms core unfolding MatchOAZA_def Let_def s1_def [symmetric]
      by (auto split: if_splits)
    then show ?thesis by (auto intro: none_ok)
  next
    case False
    then obtain own s2 where
      h: "OverlapRankHelperKeyBased E (f # level_files f ?l s1) ?l (if ?l < ?m then ?l + 1 else ?l - 1) s1 = Some (own, s2)"
      using assms unfolding MatchOAZA_def Let_def s1_def [symmetric]
      by (auto split: if_splits Option.bind_splits)
    have core2: "core s2 = core s" using core_rank_helpers(2) [OF h] core by simp
    obtain a where "ChooseZoneWithClosestRank f (index_of f own) own c s2 = ((OK, a), hold a s2)"
      "\<forall>z. a = Some z \<longrightarrow> fits c s2 z"
      using closest_rank_ok unfolding ChooseZoneWithClosestRank_def by blast
    moreover obtain a' where "ChooseZoneWithClosestFile (index_of f own) own c s2 = ((OK, a'), hold a' s2)"
      "\<forall>z. a' = Some z \<longrightarrow> fits c s2 z"
      using closest_file_ok unfolding ChooseZoneWithClosestFile_def by blast
    moreover have n: "\<not> (\<not> valid_level ?l s1)" "\<not> (?l < ?m \<and> GetOverlapFileCount f (?l + 1) s1 = 0)"
      "\<not> (?l = ?m \<and> GetOverlapFileCount f (?l - 1) s1 = 0)" using False by blast+
    ultimately obtain b where r: "r = (store_found zone b, hold b s2)" and b: "\<forall>z. b = Some z \<longrightarrow> fits c s2 z"
      using assms unfolding MatchOAZA_def Let_def s1_def [symmetric] if_not_P [OF n(1)] if_not_P [OF n(2)] if_not_P [OF n(3)] h
      by (cases "real_oaza (zenfs_parameters s2) = 0") auto
    have "match_ok c zone s2 r" unfolding r using b by (intro store_found_ok) auto
    then show ?thesis using match_ok_core [OF core2] by blast
  qed
qed

section \<open>Selecting a policy\<close>

text \<open>
  The table \<open>function_map\<close>. A policy without an entry (\<open>kLeveledLifetimeBased\<close> and
  \<open>kUserDefinedPlacement\<close>) yields a null member pointer, and calling it has no result.
\<close>

definition run_policy :: "'b env \<Rightarrow> policy \<Rightarrow> fid \<Rightarrow> nat \<Rightarrow> nat \<Rightarrow> zid option \<Rightarrow> nat \<Rightarrow> ('b, 'm) zbd_scheme \<Rightarrow>
    (match_out \<times> ('b, 'm) zbd_scheme) option" where
  "run_policy E q f lifetime diff zone min_capacity s = (case q of
      KLifetimeBased \<Rightarrow> Some (MatchLifetimeBased lifetime diff zone min_capacity s)
    | KCAZA \<Rightarrow> Some (MatchCAZA f diff zone min_capacity s)
    | KSameLevelNearbyKeys \<Rightarrow> Some (MatchSameLevelNearbyKeys f diff zone min_capacity s)
    | KSameLevelNearbyKeysSimple \<Rightarrow> Some (MatchSameLevelNearbyKeysSimple f diff zone min_capacity s)
    | KArrivalTimeBased \<Rightarrow> Some (MatchArrivalTimeBased f diff zone min_capacity s)
    | KTombstoneDensity \<Rightarrow> Some (MatchTombstoneDensity f diff zone min_capacity s)
    | KTombstoneTTL \<Rightarrow> Some (MatchTombstoneTTL lifetime diff zone min_capacity s)
    | KClusterTogether \<Rightarrow> Some (MatchClusterTogether diff zone min_capacity s)
    | KOverlapChildren \<Rightarrow> MatchOverlapChildren E f diff zone min_capacity s
    | KOverlapGrandchildren \<Rightarrow> MatchOverlapGrandchildren E f diff zone min_capacity s
    | KCompensatedSize \<Rightarrow> MatchCompensatedSize E f diff zone min_capacity s
    | KOAZA \<Rightarrow> MatchOAZA E f diff zone min_capacity s
    | KLeveledLifetimeBased \<Rightarrow> None
    | KUserDefinedPlacement \<Rightarrow> None)"

text \<open>The lower bound the primary policy puts on the score when it found no zone.\<close>

definition primary_floor :: "policy \<Rightarrow> fid \<Rightarrow> int \<Rightarrow> nat \<Rightarrow> ('b, 'm) zbd_scheme \<Rightarrow> nat" where
  "primary_floor q f level maxl s =
    (let p = zenfs_parameters s; now = f_level (file_at s f);
         worse = q = KArrivalTimeBased \<or> q = KClusterTogether \<or> q = KTombstoneDensity \<and> IsHighTombstone f s \<or>
           q = KCAZA \<and> real_caza p \<noteq> 0 \<or> q = KOAZA \<and> real_oaza p = 0 \<and> now < int maxl;
         bad = q = KOAZA \<and> real_oaza p \<noteq> 0 \<and> level < int maxl \<and> now > level
     in if bad then LIFETIME_DIFF_NOT_GOOD else if worse then LIFETIME_DIFF_COULD_BE_WORSE else 0)"

definition has_placement_info :: "zonefile \<Rightarrow> bool" where
  "has_placement_info x \<longleftrightarrow> 0 \<le> f_level x \<and> f_has_keys x \<and> f_io_type x = KData"

definition GetBestOpenZoneMatch :: "'b env \<Rightarrow> fid \<Rightarrow> nat \<Rightarrow> nat \<Rightarrow> zid option \<Rightarrow> nat \<Rightarrow> ('b, 'm) zbd_scheme \<Rightarrow>
    (match_out \<times> ('b, 'm) zbd_scheme) option" where
  "GetBestOpenZoneMatch E f lifetime diff zone min_capacity s =
    (let level = f_level (file_at s f); p = zenfs_parameters s; maxl = max_level p in
     if \<not> has_placement_info (file_at s f) then Some (MatchLifetimeBased lifetime diff zone 0 s) else
     let primary = GetPolicy level p; fallback = GetSecondaryPolicy level p;
         s = s\<lparr>alloc_count := alloc_count s + 1\<rparr> in do {
       ((st, d, z), s) \<leftarrow> run_policy E primary f lifetime diff zone min_capacity s;
       if z \<noteq> zone then Some ((st, d, z), s) else do {
         ((st, d, z), s) \<leftarrow> run_policy E fallback f lifetime d z min_capacity s;
         let d = max (primary_floor primary f level maxl s) d;
         if z \<noteq> zone then Some ((st, d, z), s) else
           let ((st, d, z), s) = MatchLifetimeBased lifetime d z min_capacity s
           in Some ((st, max LIFETIME_DIFF_COULD_BE_WORSE d, z), s\<lparr>failure_count := failure_count s + 1\<rparr>)
       }
     })"

lemma run_policy_ok:
  assumes "run_policy E q f lt diff zone c s = Some r"
  shows "match_ok c zone s r"
  using assms
  by (cases q) (auto simp: run_policy_def lifetime_ok caza_ok nearby_keys_ok nearby_keys_simple_ok arrival_ok
      tombstone_ok MatchTombstoneTTL_def cluster_ok intro: children_ok grandchildren_ok compensated_ok oaza_ok)

lemma match_ok_None:
  "match_ok c None s ((st, d, z), s') \<longleftrightarrow> st = OK \<and> core s' = core (hold z s) \<and> (\<forall>y. z = Some y \<longrightarrow> fits c s y)"
proof
  assume "st = OK \<and> core s' = core (hold z s) \<and> (\<forall>y. z = Some y \<longrightarrow> fits c s y)"
  then show "match_ok c None s ((st, d, z), s')" unfolding match_ok_def by (auto intro!: exI [of _ z] split: option.split)
qed (auto simp: match_ok_def split: option.splits)

lemma fits_mono: "fits c s z \<Longrightarrow> c' \<le> c \<Longrightarrow> fits c' s z"
  by (auto simp: fits_def eligible_def)

lemma best_match_ok:
  assumes "GetBestOpenZoneMatch E f lt diff None c s = Some r"
  defines "c' \<equiv> (if has_placement_info (file_at s f) then c else 0)"
  shows "match_ok c' None s r \<and> (snd (snd (fst r)) = None \<longrightarrow>
    (\<exists>d s2. core s2 = core s \<and> snd (snd (fst (MatchLifetimeBased lt d None c' s2))) = None))"
proof (cases "has_placement_info (file_at s f)")
  case False
  then have "r = MatchLifetimeBased lt diff None 0 s"
    using assms by (simp add: GetBestOpenZoneMatch_def Let_def)
  then show ?thesis using lifetime_ok [of 0 None s lt diff] False by (auto simp: c'_def)
next
  case True
  let ?p = "zenfs_parameters s" and ?l = "f_level (file_at s f)" and ?s = "s\<lparr>alloc_count := alloc_count s + 1\<rparr>"
  have lift: "match_ok c None s x" if "match_ok c None s1 x" "core s1 = core s" for s1 x
    using that match_ok_core by blast
  obtain st d z s1 where p1: "run_policy E (GetPolicy ?l ?p) f lt diff None c ?s = Some ((st, d, z), s1)"
    using assms True by (auto simp: GetBestOpenZoneMatch_def Let_def split: Option.bind_splits)
  have m1: "match_ok c None s ((st, d, z), s1)" using lift [OF run_policy_ok [OF p1]] by simp
  show ?thesis
  proof (cases z)
    case (Some y)
    then have "r = ((st, d, z), s1)" using assms True p1 by (simp add: GetBestOpenZoneMatch_def Let_def)
    then show ?thesis using m1 True Some by (simp add: c'_def)
  next
    case None
    then have c1: "core s1 = core s" using m1 by (simp add: match_ok_None)
    obtain st2 d2 z2 s2 where p2: "run_policy E (GetSecondaryPolicy ?l ?p) f lt d None c s1 = Some ((st2, d2, z2), s2)"
      using assms True p1 None by (auto simp: GetBestOpenZoneMatch_def Let_def split: Option.bind_splits)
    have m2: "match_ok c None s ((st2, d2, z2), s2)" using lift [OF run_policy_ok [OF p2] c1] .
    define d3 where "d3 = max (primary_floor (GetPolicy ?l ?p) f ?l (max_level ?p) s2) d2"
    show ?thesis
    proof (cases z2)
      case (Some y)
      then have "r = ((st2, d3, z2), s2)"
        using assms True p1 p2 None by (simp add: GetBestOpenZoneMatch_def Let_def d3_def)
      then show ?thesis using m2 True Some by (simp add: match_ok_None c'_def)
    next
      case z2: None
      obtain st4 d4 z4 s4 where p4: "MatchLifetimeBased lt d3 None c s2 = ((st4, d4, z4), s4)" by (metis prod.exhaust)
      have c2: "core s2 = core s" using m2 z2 by (simp add: match_ok_None)
      then have "match_ok c None s ((st4, d4, z4), s4)"
        using lift [OF lifetime_ok [of c None s2 lt d3, unfolded p4]] by blast
      moreover have "r = ((st4, max LIFETIME_DIFF_COULD_BE_WORSE d4, z4), s4\<lparr>failure_count := failure_count s4 + 1\<rparr>)"
        using assms True p1 p2 None z2 p4 by (simp add: GetBestOpenZoneMatch_def Let_def d3_def)
      ultimately show ?thesis using True c2 p4
        by (auto simp: match_ok_None c'_def intro!: exI [of _ d3] exI [of _ s2])
    qed
  qed
qed

section \<open>What the policies guarantee\<close>

text \<open>A device with two open zones: zone 3 holds eight bytes, zone 4 four, zones 5 and 6 are empty.\<close>

definition open_dev :: "(nat \<Rightarrow> char) zbdlib zbd" where
  "open_dev = sample_dev\<lparr>
     zone_at := (zone_at sample_dev)(
       3 := (zone_at sample_dev 3)\<lparr>z_wp := 56, z_capacity := 8, z_used_capacity := 8, z_lifetime := WLTH_EXTREME\<rparr>,
       4 := (zone_at sample_dev 4)\<lparr>z_wp := 68, z_capacity := 12, z_used_capacity := 4, z_lifetime := WLTH_LONG\<rparr>),
     file_at := (file_at sample_dev)(
       1 := (file_at sample_dev 1)\<lparr>f_linkfiles := [''a.sst''], f_file_size := 8,
          f_extents := [\<lparr>e_start = 48, e_length = 8, e_zone = 3, e_level = 1\<rparr>]\<rparr>,
       2 := (file_at sample_dev 2)\<lparr>f_linkfiles := [''b.sst''], f_file_size := 4,
          f_extents := [\<lparr>e_start = 64, e_length = 4, e_zone = 4, e_level = 1\<rparr>]\<rparr>),
     active_io_zones := 2\<rparr>"

lemmas open_dev_eval = open_dev_def sample_dev_def sample_file_def mem_dev_eval

text \<open>
  C8. Every placement policy, whatever the state of the device, if it returns reports success and
  takes at most one zone: the busy flag of the zone it hands out is the only part of the zones
  that changes, the device and the token counters are untouched, and the zone handed out was
  free, holds data, is not full and has room for \<open>min_capacity\<close> bytes. Without a zone the out
  parameter keeps its value or becomes null.
\<close>

theorem policy_takes_fitting_zone:
  assumes "run_policy E q f lt diff zone c s = Some ((st, d, z'), s')"
  shows "st = OK \<and> be s' = be s \<and> io_zones s' = io_zones s \<and> active_io_zones s' = active_io_zones s \<and>
    open_io_zones s' = open_io_zones s \<and>
    (\<exists>a. zone_at s' = zone_at (hold a s) \<and>
      (case a of None \<Rightarrow> z' = zone \<or> z' = None
       | Some z \<Rightarrow> z' = Some z \<and> \<not> z_busy (zone_at s z) \<and> IsUsed (zone_at s z) \<and> \<not> IsFull (zone_at s z) \<and>
           c \<le> GetCapacityLeft (zone_at s z) \<and> (z \<in> set (io_zones s) \<or> z \<in> ran (zone_start_to_pointer s))))"
proof -
  from run_policy_ok [OF assms] obtain a where st: "st = OK" and core: "core s' = core (hold a s)"
    and a: "case a of None \<Rightarrow> z' = zone \<or> z' = None | Some z \<Rightarrow> z' = Some z \<and> fits c s z"
    unfolding match_ok_def by auto
  show ?thesis
    using st core_eqD [OF core] a
    by (intro conjI exI [of _ a]) (auto simp: fits_def eligible_def IsUsed_def GetCapacityLeft_def split: option.splits)
qed

theorem policy_takes_fitting_zone_witness:
  "\<exists>s'. run_policy mem_env KLifetimeBased 3 WLTH_MEDIUM 100 None 10 open_dev = Some ((OK, 1, Some 4), s') \<and>
     zone_at s' = zone_at (hold (Some 4) open_dev) \<and> be s' = be open_dev"
proof -
  obtain s' where run: "run_policy mem_env KLifetimeBased 3 WLTH_MEDIUM 100 None 10 open_dev = Some ((OK, 1, Some 4), s')"
    by (simp add: run_policy_def MatchLifetimeBased_def store_scan_def open_dev_eval eligible_def IsFull_def Acquire_def
        CheckRelease_def Release_def GetLifeTimeDiff_def LIFETIME_DIFF_NOT_GOOD_def LIFETIME_DIFF_COULD_BE_WORSE_def)
  from policy_takes_fitting_zone [OF run] obtain a where "zone_at s' = zone_at (hold a open_dev)" "be s' = be open_dev"
    "a = Some 4" by (auto split: option.splits)
  with run show ?thesis by auto
qed

lemma lifetime_match_cases:
  assumes "distinct (io_zones s)" "MatchLifetimeBased lt diff zone c s = ((st, d, z'), s')"
  shows "z' = None \<and> d = LIFETIME_DIFF_NOT_GOOD \<and>
      (\<forall>z \<in> set (io_zones s). scan_cand (zone_at s) (eligible c) z \<longrightarrow>
         LIFETIME_DIFF_NOT_GOOD < GetLifeTimeDiff (z_lifetime (zone_at s z)) lt) \<or>
    (\<exists>z. z' = Some z \<and> d = GetLifeTimeDiff (z_lifetime (zone_at s z)) lt \<and>
      last_least (scan_cand (zone_at s) (eligible c)) (\<lambda>z. GetLifeTimeDiff (z_lifetime (zone_at s z)) lt)
        LIFETIME_DIFF_NOT_GOOD (io_zones s) z)"
proof -
  let ?p = "pick (eligible c) (\<lambda>z. z) (\<lambda>_ x. GetLifeTimeDiff (z_lifetime x) lt) (\<le>) (zone_at s) (io_zones s) None LIFETIME_DIFF_NOT_GOOD"
  have "MatchLifetimeBased lt diff zone c s = ((OK, snd ?p, fst ?p), hold (fst ?p) s)"
    using lifetime_scan.match_loop_hold [of None s c "\<lambda>z. z" lt "(\<le>)" "io_zones s" LIFETIME_DIFF_NOT_GOOD]
    by (simp add: MatchLifetimeBased_def store_scan_def split: prod.split)
  then have "?p = (z', d)" using assms(2) by (metis Pair_inject prod.collapse)
  from pick_least [OF this] assms(1) show ?thesis by auto
qed

lemma last_leastD: "last_least cand g b zs z \<Longrightarrow> z \<in> set zs \<and> cand z \<and> (\<forall>y \<in> set zs. cand y \<longrightarrow> g z \<le> g y)"
  unfolding last_least_def by fastforce

lemma first_greatestD: "first_greatest cand g b zs z \<Longrightarrow> z \<in> set zs \<and> cand z \<and> b < g z \<and> (\<forall>y \<in> set zs. cand y \<longrightarrow> g y \<le> g z)"
  unfolding first_greatest_def by fastforce

text \<open>The diff orders zones as intended: longer living zones first, the closest one best.\<close>

lemma lifetime_diff_longer: "WLTH_NONE < lt \<Longrightarrow> lt < l \<Longrightarrow> GetLifeTimeDiff l lt = l - lt"
  by (simp add: GetLifeTimeDiff_def)

lemma lifetime_diff_not_longer: "WLTH_NONE < lt \<Longrightarrow> l \<le> lt \<Longrightarrow> LIFETIME_DIFF_COULD_BE_WORSE \<le> GetLifeTimeDiff l lt"
  by (simp add: GetLifeTimeDiff_def LIFETIME_DIFF_COULD_BE_WORSE_def LIFETIME_DIFF_NOT_GOOD_def)

lemma lifetime_diff_bound: "l \<le> WLTH_EXTREME \<Longrightarrow> GetLifeTimeDiff l lt \<le> LIFETIME_DIFF_NOT_GOOD"
  by (auto simp: GetLifeTimeDiff_def LIFETIME_DIFF_COULD_BE_WORSE_def LIFETIME_DIFF_NOT_GOOD_def)

lemma lifetime_none:
  assumes "distinct (io_zones s)" "\<forall>z \<in> set (io_zones s). z_lifetime (zone_at s z) \<le> WLTH_EXTREME"
    and "MatchLifetimeBased lt diff zone c s = ((st, d, None), s')"
  shows "\<not> (\<exists>z \<in> set (io_zones s). \<not> z_busy (zone_at s z) \<and> eligible c (zone_at s z))"
proof
  assume "\<exists>z \<in> set (io_zones s). \<not> z_busy (zone_at s z) \<and> eligible c (zone_at s z)"
  then obtain z where z: "z \<in> set (io_zones s)" "scan_cand (zone_at s) (eligible c) z" by (auto simp: scan_cand_def)
  then have "LIFETIME_DIFF_NOT_GOOD < GetLifeTimeDiff (z_lifetime (zone_at s z)) lt"
    using lifetime_match_cases [OF assms(1,3)] by auto
  moreover have "GetLifeTimeDiff (z_lifetime (zone_at s z)) lt \<le> LIFETIME_DIFF_NOT_GOOD"
    using assms(2) z(1) by (intro lifetime_diff_bound) auto
  ultimately show False by simp
qed



section \<open>Contributions are byte counts\<close>

text \<open>The bytes of the given files in the zone that starts at \<open>p\<close>.\<close>

definition bytes_in_zone :: "fid list \<Rightarrow> ('b, 'm) zbd_scheme \<Rightarrow> nat \<Rightarrow> nat" where
  "bytes_in_zone fs s p = sum_list (map (\<lambda>f. sum_list (map e_length
     (filter (\<lambda>e. z_start (zone_at s (e_zone e)) = p) (f_extents (file_at s f))))) fs)"

lemma add_extent_exact:
  "m (x_zone_start x) + x_length x < 2 ^ 53 \<Longrightarrow>
   add_extent_contribution 1 m x = m(x_zone_start x := m (x_zone_start x) + x_length x)"
  using nat_of_d_of_nat [of "m (x_zone_start x) + x_length x"]
  by (simp add: add_extent_contribution_def del: nat_of_d_of_nat)

lemma foldl_extents_exact:
  assumes "\<And>p. m p + sum_list (map x_length (filter (\<lambda>x. x_zone_start x = p) xs)) < 2 ^ 53"
  shows "foldl (add_extent_contribution 1) m xs p = m p + sum_list (map x_length (filter (\<lambda>x. x_zone_start x = p) xs))"
  using assms
proof (induction xs arbitrary: m)
  case (Cons x xs)
  have "m (x_zone_start x) + x_length x < 2 ^ 53" using Cons.prems [of "x_zone_start x"] by simp
  note eq = add_extent_exact [of m x, OF this]
  define m' where "m' = add_extent_contribution 1 m x"
  have m': "m' q = m q + (if x_zone_start x = q then x_length x else 0)" for q
    by (simp add: m'_def eq)
  have "m' q + sum_list (map x_length (filter (\<lambda>x. x_zone_start x = q) xs)) < 2 ^ 53" for q
    using Cons.prems [of q] by (simp add: m' split: if_splits)
  note ih = Cons.IH [of m', OF this]
  show ?case unfolding foldl_Cons m'_def [symmetric] ih m' by simp
qed simp

lemma snapshot_extents:
  "sum_list (map x_length (filter (\<lambda>x. x_zone_start x = p) (fs_extents (file_snapshot f s)))) = bytes_in_zone [f] s p"
  by (simp add: file_snapshot_def Let_def bytes_in_zone_def filter_map o_def extent_snapshot_def)

lemma contributions_exact:
  assumes "\<And>p. m p + bytes_in_zone fs s p < 2 ^ 53"
  shows "GetPerZoneContributions fs 1 m s p = m p + bytes_in_zone fs s p"
  using assms
proof (induction fs arbitrary: m)
  case (Cons f fs)
  have split: "bytes_in_zone (f # fs) s q = bytes_in_zone [f] s q + bytes_in_zone fs s q" for q
    by (simp add: bytes_in_zone_def)
  have "m q + bytes_in_zone [f] s q < 2 ^ 53" for q
    using Cons.prems [of q] unfolding split by linarith
  then have one: "GetPerZoneContribution f 1 m s q = m q + bytes_in_zone [f] s q" for q
    unfolding GetPerZoneContribution_def by (subst foldl_extents_exact) (simp_all add: snapshot_extents)
  define m' where "m' = GetPerZoneContribution f 1 m s"
  have "m' q + bytes_in_zone fs s q < 2 ^ 53" for q
    using Cons.prems [of q] by (simp add: m'_def one split)
  from Cons.IH [of m', OF this] show ?case
    by (simp add: GetPerZoneContributions_def m'_def [symmetric] split) (simp add: m'_def one)
qed (simp add: GetPerZoneContributions_def bytes_in_zone_def)

lemma highest_contrib_cases:
  assumes "distinct (io_zones s)" "ChooseZoneWithHighestContrib None 0 m c s = ((st, a, b), s')"
  defines "g \<equiv> \<lambda>z. m (z_start (zone_at s z))"
  shows "a = None \<and> (\<forall>z \<in> set (io_zones s). scan_cand (zone_at s) (eligible c) z \<longrightarrow> g z = 0) \<or>
    (\<exists>z. a = Some z \<and> first_greatest (scan_cand (zone_at s) (eligible c)) g 0 (io_zones s) z)"
proof -
  let ?p = "pick (eligible c) (\<lambda>z. z) (\<lambda>_ x. m (z_start x)) (>) (zone_at s) (io_zones s) None 0"
  have "ChooseZoneWithHighestContrib None 0 m c s = ((OK, ?p), hold (fst ?p) s)"
    using contrib_scan.match_loop_hold [of None s c "\<lambda>z. z" m "(>)" "io_zones s" 0]
    by (simp add: ChooseZoneWithHighestContrib_def)
  then have "?p = (a, b)" using assms(2) by simp
  from pick_greatest [OF this] assms(1) show ?thesis unfolding g_def by auto
qed


definition caza_dev :: "(nat \<Rightarrow> char) zbdlib zbd" where
  "caza_dev = open_dev\<lparr>zenfs_parameters := (zenfs_parameters open_dev)\<lparr>upper_level_policy := KCAZA\<rparr>\<rparr>"

lemma caza_dev_files: "caza_files 3 caza_dev = [1, 2]"
  by (simp add: caza_files_def caza_dev_def open_dev_eval uses_policy_def GetPolicy_def GetSecondaryPolicy_def
      GetOverlappingFiles_def valid_level_def IsOverlapping_def ord_def)


text \<open>
  C11. Choosing an open zone for a file (no zone held before): if the choice returns, it succeeds
  and the state of the zones differs only in the busy flag of the zone chosen, which was free, in
  use, not full and, for table files with key information, has room for \<open>min_capacity\<close> bytes. No zone
  is returned only if no free I/O zone qualifies.
\<close>

theorem best_match_correct:
  assumes "GetBestOpenZoneMatch E f lt diff None c s = Some ((st, d, z'), s')" "distinct (io_zones s)"
    and "\<forall>z \<in> set (io_zones s). z_lifetime (zone_at s z) \<le> WLTH_EXTREME"
  defines "c' \<equiv> (if has_placement_info (file_at s f) then c else 0)"
  shows "st = OK \<and> zone_at s' = zone_at (hold z' s) \<and> be s' = be s \<and> active_io_zones s' = active_io_zones s \<and>
    open_io_zones s' = open_io_zones s \<and>
    (\<forall>z. z' = Some z \<longrightarrow> \<not> z_busy (zone_at s z) \<and> IsUsed (zone_at s z) \<and> \<not> IsFull (zone_at s z) \<and>
       c' \<le> GetCapacityLeft (zone_at s z)) \<and>
    (z' = None \<longrightarrow> \<not> (\<exists>z \<in> set (io_zones s). \<not> z_busy (zone_at s z) \<and> eligible c' (zone_at s z)))"
proof -
  note m = best_match_ok [OF assms(1), folded c'_def]
  have st: "st = OK" and core: "core s' = core (hold z' s)" and f: "\<forall>y. z' = Some y \<longrightarrow> fits c' s y"
    using m by (simp_all add: match_ok_None)
  have "\<not> (\<exists>z \<in> set (io_zones s). \<not> z_busy (zone_at s z) \<and> eligible c' (zone_at s z))" if none: "z' = None"
  proof -
    obtain d' s2 where c2: "core s2 = core s" and z: "snd (snd (fst (MatchLifetimeBased lt d' None c' s2))) = None"
      using m none by auto
    obtain st2 d2 z2 s3 where r: "MatchLifetimeBased lt d' None c' s2 = ((st2, d2, z2), s3)" by (metis prod.exhaust)
    then have l: "MatchLifetimeBased lt d' None c' s2 = ((st2, d2, None), s3)" using z by simp
    from lifetime_none [OF _ _ l] assms(2,3) core_eqD [OF c2] show ?thesis by simp
  qed
  then show ?thesis
    using st core_eqD [OF core] f by (auto simp: fits_def eligible_def IsUsed_def GetCapacityLeft_def)
qed

theorem best_match_correct_witness:
  "\<exists>d s'. GetBestOpenZoneMatch mem_env 3 WLTH_MEDIUM 100 None 0 caza_dev = Some ((OK, d, Some 3), s') \<and>
     zone_at s' = zone_at (hold (Some 3) caza_dev) \<and> be s' = be caza_dev"
proof -
  have h: "distinct (io_zones caza_dev)" "\<forall>z \<in> set (io_zones caza_dev). z_lifetime (zone_at caza_dev z) \<le> WLTH_EXTREME"
    by (simp_all add: caza_dev_def open_dev_eval)
  let ?s = "caza_dev\<lparr>alloc_count := alloc_count caza_dev + 1\<rparr>"
  have d: "nat_of_d (d_add 0 (d_mul 1 8)) = 8" "nat_of_d (d_add 0 (d_mul 1 4)) = 4"
    using d_mul_one [of 8] d_mul_one [of 4] d_add_exact [of 0 8] d_add_exact [of 0 4]
      nat_of_d_of_nat [of 8] nat_of_d_of_nat [of 4] by simp_all
  have "\<exists>d s'. MatchCAZA 3 100 None 0 ?s = ((OK, d, Some 3), s')"
    by (simp add: d MatchCAZA_def caza_files_def caza_dev_def open_dev_eval uses_policy_def GetPolicy_def
        GetSecondaryPolicy_def GetOverlappingFiles_def valid_level_def IsOverlapping_def ord_def
        GetPerZoneContributions_def GetPerZoneContribution_def add_extent_contribution_def file_snapshot_def
        extent_snapshot_def Let_def ChooseZoneWithHighestContrib_def Acquire_def eligible_def IsFull_def
        CheckRelease_def Release_def store_found_def)
  moreover have "has_placement_info (file_at caza_dev 3)" "GetPolicy (f_level (file_at caza_dev 3)) (zenfs_parameters caza_dev) = KCAZA"
    by (simp_all add: caza_dev_def open_dev_eval has_placement_info_def GetPolicy_def)
  ultimately obtain d s' where run: "GetBestOpenZoneMatch mem_env 3 WLTH_MEDIUM 100 None 0 caza_dev = Some ((OK, d, Some 3), s')"
    by (auto simp: GetBestOpenZoneMatch_def Let_def run_policy_def)
  from best_match_correct [OF run h] run show ?thesis by blast
qed

end
