(* ===== verification/Alloc.thy ===== *)
theory Alloc
  imports Policies
begin

text \<open>
  The allocation of I/O zones (\<open>AllocateIOZone\<close>, \<open>TakeMigrateZone\<close> and \<open>ReleaseMigrateZone\<close> in
  \<open>zbd_zenfs.cc\<close>): an open zone chosen by the policies, or an empty one within the limits on open and
  active zones. \<open>None\<close> is an allocation that does not return.
\<close>

section \<open>Allocating a zone\<close>

text \<open>
  Finishing zones until an active-zone token is available. When there is no zone to finish,
  \<open>FinishCheapestIOZone\<close> reports success without freeing a token and the loop goes on for ever.
\<close>

partial_function (option) active_token_loop :: "'b env \<Rightarrow> ('b, 'm) zbd_scheme \<Rightarrow>
    (status \<times> ('b, 'm) zbd_scheme) option" where
  "active_token_loop E s = (case GetActiveIOZoneTokenIfAvailable s of (got, s) \<Rightarrow>
     if got then Some (OK, s)
     else case FinishCheapestIOZone E s of (st, s) \<Rightarrow>
       if st \<noteq> OK then Some (st, s) else active_token_loop E s)"

text \<open>A match that is not good enough is given back when an empty zone may be opened instead.\<close>

definition relax_match :: "bool \<Rightarrow> nat \<Rightarrow> zid option \<Rightarrow> ('b, 'm) zbd_scheme \<Rightarrow>
    (status \<times> zid option) \<times> ('b, 'm) zbd_scheme" where
  "relax_match got best_diff allocated s = (case allocated of
      None \<Rightarrow> ((OK, None), s)
    | Some z \<Rightarrow>
        if \<not> got \<and> best_diff = LIFETIME_DIFF_COULD_BE_WORSE then ((OK, Some z), s)
        else if GetEmptyZoneCount s > reserve_zone_count (zenfs_parameters s) then
          let (st, s) = CheckRelease z s in
          if st \<noteq> OK then
            let s = PutOpenIOZoneToken s in ((st, None), if got then PutActiveIOZoneToken s else s)
          else ((OK, None), s)
        else ((OK, Some z), if got then PutActiveIOZoneToken s else s))"

definition open_new_zone :: "'b env \<Rightarrow> nat \<Rightarrow> fid \<Rightarrow> bool \<Rightarrow> ('b, 'm) zbd_scheme \<Rightarrow>
    ((status \<times> zid option) \<times> ('b, 'm) zbd_scheme) option" where
  "open_new_zone E lifetime f got s = do {
     (st, s) \<leftarrow> (if got then Some (OK, s) else active_token_loop E s);
     if st \<noteq> OK then Some ((st, None), PutOpenIOZoneToken s) else do {
       let level = f_level (file_at s f);
       ((st, allocated), s) \<leftarrow> AllocateEmptyZone E level s;
       if st \<noteq> OK then Some ((st, None), PutOpenIOZoneToken (PutActiveIOZoneToken s))
       else case allocated of
         None \<Rightarrow> Some ((OK, None), PutActiveIOZoneToken s)
       | Some z \<Rightarrow>
           let s = zone_upd z (\<lambda>x. x\<lparr>z_lifetime := lifetime, z_policy := GetPolicy level (zenfs_parameters s),
                     z_level := level\<rparr>) s
           in Some ((OK, Some z), if need_flag s then s\<lparr>nearest_got_new := nearest_got_new s + 1\<rparr> else s)
     }
   }"

text \<open>The part after a successful match: keep the zone, or open a new one.\<close>

definition settle_zone :: "'b env \<Rightarrow> nat \<Rightarrow> fid \<Rightarrow> nat \<Rightarrow> zid option \<Rightarrow> ('b, 'm) zbd_scheme \<Rightarrow>
    ((status \<times> zid option) \<times> ('b, 'm) zbd_scheme) option" where
  "settle_zone E lifetime f best_diff allocated s = do {
     ((st, allocated), s) \<leftarrow>
       (if best_diff < LIFETIME_DIFF_COULD_BE_WORSE then Some ((OK, allocated), s) else
        let (got, s) = GetActiveIOZoneTokenIfAvailable s;
            ((st, allocated), s) = relax_match got best_diff allocated s in
        if st \<noteq> OK then Some ((st, None), s)
        else if allocated \<noteq> None then Some ((OK, allocated), s)
        else open_new_zone E lifetime f got s);
     if st \<noteq> OK then Some ((st, None), s)
     else Some ((OK, allocated), if allocated = None then PutOpenIOZoneToken s else s)
   }"

text \<open>On an error \<open>*out_zone\<close> is not written, which the result shows as \<open>None\<close>.\<close>

definition AllocateIOZone :: "'b env \<Rightarrow> nat \<Rightarrow> io_type \<Rightarrow> fid \<Rightarrow> ('b, 'm) zbd_scheme \<Rightarrow>
    ((status \<times> zid option) \<times> ('b, 'm) zbd_scheme) option" where
  "AllocateIOZone E lifetime io f s =
    (let level = f_level (file_at s f); p = zenfs_parameters s;
         s = (if level > int (max_level p) then s\<lparr>zenfs_parameters := p\<lparr>max_level := nat level mod 256\<rparr>\<rparr> else s);
         s = s\<lparr>need_flag := False\<rparr>; st = GetZoneDeferredStatus s in
     if st \<noteq> OK then Some ((st, None), s) else
     let (st, s) = (if io \<noteq> KWAL then ApplyFinishThreshold E s else (OK, s)) in
     if st \<noteq> OK then Some ((st, None), s) else do {
       s \<leftarrow> WaitForOpenIOZoneToken (io = KWAL) s;
       ((st, best_diff, allocated), s) \<leftarrow> GetBestOpenZoneMatch E f lifetime LIFETIME_DIFF_NOT_GOOD None
         (if fragmentation_enabled (zenfs_parameters s) \<noteq> 0 then 0 else cast32 (f_alloc_size (file_at s f))) s;
       if st \<noteq> OK then Some ((st, None), PutOpenIOZoneToken s)
       else settle_zone E lifetime f best_diff allocated s
     })"

section \<open>Zones for migration\<close>

text \<open>
  The log line after the allocation reads \<open>*out_zone\<close>, so an allocation that finds no zone does not
  survive. The value of \<open>migrating_\<close> is awaited before.
\<close>

definition ReleaseMigrateZone :: "zid option \<Rightarrow> ('b, 'm) zbd_scheme \<Rightarrow> status \<times> ('b, 'm) zbd_scheme" where
  "ReleaseMigrateZone zone s = (let s = s\<lparr>migrating := False\<rparr> in
     case zone of None \<Rightarrow> (OK, s) | Some z \<Rightarrow> CheckRelease z s)"

definition TakeMigrateZone :: "'b env \<Rightarrow> zid option \<Rightarrow> fid \<Rightarrow> nat \<Rightarrow> nat \<Rightarrow> ('b, 'm) zbd_scheme \<Rightarrow>
    ((status \<times> zid option \<times> bool) \<times> ('b, 'm) zbd_scheme) option" where
  "TakeMigrateZone E out_zone f lifetime min_capacity s =
    (if migrating s then None else do {
       let s = s\<lparr>migrating := True\<rparr>;
       ((st, _, out_zone), s) \<leftarrow> GetBestOpenZoneMatch E f lifetime LIFETIME_DIFF_NOT_GOOD out_zone min_capacity s;
       if st = OK \<and> out_zone \<noteq> None then Some ((st, out_zone, False), s) else
       let (got, s) = (if GetEmptyZoneCount s > 0 then GetActiveIOZoneTokenIfAvailable s else (False, s)) in
       if got then do {
         ((_, out_zone), s) \<leftarrow> AllocateEmptyZone E (f_level (file_at s f)) s;
         if out_zone = None then None else Some ((st, out_zone, True), s)
       }
       else Some ((st, out_zone, False), s\<lparr>migrating := False\<rparr>)
     })"

section \<open>Counting active zones\<close>

text \<open>
  Between operations an I/O zone holds an active-zone token when it is in use by a writer or
  partly written. \<open>token_balance\<close> is zero when the counter agrees with that.
\<close>

definition counted :: "zone \<Rightarrow> bool" where
  "counted x \<longleftrightarrow> z_busy x \<or> \<not> IsEmpty x \<and> \<not> IsFull x"

definition active_count :: "('b, 'm) zbd_scheme \<Rightarrow> int" where
  "active_count s = (\<Sum>z \<in> set (io_zones s). of_bool (counted (zone_at s z)))"

definition token_balance :: "('b, 'm) zbd_scheme \<Rightarrow> int" where
  "token_balance s = active_io_zones s - active_count s"

lemma active_count_upd:
  "active_count (s\<lparr>zone_at := (zone_at s)(z := x)\<rparr>) = active_count s +
     (if z \<in> set (io_zones s) then of_bool (counted x) - of_bool (counted (zone_at s z)) else 0)"
proof (cases "z \<in> set (io_zones s)")
  case True
  have "(\<Sum>y \<in> set (io_zones s) - {z}. of_bool (counted (((zone_at s)(z := x)) y))) =
      (\<Sum>y \<in> set (io_zones s) - {z}. of_bool (counted (zone_at s y)) :: int)"
    by (rule sum.cong) auto
  then show ?thesis
    using True unfolding active_count_def by (simp add: sum.remove [OF finite_set True] del: sum_of_bool_eq)
next
  case False
  then show ?thesis unfolding active_count_def by (auto simp del: sum_of_bool_eq intro!: sum.cong)
qed

lemma active_count_cong:
  "io_zones s' = io_zones s \<Longrightarrow> (\<And>z. z \<in> set (io_zones s) \<Longrightarrow> counted (zone_at s' z) = counted (zone_at s z)) \<Longrightarrow>
   active_count s' = active_count s"
  by (simp add: active_count_def)

section \<open>Finishing zones\<close>

definition finished :: "'b env \<Rightarrow> zone \<Rightarrow> zone" where
  "finished E x = x\<lparr>z_capacity := 0, z_wp := add64 (z_start x) (zone_sz E), z_finish_count := cast32 (z_finish_count x + 1)\<rparr>"

text \<open>
  What the upkeep of the allocator leaves alone: zones either stay as they are or, if they were
  free and not empty, become full; the data, the open tokens and the token balance do not change.
\<close>

definition zone_keep :: "'b env \<Rightarrow> zone \<Rightarrow> zone \<Rightarrow> bool" where
  "zone_keep E x y \<longleftrightarrow> y = x \<or> \<not> z_busy x \<and> \<not> z_busy y \<and> \<not> IsEmpty x \<and> z_start y = z_start x \<and>
     z_used_capacity y = z_used_capacity x \<and> z_max_capacity y = z_max_capacity x \<and> z_lifetime y = z_lifetime x \<and>
     z_capacity y = 0 \<and> z_wp y = add64 (z_start x) (zone_sz E)"

definition upkeep :: "'b env \<Rightarrow> ('b \<Rightarrow> nat \<Rightarrow> char) \<Rightarrow> ('b, 'm) zbd_scheme \<Rightarrow> ('b, 'm) zbd_scheme \<Rightarrow> bool" where
  "upkeep E cont s s' \<longleftrightarrow> io_zones s' = io_zones s \<and> zone_start_to_pointer s' = zone_start_to_pointer s \<and>
     open_io_zones s' = open_io_zones s \<and> max_nr_active_io_zones s' = max_nr_active_io_zones s \<and>
     max_nr_open_io_zones s' = max_nr_open_io_zones s \<and> file_at s' = file_at s \<and>
     zenfs_parameters s' = zenfs_parameters s \<and> seq_zone_pos s' = seq_zone_pos s \<and>
     token_balance s' = token_balance s \<and> active_io_zones s' \<le> active_io_zones s \<and> cont (be s') = cont (be s) \<and>
     bytes_written s' = bytes_written s \<and> meta_zones s' = meta_zones s \<and> zbd.more s' = zbd.more s \<and> (\<forall>z. zone_keep E (zone_at s z) (zone_at s' z)) \<and> (\<forall>z. z \<notin> set (io_zones s) \<longrightarrow> zone_at s' z = zone_at s z)"

lemma zone_keep_refl [simp]: "zone_keep E x x"
  by (simp add: zone_keep_def)

lemma zone_keep_trans: "zone_keep E x y \<Longrightarrow> zone_keep E y z \<Longrightarrow> zone_keep E x z"
  by (auto simp: zone_keep_def)

lemma upkeep_refl [simp]: "upkeep E cont s s"
  by (simp add: upkeep_def)

lemma upkeep_trans: "upkeep E cont s s' \<Longrightarrow> upkeep E cont s' s'' \<Longrightarrow> upkeep E cont s s''"
  unfolding upkeep_def by (intro conjI allI) (auto intro: zone_keep_trans)

lemma finished_sel [simp]:
  "z_busy (finished E x) = z_busy x" "z_start (finished E x) = z_start x" "z_used_capacity (finished E x) = z_used_capacity x"
  "z_max_capacity (finished E x) = z_max_capacity x" "z_lifetime (finished E x) = z_lifetime x" "IsFull (finished E x)"
  by (simp_all add: finished_def IsFull_def)

lemma keep_finished: "\<not> z_busy x \<Longrightarrow> \<not> IsEmpty x \<Longrightarrow> zone_keep E x (finished E x)"
  by (simp add: zone_keep_def finished_def)

lemma finish_release:
  assumes "free_in s z" "be_finish E (z_start (zone_at s z)) (be s) = (st, b)"
  obtains t where "Zone_Finish E z (hold (Some z) s) = (st, t)"
    "CheckRelease z t = (OK, if st = OK then zone_upd z (finished E) (s\<lparr>be := b\<rparr>) else s\<lparr>be := b\<rparr>)"
    "snd (Release z t) = (if st = OK then zone_upd z (finished E) (s\<lparr>be := b\<rparr>) else s\<lparr>be := b\<rparr>)"
proof -
  let ?h = "(hold (Some z) s)\<lparr>be := b\<rparr>"
  define t where "t = (if st = OK then zone_upd z (finished E) ?h else ?h)"
  have "Zone_Finish E z (hold (Some z) s) = (st, t)"
    using assms by (simp add: Zone_Finish_def t_def zone_at_hold finished_def Let_def)
  moreover have "Release z t = (True, if st = OK then zone_upd z (finished E) (s\<lparr>be := b\<rparr>) else s\<lparr>be := b\<rparr>)"
    using assms(1) by (simp add: Release_def t_def hold_def finished_def busy_roundtrip fun_upd_idem)
  ultimately show thesis using that [of t] by (simp add: CheckRelease_def)
qed

text \<open>The zone \<open>FinishCheapestIOZone\<close> chooses.\<close>

definition cheapest_zone :: "('b, 'm) zbd_scheme \<Rightarrow> zid option" where
  "cheapest_zone s = keep_best (\<lambda>x. \<not> (IsEmpty x \<or> IsFull x)) (\<lambda>y x. z_capacity y > z_capacity x) (zone_at s) (io_zones s) None"

lemma cheapest_zone_SomeD:
  assumes "cheapest_zone s = Some z"
  shows "z \<in> set (io_zones s)" "free_in s z" "\<not> IsEmpty (zone_at s z)" "\<not> IsFull (zone_at s z)"
    "y \<in> set (io_zones s) \<Longrightarrow> free_in s y \<Longrightarrow> \<not> IsEmpty (zone_at s y) \<Longrightarrow> \<not> IsFull (zone_at s y) \<Longrightarrow>
     z_capacity (zone_at s z) \<le> z_capacity (zone_at s y)"
  using keep_best_least [where f = z_capacity, OF assms [unfolded cheapest_zone_def]]
  by (auto simp: scan_cand_def)

lemma cheapest_zone_None:
  "cheapest_zone s = None \<longleftrightarrow> (\<forall>z \<in> set (io_zones s). z_busy (zone_at s z) \<or> IsEmpty (zone_at s z) \<or> IsFull (zone_at s z))"
  by (auto simp: cheapest_zone_def keep_best_None scan_cand_def)

lemma victim_eq: "finish_victim_loop (io_zones s) None s = ((OK, cheapest_zone s), hold (cheapest_zone s) s)"
  using finish_victim_hold [of None s "io_zones s"] unfolding cheapest_zone_def by simp

lemma finish_cheapest_eq:
  "FinishCheapestIOZone E s = (case cheapest_zone s of None \<Rightarrow> (OK, s)
     | Some z \<Rightarrow> let s1 = s\<lparr>finish_bytes_written := add64 (finish_bytes_written s) (z_capacity (zone_at s z))\<rparr>;
         (st, b) = be_finish E (z_start (zone_at s z)) (be s)
       in (st, if st = OK then PutActiveIOZoneToken (zone_upd z (finished E) (s1\<lparr>be := b\<rparr>)) else s1\<lparr>be := b\<rparr>))"
proof (cases "cheapest_zone s")
  case None
  then show ?thesis by (simp add: FinishCheapestIOZone_def victim_eq)
next
  case (Some z)
  let ?s1 = "s\<lparr>finish_bytes_written := add64 (finish_bytes_written s) (z_capacity (zone_at s z))\<rparr>"
  obtain st b where f: "be_finish E (z_start (zone_at ?s1 z)) (be ?s1) = (st, b)" by force
  have free: "free_in ?s1 z" using cheapest_zone_SomeD(2) [OF Some] by simp
  have h: "(hold (Some z) s)\<lparr>finish_bytes_written := add64 (finish_bytes_written (hold (Some z) s)) (z_capacity (zone_at (hold (Some z) s) z))\<rparr> =
      hold (Some z) ?s1" by (simp add: hold_def)
  obtain t where "Zone_Finish E z (hold (Some z) ?s1) = (st, t)"
    "CheckRelease z t = (OK, if st = OK then zone_upd z (finished E) (?s1\<lparr>be := b\<rparr>) else ?s1\<lparr>be := b\<rparr>)"
    using finish_release [OF free f] by blast
  then show ?thesis
    using f by (simp add: FinishCheapestIOZone_def victim_eq Some h Let_def)
qed

context zoned_backend
begin

lemma upkeep_be: "be_finish E p (be s) = (st, b) \<Longrightarrow> upkeep E cont s (s\<lparr>be := b\<rparr>)"
  by (simp add: upkeep_def token_balance_def active_count_def finish_frame)

lemma upkeep_finish:
  assumes "be_finish E p (be s) = (st, b)" "z \<in> set (io_zones s)" "free_in s z"
    "\<not> IsEmpty (zone_at s z)" "\<not> IsFull (zone_at s z)"
  shows "upkeep E cont s (PutActiveIOZoneToken (zone_upd z (finished E) (s\<lparr>be := b\<rparr>)))"
proof -
  have c: "active_count (s\<lparr>zone_at := (zone_at s)(z := finished E (zone_at s z))\<rparr>) = active_count s - 1"
    using assms(2-5) by (simp add: active_count_upd counted_def)
  have "active_count (PutActiveIOZoneToken (zone_upd z (finished E) (s\<lparr>be := b\<rparr>))) = active_count s - 1"
    unfolding c [symmetric] by (rule active_count_cong) (simp_all add: PutActiveIOZoneToken_def)
  then show ?thesis
    using assms finish_frame [OF assms(1)] keep_finished
    by (auto simp: upkeep_def token_balance_def PutActiveIOZoneToken_def)
qed

lemma upkeep_threshold_loop:
  assumes "set zs \<subseteq> set (io_zones s)"
  shows "upkeep E cont s (snd (finish_threshold_loop E zs s))"
  using assms
proof (induction zs arbitrary: s)
  case (Cons z zs)
  show ?case
  proof (cases "z_busy (zone_at s z)")
    case True
    then show ?thesis using Cons by (simp add: Acquire_busy)
  next
    case free: False
    let ?x = "zone_at s z"
    show ?thesis
    proof (cases "\<not> (IsEmpty ?x \<or> IsFull ?x) \<and> z_capacity ?x < mul64 (z_max_capacity ?x) (finish_threshold s) div 100")
      case True
      obtain st b where f: "be_finish E (z_start ?x) (be s) = (st, b)" by force
      obtain t where t: "Zone_Finish E z (hold (Some z) s) = (st, t)"
        "CheckRelease z t = (OK, if st = OK then zone_upd z (finished E) (s\<lparr>be := b\<rparr>) else s\<lparr>be := b\<rparr>)"
        "snd (Release z t) = (if st = OK then zone_upd z (finished E) (s\<lparr>be := b\<rparr>) else s\<lparr>be := b\<rparr>)"
        using finish_release [OF free f] .
      have thr: "finish_threshold (hold (Some z) s) = finish_threshold s" by (simp add: hold_def)
      show ?thesis
      proof (cases "st = OK")
        case ok: True
        let ?s = "PutActiveIOZoneToken (zone_upd z (finished E) (s\<lparr>be := b\<rparr>))"
        have u: "upkeep E cont s ?s" using upkeep_finish [OF f] Cons.prems free True by auto
        have "upkeep E cont ?s (snd (finish_threshold_loop E zs ?s))"
          using Cons.prems by (intro Cons.IH) (simp add: PutActiveIOZoneToken_def)
        from upkeep_trans [OF u this] show ?thesis
          using True ok free t thr by (simp add: scan_simps Let_def)
      next
        case False
        then show ?thesis using True free t thr upkeep_be [OF f] by (simp add: scan_simps Let_def)
      qed
    next
      case False
      have thr: "finish_threshold (hold (Some z) s) = finish_threshold s" by (simp add: hold_def)
      show ?thesis using False free Cons thr by (auto simp: scan_simps Let_def)
    qed
  qed
qed simp

lemma upkeep_threshold: "upkeep E cont s (snd (ApplyFinishThreshold E s))"
  by (simp add: ApplyFinishThreshold_def upkeep_threshold_loop)

lemma upkeep_cheapest: "upkeep E cont s (snd (FinishCheapestIOZone E s))"
proof (cases "cheapest_zone s")
  case None
  then show ?thesis by (simp add: finish_cheapest_eq)
next
  case (Some z)
  let ?s1 = "s\<lparr>finish_bytes_written := add64 (finish_bytes_written s) (z_capacity (zone_at s z))\<rparr>"
  obtain st b where f: "be_finish E (z_start (zone_at ?s1 z)) (be ?s1) = (st, b)" by force
  have 0: "upkeep E cont s ?s1" by (simp add: upkeep_def token_balance_def active_count_def)
  have "upkeep E cont ?s1 (PutActiveIOZoneToken (zone_upd z (finished E) (?s1\<lparr>be := b\<rparr>)))"
    using cheapest_zone_SomeD [OF Some] by (intro upkeep_finish [OF f]) simp_all
  from upkeep_trans [OF 0 this] upkeep_trans [OF 0 upkeep_be [OF f]] f show ?thesis
    by (simp add: finish_cheapest_eq Some Let_def)
qed

lemma token_loop_result:
  fixes s :: "('b, 'm) zbd_scheme"
  assumes "active_token_loop E s = Some r"
  shows "case r of (st, s') \<Rightarrow> if st = OK
    then \<exists>s1. upkeep E cont s s1 \<and> active_io_zones s1 < int (max_nr_active_io_zones s1) \<and>
      s' = s1\<lparr>active_io_zones := active_io_zones s1 + 1\<rparr>
    else upkeep E cont s s'"
proof -
  define Q where "Q s r \<longleftrightarrow> (case r of (st, s') \<Rightarrow> if st = OK
    then \<exists>s1. upkeep E cont s s1 \<and> active_io_zones s1 < int (max_nr_active_io_zones s1) \<and>
      s' = s1\<lparr>active_io_zones := active_io_zones s1 + 1\<rparr>
    else upkeep E cont s s')" for s :: "('b, 'm) zbd_scheme" and r
  have trans: "Q s r" if "upkeep E cont s s1" "Q s1 r" for s s1 r
    using that upkeep_trans unfolding Q_def by (auto split: if_splits) blast+
  have "E = E \<longrightarrow> Q s r"
  proof (rule active_token_loop.raw_induct [where P = "\<lambda>E' s r. E' = E \<longrightarrow> Q s r", OF _ assms], goal_cases)
    case (1 loop E' s r)
    obtain st s1 where c: "FinishCheapestIOZone E s = (st, s1)" by force
    then have u: "upkeep E cont s s1" using upkeep_cheapest [of s] by simp
    show ?case
    proof
      assume E: "E' = E"
      show "Q s r"
      proof (cases "active_io_zones s < int (max_nr_active_io_zones s)")
        case True
        then have "r = (OK, s\<lparr>active_io_zones := active_io_zones s + 1\<rparr>)"
          using 1(2) by (simp add: GetActiveIOZoneTokenIfAvailable_def)
        then show ?thesis using True unfolding Q_def by (auto intro: exI [of _ s])
      next
        case False
        then have "st \<noteq> OK \<and> r = (st, s1) \<or> loop E s1 = Some r"
          using 1(2) c E by (simp add: GetActiveIOZoneTokenIfAvailable_def split: if_splits)
        then show ?thesis
        proof
          assume "loop E s1 = Some r"
          then have "Q s1 r" using 1(1) by blast
          then show ?thesis by (rule trans [OF u])
        qed (use u in \<open>simp add: Q_def\<close>)
      qed
    qed
  qed
  then show ?thesis unfolding Q_def by blast
qed

text \<open>The loop ends after one round if the counter is within its limit and there is a zone to finish.\<close>

lemma token_loop_returns:
  assumes "active_io_zones s \<le> int (max_nr_active_io_zones s)"
    and "active_io_zones s < int (max_nr_active_io_zones s) \<or> cheapest_zone s \<noteq> None"
  shows "\<exists>r. active_token_loop E s = Some r"
proof (cases "active_io_zones s < int (max_nr_active_io_zones s)")
  case True
  then show ?thesis by (subst active_token_loop.simps) (simp add: GetActiveIOZoneTokenIfAvailable_def)
next
  case False
  with assms obtain z where z: "cheapest_zone s = Some z" by auto
  obtain st s1 where c: "FinishCheapestIOZone E s = (st, s1)" by force
  have "active_io_zones s1 < int (max_nr_active_io_zones s1)" if "st = OK"
    using c z that assms(1) by (auto simp: finish_cheapest_eq Let_def PutActiveIOZoneToken_def split: prod.splits)
  then have "\<exists>r. active_token_loop E s1 = Some r" if "st = OK"
    using that by (subst active_token_loop.simps) (simp add: GetActiveIOZoneTokenIfAvailable_def)
  then show ?thesis
    using False c by (subst active_token_loop.simps) (simp add: GetActiveIOZoneTokenIfAvailable_def)
qed

end

lemma token_loop_diverges:
  assumes "active_token_loop E s = Some r" "cheapest_zone s = None" "int (max_nr_active_io_zones s) \<le> active_io_zones s"
  shows False
proof -
  have "cheapest_zone s = None \<longrightarrow> int (max_nr_active_io_zones s) \<le> active_io_zones s \<longrightarrow> False"
  proof (rule active_token_loop.raw_induct [where P = "\<lambda>E s r. cheapest_zone s = None \<longrightarrow>
      int (max_nr_active_io_zones s) \<le> active_io_zones s \<longrightarrow> False", OF _ assms(1)], goal_cases)
    case (1 loop E s r)
    show ?case using 1(1) [of E s r] 1(2) by (cases r) (auto simp: GetActiveIOZoneTokenIfAvailable_def finish_cheapest_eq)
  qed
  then show ?thesis using assms by blast
qed

section \<open>Well-formed devices\<close>

text \<open>
  The I/O zones are distinct and well formed, a zone with valid data is not empty, and only I/O
  zones hold file data.
\<close>

definition dev_inv :: "'b env \<Rightarrow> ('b, 'm) zbd_scheme \<Rightarrow> bool" where
  "dev_inv E s \<longleftrightarrow> 0 < zone_sz E \<and> distinct (io_zones s) \<and>
     (\<forall>z \<in> set (io_zones s). zone_wf E (zone_at s z) \<and> (IsUsed (zone_at s z) \<longrightarrow> \<not> IsEmpty (zone_at s z))) \<and>
     (\<forall>z \<in> ran (zone_start_to_pointer s). IsUsed (zone_at s z) \<longrightarrow> z \<in> set (io_zones s))"

lemma zone_keep_sel:
  "zone_keep E x y \<Longrightarrow> z_busy y = z_busy x \<and> z_used_capacity y = z_used_capacity x \<and> z_start y = z_start x"
  by (auto simp: zone_keep_def)

lemma zone_keep_wf:
  assumes "zone_keep E x y" "zone_wf E x" "0 < zone_sz E" "IsUsed x \<longrightarrow> \<not> IsEmpty x"
  shows "zone_wf E y \<and> (IsUsed y \<longrightarrow> \<not> IsEmpty y)"
  using assms by (auto simp: zone_keep_def zone_wf_def add64_small IsUsed_def IsEmpty_def)

text \<open>
  \<open>taken E cont a n m s s'\<close>: from \<open>s\<close> to \<open>s'\<close> at most zone \<open>a\<close> was acquired, \<open>n\<close> open tokens were taken
  and the balance of active tokens moved by \<open>m\<close>; no data and no accounting of valid data changed, write
  pointers moved forward only and not at all in zones in use, and files kept all but the books of the
  policies.
\<close>

definition taken :: "'b env \<Rightarrow> ('b \<Rightarrow> nat \<Rightarrow> char) \<Rightarrow> zid option \<Rightarrow> int \<Rightarrow> int \<Rightarrow>
    ('b, 'm) zbd_scheme \<Rightarrow> ('b, 'm) zbd_scheme \<Rightarrow> bool" where
  "taken E cont a n m s s' \<longleftrightarrow> io_zones s' = io_zones s \<and> zone_start_to_pointer s' = zone_start_to_pointer s \<and>
     max_nr_active_io_zones s' = max_nr_active_io_zones s \<and> max_nr_open_io_zones s' = max_nr_open_io_zones s \<and>
     cont (be s') = cont (be s) \<and> open_io_zones s' = open_io_zones s + n \<and> token_balance s' = token_balance s + m \<and>
     (\<forall>y. z_busy (zone_at s' y) = (z_busy (zone_at s y) \<or> a = Some y) \<and>
        z_used_capacity (zone_at s' y) = z_used_capacity (zone_at s y) \<and> z_start (zone_at s' y) = z_start (zone_at s y)) \<and>
     (\<forall>z. a = Some z \<longrightarrow> z \<in> set (io_zones s) \<and> free_in s z) \<and> dev_inv E s' \<and>
     (\<forall>y. z_wp (zone_at s y) \<le> z_wp (zone_at s' y)) \<and>
     (\<forall>y. z_busy (zone_at s y) \<longrightarrow> z_wp (zone_at s' y) = z_wp (zone_at s y) \<and> z_capacity (zone_at s' y) = z_capacity (zone_at s y)) \<and>
     (\<forall>y. y \<notin> set (io_zones s) \<longrightarrow> zone_at s' y = zone_at s y) \<and> meta_zones s' = meta_zones s \<and> zbd.more s' = zbd.more s \<and>
     bytes_written s' = bytes_written s \<and> (\<forall>f. blank (file_at s' f) = blank (file_at s f))"

lemma taken_inv: "taken E cont a n m s s' \<Longrightarrow> dev_inv E s'"
  by (simp add: taken_def)

lemma taken_trans1: "taken E cont None n m s s1 \<Longrightarrow> taken E cont a n' m' s1 s2 \<Longrightarrow> taken E cont a (n + n') (m + m') s s2"
  unfolding taken_def by (auto intro: order_trans)

lemma taken_trans2: "taken E cont a n m s s1 \<Longrightarrow> taken E cont None n' m' s1 s2 \<Longrightarrow> taken E cont a (n + n') (m + m') s s2"
  unfolding taken_def by (auto intro: order_trans)

lemma upkeep_taken:
  assumes "upkeep E cont s s'" "dev_inv E s"
  shows "taken E cont None 0 0 s s'"
proof -
  have k: "zone_keep E (zone_at s z) (zone_at s' z)" for z using assms(1) by (simp add: upkeep_def)
  have "dev_inv E s'"
    using assms zone_keep_wf [OF k] k unfolding dev_inv_def upkeep_def zone_keep_def
    by (auto simp: IsUsed_def)
  moreover have "z_wp (zone_at s z) \<le> z_wp (zone_at s' z)" for z
    using assms k [of z] unfolding dev_inv_def upkeep_def zone_keep_def zone_wf_def by (metis add64_small order_refl)
  moreover have "z_busy (zone_at s z) \<Longrightarrow> zone_at s' z = zone_at s z" for z
    using k [of z] by (auto simp: zone_keep_def)
  ultimately show ?thesis
    using assms(1) zone_keep_sel [OF k] unfolding taken_def upkeep_def by simp
qed

text \<open>Changes outside the zones.\<close>

lemma taken_same:
  assumes "dev_inv E s" "zone_at s' = zone_at s" "io_zones s' = io_zones s" "zone_start_to_pointer s' = zone_start_to_pointer s"
    "max_nr_active_io_zones s' = max_nr_active_io_zones s" "max_nr_open_io_zones s' = max_nr_open_io_zones s"
    "be s' = be s" "open_io_zones s' = open_io_zones s + n" "active_io_zones s' = active_io_zones s + m"
    "bytes_written s' = bytes_written s" "file_at s' = file_at s" "meta_zones s' = meta_zones s" "zbd.more s' = zbd.more s"
  shows "taken E cont None n m s s'"
  using assms by (auto simp: taken_def dev_inv_def token_balance_def active_count_def)

lemma active_count_hold:
  assumes "z \<in> set (io_zones s)" "free_in s z"
  shows "active_count (hold (Some z) s) = active_count s + of_bool (IsEmpty (zone_at s z) \<or> IsFull (zone_at s z))"
proof -
  have "active_count (hold (Some z) s) = active_count (s\<lparr>zone_at := (zone_at s)(z := (zone_at s z)\<lparr>z_busy := True\<rparr>)\<rparr>)"
    by (rule active_count_cong) (simp_all add: hold_def)
  then show ?thesis using assms by (simp add: active_count_upd counted_def)
qed

lemma dev_inv_hold: "dev_inv E s \<Longrightarrow> dev_inv E (hold a s)"
  by (auto simp: dev_inv_def zone_at_hold zone_wf_def IsUsed_def)

lemma hold_bytes [simp]: "bytes_written (hold a s) = bytes_written s" "file_at (hold a s) = file_at s"
    "meta_zones (hold a s) = meta_zones s" "zbd.more (hold a s) = zbd.more s"
  by (cases a; simp add: hold_def)+

lemma taken_hold:
  assumes "dev_inv E s" "z \<in> set (io_zones s)" "free_in s z"
    "m = - of_bool (IsEmpty (zone_at s z) \<or> IsFull (zone_at s z))"
  shows "taken E cont (Some z) 0 m s (hold (Some z) s)"
  using assms active_count_hold [OF assms(2,3)] dev_inv_hold [OF assms(1)]
  by (auto simp: taken_def token_balance_def zone_at_hold)

lemma taken_core:
  assumes "core s' = core t" "taken E cont a n m s t"
  shows "taken E cont a n m s s'"
proof -
  note c = core_eqD [OF assms(1)]
  have "active_count s' = active_count t" by (rule active_count_cong) (simp_all add: c)
  moreover have "dev_inv E s' = dev_inv E t" by (simp add: dev_inv_def c)
  ultimately show ?thesis using assms(2) by (simp add: taken_def token_balance_def c)
qed

lemma taken_best_match:
  assumes "GetBestOpenZoneMatch E f lt diff None c s = Some ((st, d, z), s')" "dev_inv E s"
  shows "st = OK" "taken E cont z 0 0 s s'" "z = Some y \<Longrightarrow> fits (if has_placement_info (file_at s f) then c else 0) s y"
    "core s' = core (hold z s)"
proof -
  let ?c = "if has_placement_info (file_at s f) then c else 0"
  have m: "st = OK" "core s' = core (hold z s)" "\<And>y. z = Some y \<Longrightarrow> fits ?c s y"
    using best_match_ok [OF assms(1)] by (simp_all add: match_ok_None)
  then show "st = OK" "core s' = core (hold z s)" "z = Some y \<Longrightarrow> fits ?c s y" by simp_all
  have "taken E cont z 0 0 s (hold z s)"
  proof (cases z)
    case None
    then show ?thesis using taken_same [OF assms(2), of s 0 0] by simp
  next
    case (Some y)
    with m(3) have "fits ?c s y" by blast
    then have "y \<in> set (io_zones s)" "free_in s y" "\<not> (IsEmpty (zone_at s y) \<or> IsFull (zone_at s y))"
      using assms(2) by (auto simp: fits_def eligible_def dev_inv_def IsUsed_def)
    then show ?thesis using taken_hold [OF assms(2), of y 0] Some by simp
  qed
  then show "taken E cont z 0 0 s s'" using taken_core m(2) by blast
qed

lemma taken_empty_zone:
  assumes "std_algorithms E" "AllocateEmptyZone E level s = Some ((st, r), s')" "dev_inv E s"
  shows "st = OK" "taken E cont r 0 (- of_bool (r \<noteq> None)) s s'" "r = Some z \<Longrightarrow> IsEmpty (zone_at s' z)"
proof -
  obtain p q k where s': "s' = hold r (s\<lparr>zenfs_parameters := p, seq_zone_pos := q, shuffle_calls := k\<rparr>)" (is "_ = hold r ?s")
    and r: "st = OK" "case r of None \<Rightarrow> True | Some z \<Rightarrow> z \<in> set (io_zones s) \<and> empty_cand s z"
    using std_algorithms.empty_zone_allocated [OF assms(1,2)]
    unfolding empty_zone_result_def by (auto split: option.splits)
  have t0: "taken E cont None 0 0 s ?s" by (rule taken_same [OF assms(3)]) simp_all
  have "taken E cont r 0 (- of_bool (r \<noteq> None)) ?s (hold r ?s)"
  proof (cases r)
    case None
    then show ?thesis using taken_same [OF taken_inv [OF t0], of ?s 0 0] by simp
  next
    case (Some z)
    then show ?thesis using r(2) taken_hold [OF taken_inv [OF t0], of z] by (simp add: scan_cand_def)
  qed
  from taken_trans1 [OF t0 this] show "taken E cont r 0 (- of_bool (r \<noteq> None)) s s'" by (simp add: s')
  show "st = OK" by (rule r)
  show "IsEmpty (zone_at s' z)" if "r = Some z"
    using that r(2) by (simp add: s' zone_at_hold scan_cand_def)
qed

lemma core_zone_at: "core (t\<lparr>zone_at := Z\<rparr>) = (core t)\<lparr>zone_at := Z\<rparr>"
  by (simp add: core_def)

lemma core_active: "core (t\<lparr>active_io_zones := n\<rparr>) = (core t)\<lparr>active_io_zones := n\<rparr>"
  by (simp add: core_def)

lemma hold_active: "hold a (s\<lparr>active_io_zones := n\<rparr>) = (hold a s)\<lparr>active_io_zones := n\<rparr>"
  by (cases a) (simp_all add: hold_def)

lemma release_core:
  assumes "core t = core (hold (Some z) s)" "free_in s z"
  shows "\<exists>t'. CheckRelease z t = (OK, t') \<and> core t' = core s"
proof -
  have z: "zone_at t = zone_at (hold (Some z) s)" using core_eqD(1) [OF assms(1)] .
  have "CheckRelease z t = (OK, t\<lparr>zone_at := zone_at s\<rparr>)"
    using assms(2) by (auto simp: CheckRelease_def Release_def z hold_def busy_roundtrip)
  moreover have "core (t\<lparr>zone_at := zone_at s\<rparr>) = core s"
    by (simp add: core_zone_at assms(1)) (simp add: core_def hold_def)
  ultimately show ?thesis by blast
qed

lemma relax_core:
  assumes "core t = core (hold a s)" "\<And>z. a = Some z \<Longrightarrow> free_in s z" "relax_match got d a t = ((st, b), t')"
  shows "st = OK \<and> (b = None \<and> core t' = core s \<or>
    b = a \<and> a \<noteq> None \<and> core t' = core (hold a (if got then PutActiveIOZoneToken s else s)))"
proof (cases a)
  case None
  then show ?thesis using assms by (simp add: relax_match_def)
next
  case (Some z)
  obtain t1 where r: "CheckRelease z t = (OK, t1)" "core t1 = core s"
    using release_core assms(1,2) Some by blast
  have "core (PutActiveIOZoneToken t) = core (hold a (PutActiveIOZoneToken s))"
    using core_eqD(6) [OF assms(1)] assms(1)
    by (simp add: PutActiveIOZoneToken_def core_active core_hold) (cases a; simp add: hold_def core_def)
  then show ?thesis
    using assms(1,3) Some r by (auto simp: relax_match_def Let_def split: if_splits)
qed

context zoned_backend
begin

lemma token_loop_taken:
  assumes "active_token_loop E s = Some (st, s')" "dev_inv E s"
  shows "taken E cont None 0 (of_bool (st = OK)) s s'"
proof (cases "st = OK")
  case True
  then obtain s1 where u: "upkeep E cont s s1" and s': "s' = s1\<lparr>active_io_zones := active_io_zones s1 + 1\<rparr>"
    using token_loop_result [OF assms(1)] by auto
  have t: "taken E cont None 0 0 s s1" by (rule upkeep_taken [OF u assms(2)])
  have "taken E cont None 0 1 s1 s'" using taken_inv [OF t] by (intro taken_same) (simp_all add: s')
  from taken_trans1 [OF t this] True show ?thesis by simp
next
  case False
  then show ?thesis using token_loop_result [OF assms(1)] upkeep_taken assms(2) by simp
qed

lemma open_new_zone_taken:
  assumes "std_algorithms E" "open_new_zone E lt f got s = Some ((st, r), s')" "dev_inv E s"
  shows "if st = OK then taken E cont r 0 (- of_bool got) s s' \<and> (\<forall>z. r = Some z \<longrightarrow> IsEmpty (zone_at s' z))
    else r = None \<and> \<not> got \<and> taken E cont None (- 1) 0 s s'"
proof -
  obtain st1 s1 where 1: "(if got then Some (OK, s) else active_token_loop E s) = Some (st1, s1)"
    using assms(2) by (auto simp: open_new_zone_def split: Option.bind_splits)
  have t1: "taken E cont None 0 (of_bool (\<not> got \<and> st1 = OK)) s s1"
    using 1 token_loop_taken [of s st1 s1] assms(3) taken_same [OF assms(3), of s 0 0] by (auto split: if_splits)
  show ?thesis
  proof (cases "st1 = OK")
    case False
    then have "st = st1" "r = None" "s' = PutOpenIOZoneToken s1" "\<not> got"
      using assms(2) 1 by (auto simp: open_new_zone_def split: if_splits)
    moreover have "taken E cont None (- 1) 0 s1 (PutOpenIOZoneToken s1)"
      using taken_inv [OF t1] by (intro taken_same) (simp_all add: PutOpenIOZoneToken_def)
    ultimately show ?thesis using taken_trans1 [OF t1] False by fastforce
  next
    case True
    let ?l = "f_level (file_at s1 f)"
    obtain st2 r2 s2 where 2: "AllocateEmptyZone E ?l s1 = Some ((st2, r2), s2)"
      using assms(2) 1 True by (auto simp: open_new_zone_def Let_def split: Option.bind_splits)
    note e = taken_empty_zone [OF assms(1) 2 taken_inv [OF t1]]
    have eq: "st = OK \<and> r = r2 \<and> s' = (case r2 of None \<Rightarrow> PutActiveIOZoneToken s2
        | Some z \<Rightarrow> let s = zone_upd z (\<lambda>x. x\<lparr>z_lifetime := lt, z_policy := GetPolicy ?l (zenfs_parameters s2), z_level := ?l\<rparr>) s2
          in if need_flag s then s\<lparr>nearest_got_new := nearest_got_new s + 1\<rparr> else s)"
      using assms(2) 1 True 2 e(1) by (auto simp: open_new_zone_def Let_def split: option.splits)
    have "taken E cont None 0 (- of_bool (r2 = None)) s2 s'"
    proof (cases r2)
      case None
      then show ?thesis using taken_inv [OF e(2)] eq by (intro taken_same) (simp_all add: PutActiveIOZoneToken_def)
    next
      case (Some z)
      have "active_count (s2\<lparr>zone_at := (zone_at s2)(z := (zone_at s2 z)\<lparr>z_lifetime := lt, z_policy := p, z_level := ?l\<rparr>)\<rparr>) = active_count s2" for p
        by (simp add: active_count_upd counted_def IsEmpty_def IsFull_def)
      moreover have "z \<in> set (io_zones s2)" using e(2) Some by (simp add: taken_def)
      ultimately show ?thesis using taken_inv [OF e(2)] eq Some
        by (auto simp: taken_def token_balance_def dev_inv_def zone_wf_def IsUsed_def IsEmpty_def active_count_def Let_def)
    qed
    note t3 = taken_trans1 [OF t1 taken_trans2 [OF e(2) this]]
    have "IsEmpty (zone_at s' z)" if "r = Some z" for z
      using that eq e(3) by (auto simp: Let_def IsEmpty_def)
    then show ?thesis using t3 eq True by (cases got; cases r2) simp_all
  qed
qed

lemma settle_taken:
  assumes "std_algorithms E" "settle_zone E lt f d a t = Some ((st, out), t')" "dev_inv E s"
    and "core t = core (hold a s)" "\<And>z. a = Some z \<Longrightarrow> free_in s z" "taken E cont a 0 0 s (hold a s)"
    and "\<And>z. a = Some z \<Longrightarrow> IsUsed (zone_at s z) \<and> \<not> IsFull (zone_at s z)"
  shows "taken E cont out (of_bool (out \<noteq> None) - 1) 0 s t' \<and> (st \<noteq> OK \<longrightarrow> out = None) \<and>
    (\<forall>z. out = Some z \<longrightarrow> IsEmpty (zone_at t' z) \<or> IsUsed (zone_at t' z) \<and> \<not> IsFull (zone_at t' z))"
proof -
  obtain st1 b t1 where 1: "(if d < LIFETIME_DIFF_COULD_BE_WORSE then Some ((OK, a), t) else
        let (got, s) = GetActiveIOZoneTokenIfAvailable t; ((st, b), s) = relax_match got d a s in
        if st \<noteq> OK then Some ((st, None), s) else if b \<noteq> None then Some ((OK, b), s)
        else open_new_zone E lt f got s) = Some ((st1, b), t1)"
    using assms(2) unfolding settle_zone_def by (auto split: Option.bind_splits)
  have eq: "st = st1" "out = (if st1 = OK then b else None)"
    "t' = (if st1 = OK \<and> b = None then PutOpenIOZoneToken t1 else t1)"
    using assms(2) 1 unfolding settle_zone_def by (auto split: if_splits)
  have kept: "taken E cont a 0 0 s t1 \<and> (\<forall>z. a = Some z \<longrightarrow> IsUsed (zone_at t1 z) \<and> \<not> IsFull (zone_at t1 z))"
    if "core t1 = core (hold a s)"
    using taken_core [OF that assms(6)] core_eqD(1) [OF that] assms(7) by (simp add: zone_at_hold)
  have "if st1 = OK then taken E cont b 0 0 s t1 \<and>
        (\<forall>z. b = Some z \<longrightarrow> IsEmpty (zone_at t1 z) \<or> IsUsed (zone_at t1 z) \<and> \<not> IsFull (zone_at t1 z))
      else taken E cont None (- 1) 0 s t1"
  proof (cases "d < LIFETIME_DIFF_COULD_BE_WORSE")
    case True
    then show ?thesis using 1 kept assms(4) by auto
  next
    case False
    obtain got t2 where g: "GetActiveIOZoneTokenIfAvailable t = (got, t2)" by force
    define s2 where "s2 = s\<lparr>active_io_zones := active_io_zones s + of_bool got\<rparr>"
    have a2: "active_io_zones t = active_io_zones s" using core_eqD(6) [OF assms(4)] by simp
    have "t2 = t\<lparr>active_io_zones := active_io_zones s + of_bool got\<rparr>"
      using g a2 [symmetric] by (auto simp: GetActiveIOZoneTokenIfAvailable_def split: if_splits)
    then have "core t2 = core (hold a s2)" by (simp add: core_active assms(4) s2_def hold_active)
    moreover obtain st3 b3 t3 where r: "relax_match got d a t2 = ((st3, b3), t3)" by (metis prod.exhaust)
    ultimately have x: "st3 = OK" "b3 = None \<and> core t3 = core s2 \<or>
        b3 = a \<and> a \<noteq> None \<and> core t3 = core (hold a (if got then PutActiveIOZoneToken s2 else s2))"
      using relax_core [of t2 a s2 got d st3 b3 t3] assms(5) by (auto simp: s2_def)
    show ?thesis
    proof (cases b3)
      case (Some z)
      have "(if got then PutActiveIOZoneToken s2 else s2) = s" by (simp add: PutActiveIOZoneToken_def s2_def)
      then have "core t3 = core (hold a s)" "b3 = a" using x(2) Some by auto
      then show ?thesis using 1 False g r x(1) Some kept by auto
    next
      case None
      then have c: "core t3 = core s2" using x(2) by auto
      have "taken E cont None 0 (of_bool got) s s2" using assms(3) by (intro taken_same) (simp_all add: s2_def)
      then have t3: "taken E cont None 0 (of_bool got) s t3" using taken_core c by blast
      have o: "open_new_zone E lt f got t3 = Some ((st1, b), t1)" using 1 False g r x(1) None by simp
      show ?thesis
        using open_new_zone_taken [OF assms(1) o taken_inv [OF t3]] taken_trans1 [OF t3]
        by (fastforce split: if_splits)
    qed
  qed
  moreover have "taken E cont None (- 1) 0 t1 (PutOpenIOZoneToken t1)" if "dev_inv E t1"
    using that by (intro taken_same) (simp_all add: PutOpenIOZoneToken_def)
  ultimately show ?thesis
    using taken_inv [of E cont b 0 0 s t1] taken_trans2 [of E cont b 0 0 s t1 "- 1" 0 "PutOpenIOZoneToken t1"] eq
    by (cases "st1 = OK"; cases b) auto
qed

lemma allocate_taken:
  assumes "std_algorithms E" "AllocateIOZone E lt io f s = Some ((st, out), s')" "dev_inv E s"
  shows "taken E cont out (of_bool (out \<noteq> None)) 0 s s' \<and> (st \<noteq> OK \<longrightarrow> out = None) \<and>
    (\<forall>z. out = Some z \<longrightarrow> IsEmpty (zone_at s' z) \<or> IsUsed (zone_at s' z) \<and> \<not> IsFull (zone_at s' z))"
proof -
  define s0 where "s0 = (let p = zenfs_parameters s; l = f_level (file_at s f) in
      (if l > int (max_level p) then s\<lparr>zenfs_parameters := p\<lparr>max_level := nat l mod 256\<rparr>\<rparr> else s)\<lparr>need_flag := False\<rparr>)"
  have t0: "taken E cont None 0 0 s s0"
    using assms(3) by (intro taken_same) (simp_all add: s0_def Let_def)
  obtain st1 s1 where 1: "(if io \<noteq> KWAL then ApplyFinishThreshold E s0 else (OK, s0)) = (st1, s1)" by force
  then have "upkeep E cont s0 s1" using upkeep_threshold [of s0] by (auto split: if_splits)
  then have t1: "taken E cont None 0 0 s s1" using taken_trans1 [OF t0 upkeep_taken] taken_inv [OF t0] by simp
  note def = assms(2) [unfolded AllocateIOZone_def, unfolded Let_def, folded s0_def [unfolded Let_def], unfolded 1 prod.case]
  show ?thesis
  proof (cases "GetZoneDeferredStatus s0 \<noteq> OK \<or> st1 \<noteq> OK")
    case True
    then have "out = None \<and> (s' = s0 \<or> s' = s1)"
      using def by (auto split: if_splits)
    then show ?thesis using t0 t1 by auto
  next
    case False
    then obtain s2 where w: "WaitForOpenIOZoneToken (io = KWAL) s1 = Some s2"
      using def by (auto split: Option.bind_splits)
    have t2: "taken E cont None 1 0 s1 s2"
      using w taken_inv [OF t1] by (intro taken_same) (auto simp: WaitForOpenIOZoneToken_def split: if_splits)
    define c where "c = (if fragmentation_enabled (zenfs_parameters s2) \<noteq> 0 then 0 else cast32 (f_alloc_size (file_at s2 f)))"
    obtain st3 d a s3 where m: "GetBestOpenZoneMatch E f lt LIFETIME_DIFF_NOT_GOOD None c s2 = Some ((st3, d, a), s3)"
      using def False w unfolding c_def by (auto split: Option.bind_splits)
    note b = taken_best_match [OF m taken_inv [OF t2]]
    have settle: "settle_zone E lt f d a s3 = Some ((st, out), s')"
      using def False w m b(1) unfolding c_def [symmetric] by (simp add: c_def)
    have fits: "free_in s2 z \<and> IsUsed (zone_at s2 z) \<and> \<not> IsFull (zone_at s2 z)" if "a = Some z" for z
      using b(3) [OF that] by (auto simp: fits_def eligible_def IsUsed_def)
    have h: "taken E cont a 0 0 s2 (hold a s2)" using taken_core [OF b(4) [symmetric] b(2)] .
    note res = settle_taken [OF assms(1) settle taken_inv [OF t2] b(4) _ h]
    show ?thesis
      using res fits taken_trans1 [OF taken_trans1 [OF t1 t2], of out "of_bool (out \<noteq> None) - 1" 0 s'] by auto
  qed
qed

end

section \<open>Properties of the allocation\<close>

text \<open>
  C12. Allocating a zone for a file keeps the device consistent on every path, errors included: a
  zone is handed out only on success, it is the only one whose busy flag changes, it was free, and
  it is empty or an open zone with room. An open-zone token is held exactly for a zone handed
  out, the counter of active zones moves with the number of zones in use or partly written, and
  neither the data on the device nor the accounting of valid data changes.
\<close>

theorem allocate_io_zone_consistent:
  assumes "zoned_backend E cont" "std_algorithms E" "dev_inv E s"
    and "AllocateIOZone E lt io f s = Some ((st, out), s')"
  shows "dev_inv E s' \<and> (st \<noteq> OK \<longrightarrow> out = None) \<and>
    open_io_zones s' = open_io_zones s + (if out = None then 0 else 1) \<and>
    active_io_zones s' - active_count s' = active_io_zones s - active_count s \<and>
    cont (be s') = cont (be s) \<and>
    (\<forall>y. z_busy (zone_at s' y) = (z_busy (zone_at s y) \<or> out = Some y) \<and>
       z_used_capacity (zone_at s' y) = z_used_capacity (zone_at s y)) \<and>
    (\<forall>z. out = Some z \<longrightarrow> z \<in> set (io_zones s) \<and> \<not> z_busy (zone_at s z) \<and>
       (IsEmpty (zone_at s' z) \<or> IsUsed (zone_at s' z) \<and> \<not> IsFull (zone_at s' z)))"
  using zoned_backend.allocate_taken [OF assms(1,2,4,3)] by (auto simp: taken_def token_balance_def)

definition plain_zone :: "nat \<Rightarrow> nat \<Rightarrow> nat \<Rightarrow> zone" where
  "plain_zone start n lt = \<lparr>z_busy = False, z_start = start, z_capacity = 16 - n, z_max_capacity = 16, z_wp = start + n,
     z_lifetime = lt, z_used_capacity = n, z_reset_count = 0, z_finish_count = 0, z_policy = KLifetimeBased,
     z_level = - 1, z_flag_gc_reset = False\<rparr>"

lemma open_dev_zone:
  "zone_at open_dev z = plain_zone (16 * z) (if z = 3 then 8 else if z = 4 then 4 else 0)
     (if z = 3 then WLTH_EXTREME else if z = 4 then WLTH_LONG else WLTH_NOT_SET)"
  by (simp add: open_dev_eval plain_zone_def)

lemma open_dev_inv: "dev_inv mem_env open_dev"
proof -
  have sz: "zone_sz mem_env = 16" by (simp add: mem_env_def zbdlib_env_def mem_info_def)
  have wf: "zone_wf mem_env (zone_at open_dev z) \<and> (IsUsed (zone_at open_dev z) \<longrightarrow> \<not> IsEmpty (zone_at open_dev z))"
    if "z \<le> 6" for z
    using that by (simp add: zone_wf_def IsUsed_def IsEmpty_def open_dev_zone sz plain_zone_def)
  have io: "io_zones open_dev = [3, 4, 5, 6]" by (simp add: open_dev_eval)
  have "z \<in> set (io_zones open_dev)" if "IsUsed (zone_at open_dev z)" for z
    using that by (simp add: IsUsed_def open_dev_zone plain_zone_def io split: if_splits)
  then show ?thesis
    unfolding dev_inv_def using wf by (simp add: io sz)
qed

theorem allocate_io_zone_consistent_witness:
  "\<exists>s'. AllocateIOZone mem_env WLTH_MEDIUM KWAL 0 open_dev = Some ((OK, Some 4), s') \<and> dev_inv mem_env s' \<and>
     open_io_zones s' = open_io_zones open_dev + 1 \<and> z_busy (zone_at s' 4) \<and> \<not> z_busy (zone_at s' 3)"
proof -
  obtain s' where run: "AllocateIOZone mem_env WLTH_MEDIUM KWAL 0 open_dev = Some ((OK, Some 4), s')"
    by (simp add: AllocateIOZone_def Let_def GetZoneDeferredStatus_def WaitForOpenIOZoneToken_def allocator_open_limit_def
        GetBestOpenZoneMatch_def has_placement_info_def new_file_def settle_zone_def
        MatchLifetimeBased_def store_scan_def open_dev_eval eligible_def IsFull_def Acquire_def
        CheckRelease_def Release_def GetLifeTimeDiff_def LIFETIME_DIFF_NOT_GOOD_def LIFETIME_DIFF_COULD_BE_WORSE_def)
  have "\<not> z_busy (zone_at open_dev 3)" by (simp add: open_dev_eval)
  with allocate_io_zone_consistent [OF mem.zoned_backend_axioms mem_std.std_algorithms_axioms open_dev_inv run] run
  show ?thesis by auto
qed

text \<open>
  C13. \<open>FinishCheapestIOZone\<close> finishes the free, partly written I/O zone with the least remaining
  capacity and gives back one active-zone token; the zone keeps its data and can only be reset
  afterwards. If the device refuses, no zone changes. Without such a zone nothing happens and the
  call still reports success.
\<close>

theorem finish_cheapest_correct:
  assumes "FinishCheapestIOZone E s = (st, s')"
  defines "cand \<equiv> \<lambda>z. z \<in> set (io_zones s) \<and> \<not> z_busy (zone_at s z) \<and> \<not> IsEmpty (zone_at s z) \<and> \<not> IsFull (zone_at s z)"
  shows "(\<not> (\<exists>z. cand z) \<longrightarrow> st = OK \<and> s' = s) \<and>
    ((\<exists>z. cand z) \<longrightarrow> (\<exists>z. cand z \<and> (\<forall>y. cand y \<longrightarrow> z_capacity (zone_at s z) \<le> z_capacity (zone_at s y)) \<and>
       st = fst (be_finish E (z_start (zone_at s z)) (be s)) \<and>
       (if st = OK then zone_at s' = (zone_at s)(z := finished E (zone_at s z)) \<and> active_io_zones s' = active_io_zones s - 1
        else zone_at s' = zone_at s \<and> active_io_zones s' = active_io_zones s)))"
proof (cases "cheapest_zone s")
  case None
  then have "\<not> (\<exists>z. cand z)" by (auto simp: cheapest_zone_None cand_def)
  then show ?thesis using assms(1) None by (simp add: finish_cheapest_eq)
next
  case (Some z)
  note c = cheapest_zone_SomeD [OF Some]
  have "st = fst (be_finish E (z_start (zone_at s z)) (be s)) \<and>
      (if st = OK then zone_at s' = (zone_at s)(z := finished E (zone_at s z)) \<and> active_io_zones s' = active_io_zones s - 1
       else zone_at s' = zone_at s \<and> active_io_zones s' = active_io_zones s)"
    using assms(1) Some by (auto simp: finish_cheapest_eq Let_def PutActiveIOZoneToken_def split: prod.splits)
  then show ?thesis using c unfolding cand_def by blast
qed

theorem finish_cheapest_correct_witness:
  "\<exists>s'. FinishCheapestIOZone mem_env open_dev = (OK, s') \<and> active_io_zones s' = 1 \<and>
     zone_at s' 3 = finished mem_env (zone_at open_dev 3) \<and> zone_at s' 4 = zone_at open_dev 4"
proof -
  obtain st s' where run: "FinishCheapestIOZone mem_env open_dev = (st, s')" by force
  have io: "io_zones open_dev = [3, 4, 5, 6]" and a: "active_io_zones open_dev = 2" by (simp_all add: open_dev_eval)
  have cand: "z \<in> set (io_zones open_dev) \<and> \<not> z_busy (zone_at open_dev z) \<and> \<not> IsEmpty (zone_at open_dev z) \<and>
      \<not> IsFull (zone_at open_dev z) \<longleftrightarrow> z = 3 \<or> z = 4" for z
    by (auto simp: io open_dev_zone plain_zone_def IsEmpty_def IsFull_def)
  have cap: "z_capacity (zone_at open_dev 3) = 8" "z_capacity (zone_at open_dev 4) = 12"
    by (simp_all add: open_dev_zone plain_zone_def)
  have fin: "fst (be_finish mem_env p b) = OK" for p b
    by (simp add: mem_env_def zbdlib_env_def zbdlib_Finish_def mem_os_def)
  from finish_cheapest_correct [OF run, unfolded cand] obtain z where z: "z = 3 \<or> z = 4"
    and le: "\<forall>y. y = 3 \<or> y = 4 \<longrightarrow> z_capacity (zone_at open_dev z) \<le> z_capacity (zone_at open_dev y)"
    and st: "st = fst (be_finish mem_env (z_start (zone_at open_dev z)) (be open_dev))"
    and eff: "if st = OK then zone_at s' = (zone_at open_dev)(z := finished mem_env (zone_at open_dev z)) \<and>
        active_io_zones s' = active_io_zones open_dev - 1
      else zone_at s' = zone_at open_dev \<and> active_io_zones s' = active_io_zones open_dev"
    by blast
  have "z = 3" using z le cap by auto
  then show ?thesis using run st eff fin a by simp
qed

text \<open>
  C14. Opening a new zone returns exactly when the caller already holds an active-zone token, one
  is available, or some free I/O zone is partly written and can be finished. In the remaining case
  the loop that waits for a token never ends, although \<open>FinishCheapestIOZone\<close> reports success in
  every round.
\<close>

theorem open_new_zone_returns_iff:
  assumes "zoned_backend E cont" "std_algorithms E" "active_io_zones s \<le> int (max_nr_active_io_zones s)"
    and "length (io_zones s) < 2 ^ 53" "f_level (file_at s f) < 256"
    and "0 < max_level (zenfs_parameters s)" "max_level (zenfs_parameters s) < 256"
    and "io_zones s \<noteq> [] \<longrightarrow> seq_zone_pos s < length (io_zones s)"
  shows "(\<exists>res. open_new_zone E lt f got s = Some res) \<longleftrightarrow>
    got \<or> active_io_zones s < int (max_nr_active_io_zones s) \<or>
    (\<exists>z \<in> set (io_zones s). \<not> z_busy (zone_at s z) \<and> \<not> IsEmpty (zone_at s z) \<and> \<not> IsFull (zone_at s z))"
    (is "_ \<longleftrightarrow> ?rhs")
proof
  assume "\<exists>res. open_new_zone E lt f got s = Some res"
  then obtain r where "(if got then Some (OK, s) else active_token_loop E s) = Some r"
    by (auto simp: open_new_zone_def split: Option.bind_splits)
  note r = this
  show ?rhs
  proof (rule ccontr)
    assume "\<not> ?rhs"
    then have "cheapest_zone s = None" "int (max_nr_active_io_zones s) \<le> active_io_zones s" "\<not> got"
      by (auto simp: cheapest_zone_None)
    then show False using token_loop_diverges [of E s r] r by simp
  qed
next
  assume rhs: ?rhs
  have "got \<or> active_io_zones s < int (max_nr_active_io_zones s) \<or> cheapest_zone s \<noteq> None"
    using rhs by (auto simp: cheapest_zone_None)
  then obtain st s1 where 1: "(if got then Some (OK, s) else active_token_loop E s) = Some (st, s1)"
    using zoned_backend.token_loop_returns [OF assms(1,3)] by (cases got) auto
  have same: "io_zones s1 = io_zones s \<and> zenfs_parameters s1 = zenfs_parameters s \<and> seq_zone_pos s1 = seq_zone_pos s \<and>
      file_at s1 = file_at s"
    using 1 zoned_backend.token_loop_result [OF assms(1), of s "(st, s1)"]
    by (auto simp: upkeep_def split: if_splits)
  then obtain res where "AllocateEmptyZone E (f_level (file_at s1 f)) s1 = Some res"
    using allocate_empty_returns [OF assms(2), of s1 "f_level (file_at s1 f)"] assms(4-) by auto
  then show "\<exists>res. open_new_zone E lt f got s = Some res"
    using 1 by (cases res) (auto simp: open_new_zone_def Let_def split: option.splits)
qed

theorem open_new_zone_returns_iff_witness:
  "(\<exists>res. open_new_zone mem_env 3 0 False open_dev = Some res) \<and>
   open_new_zone mem_env 3 0 False (open_dev\<lparr>io_zones := [5, 6], active_io_zones := 4\<rparr>) = None"
proof -
  let ?s = "open_dev\<lparr>io_zones := [5, 6], active_io_zones := 4\<rparr>"
  have h: "active_io_zones s \<le> int (max_nr_active_io_zones s)" "length (io_zones s) < 2 ^ 53" "f_level (file_at s 0) < 256"
    "0 < max_level (zenfs_parameters s)" "max_level (zenfs_parameters s) < 256"
    "io_zones s \<noteq> [] \<longrightarrow> seq_zone_pos s < length (io_zones s)" if "s = open_dev \<or> s = ?s" for s
    using that by (auto simp: open_dev_eval new_file_def)
  note iff = open_new_zone_returns_iff [OF mem.zoned_backend_axioms mem_std.std_algorithms_axioms h]
  have "active_io_zones open_dev < int (max_nr_active_io_zones open_dev)" by (simp add: open_dev_eval)
  then have 1: "\<exists>res. open_new_zone mem_env 3 0 False open_dev = Some res" using iff [of open_dev] by blast
  have "\<not> active_io_zones ?s < int (max_nr_active_io_zones ?s)" by (simp add: open_dev_eval)
  moreover have "IsEmpty (zone_at ?s z)" if "z \<in> set (io_zones ?s)" for z
    using that by (auto simp: open_dev_zone plain_zone_def IsEmpty_def)
  ultimately have "\<not> (\<exists>res. open_new_zone mem_env 3 0 False ?s = Some res)" using iff [of ?s] by blast
  then have "open_new_zone mem_env 3 0 False ?s = None" using option.exhaust by blast
  with 1 show ?thesis by blast
qed

lemma taken_migrate:
  assumes "std_algorithms E" "dev_inv E s" "TakeMigrateZone E None f lt c s = Some ((st, z, new), s')"
  shows "st = OK \<and> taken E cont z 0 0 s s' \<and> migrating s' = (z \<noteq> None) \<and> \<not> migrating s"
proof -
  let ?s = "s\<lparr>migrating := True\<rparr>"
  have idle: "\<not> migrating s" using assms(3) by (auto simp: TakeMigrateZone_def)
  have t0: "taken E cont None 0 0 s ?s" by (rule taken_same [OF assms(2)]) simp_all
  obtain st1 d a s1 where m: "GetBestOpenZoneMatch E f lt LIFETIME_DIFF_NOT_GOOD None c ?s = Some ((st1, d, a), s1)"
    using assms(3) idle by (auto simp: TakeMigrateZone_def Let_def split: Option.bind_splits)
  note b = taken_best_match [OF m taken_inv [OF t0]]
  have mig: "migrating s1" using arg_cong [OF b(4), of migrating] by (cases a) (simp_all add: hold_def)
  have t1: "taken E cont a 0 0 s s1" using taken_trans1 [OF t0 b(2)] by simp
  show ?thesis
  proof (cases a)
    case (Some y)
    then show ?thesis using assms(3) idle m b(1) t1 mig by (auto simp: TakeMigrateZone_def)
  next
    case None
    obtain got s2 where g: "(if GetEmptyZoneCount s1 > 0 then GetActiveIOZoneTokenIfAvailable s1 else (False, s1)) = (got, s2)"
      by force
    have t2: "taken E cont None 0 (of_bool got) s1 s2" and mig2: "migrating s2"
      using g taken_inv [OF t1] mig
      by (auto intro!: taken_same simp: GetActiveIOZoneTokenIfAvailable_def split: if_splits)
    note t12 = taken_trans1 [OF t1 [unfolded None] t2]
    show ?thesis
    proof (cases got)
      case False
      then have r: "st = st1" "z = None" "s' = s2\<lparr>migrating := False\<rparr>"
        using assms(3) idle m None g by (auto simp: TakeMigrateZone_def Let_def split: if_splits)
      have "taken E cont None 0 0 s2 s'" using taken_inv [OF t2] by (intro taken_same) (simp_all add: r)
      from taken_trans1 [OF t12 this] show ?thesis using r b(1) idle False by simp
    next
      case True
      then obtain st3 y s3 where e: "AllocateEmptyZone E (f_level (file_at s2 f)) s2 = Some ((st3, Some y), s3)"
        and r: "st = st1" "z = Some y" "s' = s3"
        using assms(3) idle m None g
        by (auto simp: TakeMigrateZone_def Let_def split: if_splits Option.bind_splits)
      note em = taken_empty_zone [OF assms(1) e taken_inv [OF t12]]
      have "migrating s3"
        using std_algorithms.empty_zone_allocated [OF assms(1) e] mig2 unfolding empty_zone_result_def
        by (auto simp: hold_def)
      then show ?thesis using taken_trans1 [OF t12 em(2)] r b(1) idle True by simp
    qed
  qed
qed

text \<open>
  C15. Taking a zone for migration: when the call returns it reports success; it marks the device as
  migrating exactly if it hands out a zone, the zone was free and is the only one acquired, and
  the tokens and the data are as before (a new zone comes with its active token). Releasing a zone
  restores its busy flag and the mark, but never returns an active token: the balance of tokens
  is off by one afterwards when the released zone is full or still empty.
\<close>

theorem migrate_zone_tokens:
  assumes "zoned_backend E cont" "std_algorithms E" "dev_inv E s"
    and "TakeMigrateZone E None f lt c s = Some ((st, z, new), s')"
  shows "st = OK \<and> dev_inv E s' \<and> migrating s' = (z \<noteq> None) \<and> token_balance s' = token_balance s \<and>
    open_io_zones s' = open_io_zones s \<and> cont (be s') = cont (be s) \<and>
    (\<forall>y. z_busy (zone_at s' y) = (z_busy (zone_at s y) \<or> z = Some y)) \<and>
    (\<forall>y t. z = Some y \<and> t = snd (ReleaseMigrateZone z s') \<longrightarrow> \<not> z_busy (zone_at s y) \<and>
       \<not> migrating t \<and> \<not> z_busy (zone_at t y) \<and>
       token_balance t = token_balance s' + of_bool (IsEmpty (zone_at s' y) \<or> IsFull (zone_at s' y)))"
proof -
  note m = taken_migrate [OF assms(2-4), of cont]
  have "\<not> migrating t \<and> \<not> z_busy (zone_at t y) \<and>
      token_balance t = token_balance s' + of_bool (IsEmpty (zone_at s' y) \<or> IsFull (zone_at s' y))"
    if "z = Some y" "t = snd (ReleaseMigrateZone z s')" for y t
  proof -
    have b: "z_busy (zone_at s' y)" "y \<in> set (io_zones s')" using m that(1) by (auto simp: taken_def)
    then have t: "t = (s'\<lparr>migrating := False\<rparr>)\<lparr>zone_at := (zone_at s')(y := (zone_at s' y)\<lparr>z_busy := False\<rparr>)\<rparr>"
      using that by (simp add: ReleaseMigrateZone_def CheckRelease_def Release_def)
    have "active_count (s'\<lparr>migrating := False\<rparr>) = active_count s'" by (simp add: active_count_def)
    then have "active_count t = active_count s' +
        (of_bool (counted ((zone_at s' y)\<lparr>z_busy := False\<rparr>)) - of_bool (counted (zone_at s' y)))"
      using active_count_upd [of "s'\<lparr>migrating := False\<rparr>" y "(zone_at s' y)\<lparr>z_busy := False\<rparr>"] b(2)
      unfolding t by simp
    moreover have "active_io_zones t = active_io_zones s'" "\<not> migrating t" "\<not> z_busy (zone_at t y)" by (simp_all add: t)
    ultimately show ?thesis
      using b(1) by (simp add: token_balance_def counted_def)
  qed
  moreover have "\<not> z_busy (zone_at s y)" if "z = Some y" for y using m that by (simp add: taken_def)
  moreover have "st = OK" "dev_inv E s'" "migrating s' = (z \<noteq> None)" "token_balance s' = token_balance s"
    "open_io_zones s' = open_io_zones s" "cont (be s') = cont (be s)"
    "\<forall>y. z_busy (zone_at s' y) = (z_busy (zone_at s y) \<or> z = Some y)"
    using m by (simp_all add: taken_def)
  ultimately show ?thesis by blast
qed

theorem migrate_zone_tokens_witness:
  "\<exists>s'. TakeMigrateZone mem_env None 0 WLTH_MEDIUM 0 open_dev = Some ((OK, Some 4, False), s') \<and> migrating s' \<and>
     token_balance s' = token_balance open_dev \<and> \<not> z_busy (zone_at (snd (ReleaseMigrateZone (Some 4) s')) 4)"
proof -
  obtain s' where run: "TakeMigrateZone mem_env None 0 WLTH_MEDIUM 0 open_dev = Some ((OK, Some 4, False), s')"
    by (simp add: TakeMigrateZone_def Let_def
        GetBestOpenZoneMatch_def has_placement_info_def new_file_def
        MatchLifetimeBased_def store_scan_def open_dev_eval eligible_def IsFull_def Acquire_def
        CheckRelease_def Release_def GetLifeTimeDiff_def LIFETIME_DIFF_NOT_GOOD_def LIFETIME_DIFF_COULD_BE_WORSE_def)
  with migrate_zone_tokens [OF mem.zoned_backend_axioms mem_std.std_algorithms_axioms open_dev_inv run]
  show ?thesis by auto
qed

end
