(* ===== verification/Coding.thy ===== *)
theory Coding
  imports Params
begin

text \<open>
  The encodings of \<open>util/coding.h\<close>, \<open>util/coding.cc\<close> and \<open>util/coding_lean.h\<close>: fixed-width integers,
  variable-length integers and length-prefixed slices. A \<open>Put...\<close> routine is a function from the
  string to the longer string. A \<open>Get...\<close> routine returns the value and the rest of the input, or
  \<open>None\<close> where the code returns false or a null pointer. Where the code distinguishes the byte order
  of the machine, so does the model; \<open>memcpy\<close> of an integer is the list of its bytes in that order.
\<close>

unbundle bit_operations_syntax

section \<open>Fixed-width integers\<close>

text \<open>The bytes of an \<open>n\<close>-byte integer, least significant first, and the value of such a list.\<close>

fun le_bytes :: "nat \<Rightarrow> nat \<Rightarrow> string" where
  "le_bytes 0 v = []"
| "le_bytes (Suc n) v = char_of v # le_bytes n (v div 256)"

fun le_value :: "string \<Rightarrow> nat" where
  "le_value [] = 0"
| "le_value (c # cs) = ord c + 256 * le_value cs"

definition EncodeFixed16 :: "bool \<Rightarrow> nat \<Rightarrow> string" where
  "EncodeFixed16 little v = (if little then le_bytes 2 v
     else [char_of (v AND 0xff), char_of (drop_bit 8 v AND 0xff)])"

definition EncodeFixed32 :: "bool \<Rightarrow> nat \<Rightarrow> string" where
  "EncodeFixed32 little v = (if little then le_bytes 4 v
     else [char_of (v AND 0xff), char_of (drop_bit 8 v AND 0xff), char_of (drop_bit 16 v AND 0xff),
           char_of (drop_bit 24 v AND 0xff)])"

definition EncodeFixed64 :: "bool \<Rightarrow> nat \<Rightarrow> string" where
  "EncodeFixed64 little v = (if little then le_bytes 8 v
     else [char_of (v AND 0xff), char_of (drop_bit 8 v AND 0xff), char_of (drop_bit 16 v AND 0xff),
           char_of (drop_bit 24 v AND 0xff), char_of (drop_bit 32 v AND 0xff), char_of (drop_bit 40 v AND 0xff),
           char_of (drop_bit 48 v AND 0xff), char_of (drop_bit 56 v AND 0xff)])"

definition DecodeFixed16 :: "bool \<Rightarrow> string \<Rightarrow> nat" where
  "DecodeFixed16 little p = (if little then le_value (take 2 p) else ord (p ! 0) OR push_bit 8 (ord (p ! 1)))"

definition DecodeFixed32 :: "bool \<Rightarrow> string \<Rightarrow> nat" where
  "DecodeFixed32 little p = (if little then le_value (take 4 p)
     else ord (p ! 0) OR push_bit 8 (ord (p ! 1)) OR push_bit 16 (ord (p ! 2)) OR push_bit 24 (ord (p ! 3)))"

definition DecodeFixed64 :: "bool \<Rightarrow> string \<Rightarrow> nat" where
  "DecodeFixed64 little p = (if little then le_value (take 8 p)
     else let lo = DecodeFixed32 little p; hi = DecodeFixed32 little (drop 4 p) in push_bit 32 hi OR lo)"

text \<open>From here on the machine is little endian; the lemmas below show that it makes no difference.\<close>

definition PutFixed16 :: "string \<Rightarrow> nat \<Rightarrow> string" where "PutFixed16 dst v = dst @ EncodeFixed16 True v"
definition PutFixed32 :: "string \<Rightarrow> nat \<Rightarrow> string" where "PutFixed32 dst v = dst @ EncodeFixed32 True v"
definition PutFixed64 :: "string \<Rightarrow> nat \<Rightarrow> string" where "PutFixed64 dst v = dst @ EncodeFixed64 True v"

definition GetFixed16 :: "string \<Rightarrow> (nat \<times> string) option" where
  "GetFixed16 input = (if length input < 2 then None else Some (DecodeFixed16 True input, drop 2 input))"

definition GetFixed32 :: "string \<Rightarrow> (nat \<times> string) option" where
  "GetFixed32 input = (if length input < 4 then None else Some (DecodeFixed32 True input, drop 4 input))"

definition GetFixed64 :: "string \<Rightarrow> (nat \<times> string) option" where
  "GetFixed64 input = (if length input < 8 then None else Some (DecodeFixed64 True input, drop 8 input))"

section \<open>Variable-length integers\<close>

text \<open>\<open>EncodeVarint32\<close> unrolls the loop of \<open>EncodeVarint64\<close>; bytes are stored modulo 256.\<close>

definition EncodeVarint32 :: "nat \<Rightarrow> string" where
  "EncodeVarint32 v =
    (if v < 2 ^ 7 then [char_of v]
     else if v < 2 ^ 14 then [char_of (v OR 128), char_of (drop_bit 7 v)]
     else if v < 2 ^ 21 then [char_of (v OR 128), char_of (drop_bit 7 v OR 128), char_of (drop_bit 14 v)]
     else if v < 2 ^ 28 then [char_of (v OR 128), char_of (drop_bit 7 v OR 128), char_of (drop_bit 14 v OR 128),
       char_of (drop_bit 21 v)]
     else [char_of (v OR 128), char_of (drop_bit 7 v OR 128), char_of (drop_bit 14 v OR 128),
       char_of (drop_bit 21 v OR 128), char_of (drop_bit 28 v)])"

function EncodeVarint64 :: "nat \<Rightarrow> string" where
  "EncodeVarint64 v = (if 128 \<le> v then char_of ((v AND 127) OR 128) # EncodeVarint64 (drop_bit 7 v) else [char_of v])"
  by pat_completeness auto
termination
  by (relation "measure id") (auto simp: drop_bit_eq_div)

function VarintLength :: "nat \<Rightarrow> nat" where
  "VarintLength v = (if 128 \<le> v then VarintLength (drop_bit 7 v) + 1 else 1)"
  by pat_completeness auto
termination
  by (relation "measure id") (auto simp: drop_bit_eq_div)

declare EncodeVarint64.simps [simp del] VarintLength.simps [simp del]

text \<open>
  The decoding loop of \<open>GetVarint32PtrFallback\<close> (\<open>w = 32\<close>, shifts up to 28) and \<open>GetVarint64Ptr\<close>
  (\<open>w = 64\<close>, shifts up to 63); shifted bytes are truncated to the width of the result.
\<close>

fun varint_loop :: "nat \<Rightarrow> nat \<Rightarrow> nat \<Rightarrow> nat \<Rightarrow> string \<Rightarrow> (nat \<times> string) option" where
  "varint_loop w bound shift result [] = None"
| "varint_loop w bound shift result (c # p) =
    (if bound < shift then None
     else let byte = ord c in
       if byte AND 128 \<noteq> 0
       then varint_loop w bound (shift + 7) (result OR (push_bit shift (byte AND 127) mod 2 ^ w)) p
       else Some (result OR (push_bit shift byte mod 2 ^ w), p))"

definition GetVarint32PtrFallback :: "string \<Rightarrow> (nat \<times> string) option" where
  "GetVarint32PtrFallback p = varint_loop 32 28 0 0 p"

definition GetVarint32Ptr :: "string \<Rightarrow> (nat \<times> string) option" where
  "GetVarint32Ptr p = (case p of
      c # q \<Rightarrow> if ord c AND 128 = 0 then Some (ord c, q) else GetVarint32PtrFallback p
    | [] \<Rightarrow> GetVarint32PtrFallback p)"

definition GetVarint32 :: "string \<Rightarrow> (nat \<times> string) option" where
  "GetVarint32 p = GetVarint32Ptr p"

definition GetVarint64 :: "string \<Rightarrow> (nat \<times> string) option" where
  "GetVarint64 p = varint_loop 64 63 0 0 p"

definition PutVarint32 :: "string \<Rightarrow> nat \<Rightarrow> string" where "PutVarint32 dst v = dst @ EncodeVarint32 v"
definition PutVarint64 :: "string \<Rightarrow> nat \<Rightarrow> string" where "PutVarint64 dst v = dst @ EncodeVarint64 v"

definition PutVarint32Varint32 :: "string \<Rightarrow> nat \<Rightarrow> nat \<Rightarrow> string" where
  "PutVarint32Varint32 dst v1 v2 = dst @ EncodeVarint32 v1 @ EncodeVarint32 v2"

definition PutVarint32Varint32Varint32 :: "string \<Rightarrow> nat \<Rightarrow> nat \<Rightarrow> nat \<Rightarrow> string" where
  "PutVarint32Varint32Varint32 dst v1 v2 v3 = dst @ EncodeVarint32 v1 @ EncodeVarint32 v2 @ EncodeVarint32 v3"

definition PutVarint64Varint64 :: "string \<Rightarrow> nat \<Rightarrow> nat \<Rightarrow> string" where
  "PutVarint64Varint64 dst v1 v2 = dst @ EncodeVarint64 v1 @ EncodeVarint64 v2"

definition PutVarint32Varint64 :: "string \<Rightarrow> nat \<Rightarrow> nat \<Rightarrow> string" where
  "PutVarint32Varint64 dst v1 v2 = dst @ EncodeVarint32 v1 @ EncodeVarint64 v2"

definition PutVarint32Varint32Varint64 :: "string \<Rightarrow> nat \<Rightarrow> nat \<Rightarrow> nat \<Rightarrow> string" where
  "PutVarint32Varint32Varint64 dst v1 v2 v3 = dst @ EncodeVarint32 v1 @ EncodeVarint32 v2 @ EncodeVarint64 v3"

section \<open>Signed integers and slices\<close>

text \<open>\<open>int64_t\<close> values are \<open>int\<close>; their conversion to \<open>uint64_t\<close> is reduction modulo \<open>2\<^sup>6\<^sup>4\<close>.\<close>

definition to_u64 :: "int \<Rightarrow> nat" where "to_u64 i = nat (i mod 2 ^ 64)"

definition to_i64 :: "nat \<Rightarrow> int" where
  "to_i64 n = (if n < 2 ^ 63 then int n else int n - 2 ^ 64)"

definition i64ToZigzag :: "int \<Rightarrow> nat" where
  "i64ToZigzag l = (push_bit 1 (to_u64 l) mod 2 ^ 64) XOR to_u64 (drop_bit 63 l)"

definition zigzagToI64 :: "nat \<Rightarrow> int" where
  "zigzagToI64 n = to_i64 (drop_bit 1 n XOR to_u64 (- int (n AND 1)))"

definition PutVarsignedint64 :: "string \<Rightarrow> int \<Rightarrow> string" where
  "PutVarsignedint64 dst v = dst @ EncodeVarint64 (i64ToZigzag v)"

definition GetVarsignedint64 :: "string \<Rightarrow> (int \<times> string) option" where
  "GetVarsignedint64 p = (case GetVarint64 p of None \<Rightarrow> None | Some (u, q) \<Rightarrow> Some (zigzagToI64 u, q))"

definition PutLengthPrefixedSlice :: "string \<Rightarrow> string \<Rightarrow> string" where
  "PutLengthPrefixedSlice dst v = PutVarint32 dst (cast32 (length v)) @ v"

definition PutLengthPrefixedSlicePartsTotal :: "string \<Rightarrow> nat \<Rightarrow> string list \<Rightarrow> string" where
  "PutLengthPrefixedSlicePartsTotal dst total_bytes parts =
     PutVarint32 dst (cast32 (foldl (\<lambda>n p. n + length p) total_bytes parts)) @ concat parts"

definition PutLengthPrefixedSliceParts :: "string \<Rightarrow> string list \<Rightarrow> string" where
  "PutLengthPrefixedSliceParts dst parts = PutLengthPrefixedSlicePartsTotal dst 0 parts"

definition PutLengthPrefixedSlicePartsWithPadding :: "string \<Rightarrow> string list \<Rightarrow> nat \<Rightarrow> string" where
  "PutLengthPrefixedSlicePartsWithPadding dst parts pad_sz =
     PutLengthPrefixedSlicePartsTotal dst pad_sz parts @ replicate pad_sz (CHR 0x00)"

definition GetLengthPrefixedSlice :: "string \<Rightarrow> (string \<times> string) option" where
  "GetLengthPrefixedSlice input = (case GetVarint32 input of None \<Rightarrow> None
     | Some (len, rest) \<Rightarrow> if len \<le> length rest then Some (take len rest, drop len rest) else None)"

definition GetSliceUntil :: "string \<Rightarrow> char \<Rightarrow> string \<times> string" where
  "GetSliceUntil s delimiter = (let len = length (takeWhile (\<lambda>c. c \<noteq> delimiter) s)
     in (take len s, drop (len + (if len < length s then 1 else 0)) s))"

section \<open>Bits and bytes\<close>

lemma bit_below: "r < 2 ^ s \<Longrightarrow> bit r n \<Longrightarrow> n < s" for r :: nat
proof (rule ccontr)
  assume r: "r < 2 ^ s" "bit r n" and n: "\<not> n < s"
  then have "r < 2 ^ n" by (meson not_less order_less_le_trans power_increasing one_le_numeral)
  then show False using r by (simp add: bit_iff_odd)
qed

lemma or_shift: "r < 2 ^ s \<Longrightarrow> r OR push_bit s b = r + b * 2 ^ s" for r b :: nat
proof -
  assume r: "r < 2 ^ s"
  have "\<not> bit r n \<or> \<not> bit (push_bit s b) n" for n
    using bit_below [OF r, of n] by (auto simp: bit_push_bit_iff)
  then have "r + push_bit s b = r OR push_bit s b" by (rule disjunctive_add)
  then show ?thesis by (simp add: push_bit_eq_mult)
qed

lemma xor_mask: "x < 2 ^ k \<Longrightarrow> x XOR (2 ^ k - 1) = 2 ^ k - 1 - x" for x :: nat
proof -
  assume x: "x < 2 ^ k"
  have "x + (x XOR mask k) = x OR (x XOR mask k)"
    by (rule disjunctive_add) (use bit_below [OF x] in \<open>auto simp: bit_xor_iff bit_mask_iff\<close>)
  also have "\<dots> = mask k"
    by (rule bit_eqI) (use bit_below [OF x] in \<open>auto simp: bit_or_iff bit_xor_iff bit_mask_iff\<close>)
  finally show ?thesis by (simp add: mask_eq_exp_minus_1)
qed

lemma and_127 [simp]: "n AND 127 = n mod 128" for n :: nat
  using take_bit_eq_mask [of 7 n] by (simp add: take_bit_eq_mod mask_eq_exp_minus_1)

lemma and_255 [simp]: "n AND 255 = n mod 256" for n :: nat
  using take_bit_eq_mask [of 8 n] by (simp add: take_bit_eq_mod mask_eq_exp_minus_1)

lemma and_128_eq_0 [simp]: "n AND 128 = 0 \<longleftrightarrow> even (n div 128)" for n :: nat
  using and_exp_eq_0_iff_not_bit [of n 7] by (simp add: bit_iff_odd)

lemma ord_char_of [simp]: "ord (char_of n) = n mod 256"
  by (simp add: ord_def)

lemma ord_less [simp]: "ord c < 256"
  by (simp add: ord_def)

section \<open>Fixed-width integers, whatever the byte order\<close>

lemma length_le_bytes [simp]: "length (le_bytes n v) = n"
  by (induction n arbitrary: v) auto

lemma le_value_le_bytes: "le_value (le_bytes n v) = v mod 256 ^ n"
proof (induction n arbitrary: v)
  case (Suc n)
  then show ?case by (simp add: mod_mult2_eq)
qed simp

lemma le_bytes_numeral [simp]: "le_bytes (numeral k) v = char_of v # le_bytes (pred_numeral k) (v div 256)"
  by (simp add: numeral_eq_Suc [of k])

lemma EncodeFixed16_eq: "EncodeFixed16 little v = le_bytes 2 v"
  by (simp add: EncodeFixed16_def drop_bit_eq_div)

lemma EncodeFixed32_eq: "EncodeFixed32 little v = le_bytes 4 v"
  by (simp add: EncodeFixed32_def drop_bit_eq_div div_mult2_eq [symmetric])

lemma EncodeFixed64_eq: "EncodeFixed64 little v = le_bytes 8 v"
  by (simp add: EncodeFixed64_def drop_bit_eq_div div_mult2_eq [symmetric])

lemma or_byte: "a < 256 \<Longrightarrow> a OR push_bit 8 b = a + 256 * b" for a b :: nat
  using or_shift [of a 8 b] by simp

lemma DecodeFixed16_eq: "2 \<le> length p \<Longrightarrow> DecodeFixed16 little p = le_value (take 2 p)"
proof -
  assume "2 \<le> length p"
  then obtain a b q where "p = a # b # q" by (metis One_nat_def Suc_le_length_iff numeral_2_eq_2)
  then show ?thesis by (simp add: DecodeFixed16_def or_byte)
qed

lemma DecodeFixed32_eq: "4 \<le> length p \<Longrightarrow> DecodeFixed32 little p = le_value (take 4 p)"
proof -
  assume "4 \<le> length p"
  then obtain a b c d q where p: "p = a # b # c # d # q"
    by (auto simp: numeral_eq_Suc Suc_le_length_iff)
  have "ord a OR push_bit 8 (ord b) OR push_bit 16 (ord c) OR push_bit 24 (ord d) =
      ord a OR push_bit 8 (ord b OR push_bit 8 (ord c OR push_bit 8 (ord d)))"
    by (simp add: push_bit_or)
  then show ?thesis by (simp add: DecodeFixed32_def p or_byte)
qed

lemma le_value_append: "le_value (xs @ ys) = le_value xs + 256 ^ length xs * le_value ys"
  by (induction xs) (auto simp: algebra_simps)

lemma le_value_bound: "le_value xs < 256 ^ length xs"
proof (induction xs)
  case (Cons c xs)
  then have "le_value xs + 1 \<le> 256 ^ length xs" by simp
  then have "256 * (le_value xs + 1) \<le> 256 * 256 ^ length xs" by (rule mult_le_mono2)
  then show ?case using ord_less [of c] by (simp del: ord_less)
qed simp

lemma DecodeFixed64_eq: "8 \<le> length p \<Longrightarrow> DecodeFixed64 little p = le_value (take 8 p)"
proof (cases little)
  case False
  assume p: "8 \<le> length p"
  have "le_value (take 4 p) < 256 ^ 4" using le_value_bound [of "take 4 p"] p by simp
  then have "le_value (take 4 p) < 2 ^ 32" by simp
  moreover have "take 8 p = take 4 p @ take 4 (drop 4 p)" using take_add [of 4 4 p] by simp
  ultimately show ?thesis using p False or_shift [of "le_value (take 4 p)" 32 "le_value (take 4 (drop 4 p))"]
    by (simp add: DecodeFixed64_def DecodeFixed32_eq or.commute le_value_append)
qed (simp add: DecodeFixed64_def)

lemmas fixed_eqs = EncodeFixed16_eq EncodeFixed32_eq EncodeFixed64_eq DecodeFixed16_eq DecodeFixed32_eq DecodeFixed64_eq

declare le_bytes_numeral [simp del]

lemma GetFixed16_put: "v < 2 ^ 16 \<Longrightarrow> GetFixed16 (PutFixed16 [] v @ r) = Some (v, r)"
  by (simp add: GetFixed16_def PutFixed16_def fixed_eqs le_value_le_bytes)

lemma GetFixed32_put: "v < 2 ^ 32 \<Longrightarrow> GetFixed32 (PutFixed32 [] v @ r) = Some (v, r)"
  by (simp add: GetFixed32_def PutFixed32_def fixed_eqs le_value_le_bytes)

lemma GetFixed64_put: "v < 2 ^ 64 \<Longrightarrow> GetFixed64 (PutFixed64 [] v @ r) = Some (v, r)"
  by (simp add: GetFixed64_def PutFixed64_def fixed_eqs le_value_le_bytes)

section \<open>Variable-length integers\<close>

lemma high_byte: "((v mod 128) OR 128) = v mod 128 + 128" for v :: nat
  using or_shift [of "v mod 128" 7 1] by simp

lemma EncodeVarint64_small: "v < 128 \<Longrightarrow> EncodeVarint64 v = [char_of v]"
  by (simp add: EncodeVarint64.simps)

lemma EncodeVarint64_big: "128 \<le> v \<Longrightarrow> EncodeVarint64 v = char_of (v mod 128 + 128) # EncodeVarint64 (v div 128)"
  by (subst EncodeVarint64.simps) (simp add: high_byte drop_bit_eq_div)

text \<open>Decoding undoes encoding at any bit position of the accumulated result.\<close>

lemma varint_loop_encode:
  assumes "v * 2 ^ s < 2 ^ w" "r < 2 ^ s" "s \<le> m" "7 dvd s" "7 dvd m" "w \<le> m + 7"
  shows "varint_loop w m s r (EncodeVarint64 v @ rest) = Some (r + v * 2 ^ s, rest)"
  using assms
proof (induction v arbitrary: s r rule: less_induct)
  case (less v)
  note a = less.prems
  show ?case
  proof (cases "v < 128")
    case True
    then have "push_bit s v mod 2 ^ w = v * 2 ^ s" using a(1) by (simp add: push_bit_eq_mult)
    then show ?thesis using True a or_shift [OF a(2), of v]
      by (simp add: EncodeVarint64_small push_bit_eq_mult)
  next
    case False
    then have v: "128 \<le> v" by simp
    have le: "(v mod 128) * 2 ^ s \<le> v * 2 ^ s" "(v div 128) * 2 ^ (s + 7) \<le> v * 2 ^ s"
      using div_times_less_eq_dividend [of v 128] by (auto simp: power_add algebra_simps)
    have "(v mod 128) * 2 ^ s < 2 ^ w" using le(1) a(1) by (rule order_le_less_trans)
    then have m: "push_bit s (v mod 128) mod 2 ^ w = push_bit s (v mod 128)"
      by (simp add: push_bit_eq_mult)
    have "(2::nat) ^ (s + 7) \<le> v * 2 ^ s" using v by (simp add: power_add)
    then have "(2::nat) ^ (s + 7) < 2 ^ w" using a(1) by (rule order_le_less_trans)
    then have "s + 7 < w" by (rule power_less_imp_less_exp [rotated]) simp
    then have "s < m" using a(6) by simp
    then have s: "s + 7 \<le> m" using a(4,5) by (auto elim!: dvdE)
    have r: "r + (v mod 128) * 2 ^ s < 2 ^ (s + 7)"
    proof -
      have "r + (v mod 128) * 2 ^ s < 2 ^ s + 127 * 2 ^ s" using a(2) by (intro add_less_le_mono mult_le_mono1) (auto simp: less_Suc_eq_le [symmetric])
      then show ?thesis by (simp add: power_add)
    qed
    have "varint_loop w m (s + 7) (r + (v mod 128) * 2 ^ s) (EncodeVarint64 (v div 128) @ rest) =
        Some (r + (v mod 128) * 2 ^ s + (v div 128) * 2 ^ (s + 7), rest)"
      using v r s le(2) a by (intro less.IH) auto
    moreover have "r + (v mod 128) * 2 ^ s + (v div 128) * 2 ^ (s + 7) = r + v * 2 ^ s"
    proof -
      have "v * 2 ^ s = (v mod 128 + 128 * (v div 128)) * 2 ^ s" by simp
      then show ?thesis by (simp only: power_add distrib_right) (simp add: ac_simps)
    qed
    ultimately show ?thesis using v a or_shift [OF a(2), of "v mod 128"]
      by (simp add: EncodeVarint64_big m)
  qed
qed

lemma GetVarint64_encode: "v < 2 ^ 64 \<Longrightarrow> GetVarint64 (EncodeVarint64 v @ r) = Some (v, r)"
  using varint_loop_encode [of v 0 64 0 63 r] by (simp add: GetVarint64_def)

lemma or_128_mod: "(v OR 128) mod 256 = v mod 128 + 128" for v :: nat
proof -
  have b: "bit (2 ^ 7 :: nat) n \<longleftrightarrow> n = 7" for n
    by (simp only: bit_exp_iff) simp
  have "take_bit 8 (v OR 2 ^ 7) = take_bit 7 v OR 2 ^ 7"
    by (rule bit_eqI) (simp only: bit_take_bit_iff bit_or_iff b, linarith)
  then have "(v OR 128) mod 256 = (v mod 128) OR 128"
    by (simp add: take_bit_eq_mod)
  then show ?thesis by (simp only: high_byte)
qed

lemma or_128_char: "char_of (v OR 128) = char_of (v mod 128 + 128)" for v :: nat
  using arg_cong [OF or_128_mod [of v], of char_of] by (simp only: char_of_mod_256)

lemma EncodeVarint64_step: "EncodeVarint64 v =
    (if v < 128 then [char_of v] else char_of (v OR 128) # EncodeVarint64 (v div 128))"
  by (simp add: EncodeVarint64_small EncodeVarint64_big or_128_char)

lemma EncodeVarint64_div: "0 < a \<Longrightarrow> EncodeVarint64 (v div a) =
    (if v < 128 * a then [char_of (v div a)] else char_of ((v div a) OR 128) # EncodeVarint64 (v div (a * 128)))"
  using EncodeVarint64_step [of "v div a"] by (simp add: div_mult2_eq div_less_iff_less_mult)

lemma EncodeVarint32_eq: "v < 2 ^ 32 \<Longrightarrow> EncodeVarint32 v = EncodeVarint64 v"
  unfolding EncodeVarint32_def
  by (simp add: EncodeVarint64_step [of v] EncodeVarint64_div [of 128] EncodeVarint64_div [of 16384]
      EncodeVarint64_div [of 2097152] EncodeVarint64_div [of 268435456] drop_bit_eq_div)

lemma GetVarint32_encode: "v < 2 ^ 32 \<Longrightarrow> GetVarint32 (EncodeVarint32 v @ r) = Some (v, r)"
proof -
  assume v: "v < 2 ^ 32"
  have loop: "GetVarint32PtrFallback (EncodeVarint64 v @ r) = Some (v, r)"
    using v varint_loop_encode [of v 0 32 0 28 r] by (simp add: GetVarint32PtrFallback_def)
  show ?thesis
  proof (cases "v < 128")
    case True
    then show ?thesis using v
      by (simp add: EncodeVarint32_eq EncodeVarint64_small GetVarint32_def GetVarint32Ptr_def)
  next
    case False
    then show ?thesis using v loop
      by (simp add: EncodeVarint32_eq EncodeVarint64_big GetVarint32_def GetVarint32Ptr_def)
  qed
qed

lemma length_EncodeVarint64: "length (EncodeVarint64 v) = VarintLength v"
proof (induction v rule: less_induct)
  case (less v)
  then show ?case by (simp add: EncodeVarint64.simps [of v] VarintLength.simps [of v] drop_bit_eq_div)
qed

lemma VarintLength_bound: "v < 2 ^ (7 * n) \<Longrightarrow> 0 < n \<Longrightarrow> VarintLength v \<le> n"
proof (induction n arbitrary: v)
  case (Suc n)
  show ?case
  proof (cases "128 \<le> v")
    case True
    then have "n \<noteq> 0" using Suc.prems by (cases n) auto
    moreover have "v div 128 < 2 ^ (7 * n)" using Suc.prems(1) by (simp add: power_add less_mult_imp_div_less)
    ultimately show ?thesis using Suc.IH True by (simp add: VarintLength.simps [of v] drop_bit_eq_div)
  qed (simp add: VarintLength.simps [of v])
qed simp

lemma VarintLength_pos: "0 < VarintLength v"
  by (simp add: VarintLength.simps [of v])
lemma or_bound: "a < 2 ^ w \<Longrightarrow> b < 2 ^ w \<Longrightarrow> a OR b < 2 ^ w" for a b :: nat
  by (simp flip: take_bit_nat_eq_self_iff)

lemma varint_loop_bound:
  "varint_loop w m s r p = Some (v, q) \<Longrightarrow> r < 2 ^ w \<Longrightarrow>
    v < 2 ^ w \<and> (\<exists>u. p = u @ q \<and> u \<noteq> [] \<and> s + 7 * (length u - 1) \<le> m)"
proof (induction p arbitrary: s r)
  case (Cons c p)
  show ?case
  proof (cases "ord c AND 128 = 0")
    case True
    then show ?thesis using Cons.prems by (auto simp: or_bound split: if_splits intro: exI [of _ "[c]"])
  next
    case False
    then have "varint_loop w m (s + 7) (r OR (push_bit s (ord c AND 127) mod 2 ^ w)) p = Some (v, q)"
      using Cons.prems(1) by (simp add: Let_def split: if_splits)
    from Cons.IH [OF this] Cons.prems(2) obtain u where
      "v < 2 ^ w" "p = u @ q" "u \<noteq> []" "s + 7 + 7 * (length u - 1) \<le> m" by (auto simp: or_bound)
    then show ?thesis by (intro conjI exI [of _ "c # u"]) (auto simp: neq_Nil_conv)
  qed
qed simp

section \<open>Signed integers\<close>

lemma zigzag_roundtrip: "- (2 ^ 63) \<le> l \<Longrightarrow> l < 2 ^ 63 \<Longrightarrow> zigzagToI64 (i64ToZigzag l) = l \<and> i64ToZigzag l < 2 ^ 64"
proof (cases "0 \<le> l")
  case True
  assume l: "l < 2 ^ 63"
  then have "drop_bit 63 l = 0" "to_u64 l = nat l" using True by (auto simp: drop_bit_eq_div to_u64_def)
  then have z: "i64ToZigzag l = 2 * nat l" using l True
    by (simp add: i64ToZigzag_def to_u64_def push_bit_eq_mult)
  show ?thesis using l True by (simp add: z zigzagToI64_def to_i64_def to_u64_def drop_bit_eq_div and_one_eq)
next
  case False
  assume l: "- (2 ^ 63) \<le> l"
  define k where "k = nat (- l - 1)"
  then have k: "l = - int k - 1" "k < 2 ^ 63" using l False by auto
  have "drop_bit 63 l = - 1" using k by (simp add: drop_bit_eq_div)
  moreover have "to_u64 (- 1) = 2 ^ 64 - 1" by (simp add: to_u64_def)
  moreover have "(to_u64 l * 2) mod 2 ^ 64 = 2 ^ 64 - 2 * k - 2"
  proof -
    have "l mod 2 ^ 64 = (l + 2 ^ 64) mod 2 ^ 64" by simp
    also have "\<dots> = l + 2 ^ 64" using k by (intro mod_pos_pos_trivial) auto
    finally have "to_u64 l = 2 ^ 64 - 1 - k" using k by (simp add: to_u64_def nat_diff_distrib)
    then have "to_u64 l * 2 = 2 ^ 64 - 2 * k - 2 + 2 ^ 64" using k(2) by simp
    then have "to_u64 l * 2 mod 2 ^ 64 = (2 ^ 64 - 2 * k - 2) mod 2 ^ 64" by simp
    then show ?thesis using k(2) by simp
  qed
  ultimately have z: "i64ToZigzag l = 2 * k + 1"
    using xor_mask [of "2 ^ 64 - 2 * k - 2" 64] k(2) by (simp add: i64ToZigzag_def push_bit_eq_mult)
  have "zigzagToI64 (2 * k + 1) = - int k - 1" using xor_mask [of k 64] k(2)
    by (simp add: zigzagToI64_def to_i64_def to_u64_def drop_bit_eq_div and_one_eq)
  then show ?thesis unfolding z using k by simp
qed
section \<open>Slices\<close>

lemma GetLengthPrefixedSlice_put:
  "length d < 2 ^ 32 \<Longrightarrow> GetLengthPrefixedSlice (PutLengthPrefixedSlice [] d @ r) = Some (d, r)"
  by (simp add: GetLengthPrefixedSlice_def PutLengthPrefixedSlice_def PutVarint32_def cast32_def GetVarint32_encode)

lemma foldl_lengths: "foldl (\<lambda>n p. n + length p) n ps = n + length (concat ps)"
  by (induction ps arbitrary: n) auto

lemma slice_parts_padded: "PutLengthPrefixedSlicePartsWithPadding dst parts pad =
    PutLengthPrefixedSlice dst (concat parts @ replicate pad (CHR 0x00))"
  by (simp add: PutLengthPrefixedSlicePartsWithPadding_def PutLengthPrefixedSlicePartsTotal_def
      PutLengthPrefixedSlice_def foldl_lengths add.commute)

lemma slice_parts: "PutLengthPrefixedSliceParts dst parts = PutLengthPrefixedSlice dst (concat parts)"
  by (simp add: PutLengthPrefixedSliceParts_def PutLengthPrefixedSlicePartsTotal_def PutLengthPrefixedSlice_def foldl_lengths)

lemma varint32_inside:
  "GetVarint32 p = Some (v, q) \<Longrightarrow> v < 2 ^ 32 \<and> (\<exists>u. p = u @ q \<and> 0 < length u \<and> length u \<le> 5)"
proof (cases "\<exists>c r. p = c # r \<and> ord c AND 128 = 0")
  case True
  then obtain c r where "p = c # r" "ord c AND 128 = 0" by blast
  moreover assume "GetVarint32 p = Some (v, q)"
  ultimately show ?thesis using ord_less [of c]
    by (auto simp: GetVarint32_def GetVarint32Ptr_def intro!: exI [of _ "[c]"])
next
  case False
  assume "GetVarint32 p = Some (v, q)"
  then have "varint_loop 32 28 0 0 p = Some (v, q)" using False
    by (auto simp: GetVarint32_def GetVarint32Ptr_def GetVarint32PtrFallback_def split: list.splits if_splits)
  from varint_loop_bound [OF this] show ?thesis by (auto intro: exI)
qed

lemma slice_inside: "GetLengthPrefixedSlice p = Some (d, q) \<Longrightarrow> \<exists>u. p = u @ d @ q \<and> 0 < length u \<and> length u \<le> 5"
proof -
  assume "GetLengthPrefixedSlice p = Some (d, q)"
  then obtain n r where "GetVarint32 p = Some (n, r)" "d = take n r" "q = drop n r"
    by (auto simp: GetLengthPrefixedSlice_def split: option.splits if_splits)
  then show ?thesis using varint32_inside by (metis append_take_drop_id)
qed

section \<open>Properties\<close>

text \<open>
  C16. The fixed-width encodings do not depend on the byte order of the machine, and the unrolled
  \<open>EncodeVarint32\<close> writes the same bytes as the loop of \<open>EncodeVarint64\<close>, \<open>VarintLength\<close> of them.
\<close>

theorem encodings_agree:
  "EncodeFixed16 True v = EncodeFixed16 False v \<and> EncodeFixed32 True v = EncodeFixed32 False v \<and>
   EncodeFixed64 True v = EncodeFixed64 False v \<and>
   (2 \<le> length p \<longrightarrow> DecodeFixed16 True p = DecodeFixed16 False p) \<and>
   (4 \<le> length p \<longrightarrow> DecodeFixed32 True p = DecodeFixed32 False p) \<and>
   (8 \<le> length p \<longrightarrow> DecodeFixed64 True p = DecodeFixed64 False p) \<and>
   (v < 2 ^ 32 \<longrightarrow> EncodeVarint32 v = EncodeVarint64 v) \<and> length (EncodeVarint64 v) = VarintLength v"
  by (auto simp: fixed_eqs EncodeVarint32_eq length_EncodeVarint64)

theorem encodings_agree_witness:
  "DecodeFixed64 True ''abcdefgh'' = DecodeFixed64 False ''abcdefgh'' \<and> EncodeVarint32 300 = EncodeVarint64 300"
  using encodings_agree [of 300 "''abcdefgh''"] by simp

text \<open>
  C17. Reading back what was written returns the value and leaves the rest of the input, for the fixed
  and variable-length integers of every width, the signed ones and length-prefixed slices, whether
  written whole, in parts, or in parts with padding.
\<close>

theorem coding_roundtrip:
  "(v < 2 ^ 16 \<longrightarrow> GetFixed16 (PutFixed16 [] v @ r) = Some (v, r)) \<and>
   (v < 2 ^ 32 \<longrightarrow> GetFixed32 (PutFixed32 [] v @ r) = Some (v, r)) \<and>
   (v < 2 ^ 64 \<longrightarrow> GetFixed64 (PutFixed64 [] v @ r) = Some (v, r)) \<and>
   (v < 2 ^ 32 \<longrightarrow> GetVarint32 (PutVarint32 [] v @ r) = Some (v, r)) \<and>
   (v < 2 ^ 64 \<longrightarrow> GetVarint64 (PutVarint64 [] v @ r) = Some (v, r)) \<and>
   (- (2 ^ 63) \<le> i \<and> i < 2 ^ 63 \<longrightarrow> GetVarsignedint64 (PutVarsignedint64 [] i @ r) = Some (i, r)) \<and>
   (length d < 2 ^ 32 \<longrightarrow> GetLengthPrefixedSlice (PutLengthPrefixedSlice [] d @ r) = Some (d, r)) \<and>
   (length (concat ps) + n < 2 ^ 32 \<longrightarrow>
      GetLengthPrefixedSlice (PutLengthPrefixedSliceParts [] ps @ r) = Some (concat ps, r) \<and>
      GetLengthPrefixedSlice (PutLengthPrefixedSlicePartsWithPadding [] ps n @ r) =
        Some (concat ps @ replicate n (CHR 0x00), r))"
proof -
  have "GetVarsignedint64 (PutVarsignedint64 [] i @ r) = Some (i, r)" if "- (2 ^ 63) \<le> i" "i < 2 ^ 63"
    using zigzag_roundtrip [OF that] by (simp add: GetVarsignedint64_def PutVarsignedint64_def GetVarint64_encode)
  moreover have "GetLengthPrefixedSlice (PutLengthPrefixedSliceParts [] ps @ r) = Some (concat ps, r) \<and>
      GetLengthPrefixedSlice (PutLengthPrefixedSlicePartsWithPadding [] ps n @ r) =
        Some (concat ps @ replicate n (CHR 0x00), r)" if "length (concat ps) + n < 2 ^ 32"
    unfolding slice_parts slice_parts_padded using that by (intro conjI GetLengthPrefixedSlice_put) simp_all
  ultimately show ?thesis
    using GetFixed16_put GetFixed32_put GetFixed64_put GetVarint32_encode [of v r] GetVarint64_encode [of v r]
      GetLengthPrefixedSlice_put
    by (simp add: PutVarint32_def PutVarint64_def)
qed

theorem coding_roundtrip_witness:
  "GetVarint32 (PutVarint32 [] 300 @ ''x'') = Some (300, ''x'') \<and>
   GetVarsignedint64 (PutVarsignedint64 [] (- 5) @ ''x'') = Some (- 5, ''x'') \<and>
   GetLengthPrefixedSlice (PutLengthPrefixedSlicePartsWithPadding [] [''ab'', ''c''] 1 @ ''x'') =
     Some (concat [''ab'', ''c''] @ replicate 1 (CHR 0x00), ''x'')"
  using coding_roundtrip [of 300 "''x''" "- 5" "''abc''" "[''ab'', ''c'']" 1] by simp



end
