(* ===== verification/FileCodec.thy ===== *)
theory FileCodec
  imports Zbd Coding
begin

text \<open>
  Zone files as data (\<open>zbd_zonefile_zenfs.cc\<close>): the encoding of a file's metadata as
  written to the metadata log, decoding it, and merging a decoded update into a file. Every extent
  a file holds is accounted for in the used capacity of its zone.
\<close>

section \<open>Extents and their accounting\<close>

definition ZoneExtent_EncodeTo :: "extent \<Rightarrow> string \<Rightarrow> string" where
  "ZoneExtent_EncodeTo e output = PutFixed64 (PutFixed64 output (e_start e)) (e_length e)"

text \<open>The start and the length, or \<open>None\<close> for a status of \<open>Corruption\<close>.\<close>

definition ZoneExtent_DecodeFrom :: "string \<Rightarrow> (nat \<times> nat) option" where
  "ZoneExtent_DecodeFrom input = (if length input \<noteq> 16 then None
     else case GetFixed64 input of None \<Rightarrow> None
       | Some (start, input) \<Rightarrow> (case GetFixed64 input of None \<Rightarrow> None | Some (len, _) \<Rightarrow> Some (start, len)))"

text \<open>The pair of statements that gives a file a new extent: charge the zone, extend the vector.\<close>

definition charge :: "zid \<Rightarrow> nat \<Rightarrow> (zid \<Rightarrow> zone) \<Rightarrow> zid \<Rightarrow> zone" where
  "charge z n Z = Z(z := (Z z)\<lparr>z_used_capacity := add64 (z_used_capacity (Z z)) n\<rparr>)"

definition uncharge :: "zid \<Rightarrow> nat \<Rightarrow> (zid \<Rightarrow> zone) \<Rightarrow> zid \<Rightarrow> zone" where
  "uncharge z n Z = Z(z := (Z z)\<lparr>z_used_capacity := sub64 (z_used_capacity (Z z)) n\<rparr>)"

definition add_extent :: "fid \<Rightarrow> extent \<Rightarrow> ('b, 'm) zbd_scheme \<Rightarrow> ('b, 'm) zbd_scheme" where
  "add_extent f e s = file_upd f (\<lambda>x. x\<lparr>f_extents := f_extents x @ [e]\<rparr>)
     (s\<lparr>zone_at := charge (e_zone e) (e_length e) (zone_at s)\<rparr>)"

definition ClearExtents :: "fid \<Rightarrow> ('b, 'm) zbd_scheme \<Rightarrow> ('b, 'm) zbd_scheme" where
  "ClearExtents f s = file_upd f (\<lambda>x. x\<lparr>f_extents := []\<rparr>)
     (s\<lparr>zone_at := fold (\<lambda>e. uncharge (e_zone e) (e_length e)) (f_extents (file_at s f)) (zone_at s)\<rparr>)"

definition MetadataSynced :: "fid \<Rightarrow> ('b, 'm) zbd_scheme \<Rightarrow> ('b, 'm) zbd_scheme" where
  "MetadataSynced f s = file_upd f (\<lambda>x. x\<lparr>f_nr_synced_extents := cast32 (length (f_extents x))\<rparr>) s"

definition MetadataUnsynced :: "fid \<Rightarrow> ('b, 'm) zbd_scheme \<Rightarrow> ('b, 'm) zbd_scheme" where
  "MetadataUnsynced f s = file_upd f (\<lambda>x. x\<lparr>f_nr_synced_extents := 0\<rparr>) s"

section \<open>Encoding\<close>

abbreviation (input) kFileID :: nat where "kFileID \<equiv> 1"
abbreviation (input) kFileNameDeprecated :: nat where "kFileNameDeprecated \<equiv> 2"
abbreviation (input) kFileSize :: nat where "kFileSize \<equiv> 3"
abbreviation (input) kWriteLifeTimeHint :: nat where "kWriteLifeTimeHint \<equiv> 4"
abbreviation (input) kExtent :: nat where "kExtent \<equiv> 5"
abbreviation (input) kModificationTime :: nat where "kModificationTime \<equiv> 6"
abbreviation (input) kActiveExtentStart :: nat where "kActiveExtentStart \<equiv> 7"
abbreviation (input) kIsSparse :: nat where "kIsSparse \<equiv> 8"
abbreviation (input) kLinkedFilename :: nat where "kLinkedFilename \<equiv> 9"

definition ZoneFile_EncodeTo :: "zonefile \<Rightarrow> nat \<Rightarrow> string \<Rightarrow> string" where
  "ZoneFile_EncodeTo x extent_start output =
    (let output = PutFixed64 (PutFixed32 output kFileID) (f_file_id x);
         output = PutFixed64 (PutFixed32 output kFileSize) (f_file_size x);
         output = PutFixed32 (PutFixed32 output kWriteLifeTimeHint) (f_lifetime x);
         output = foldl (\<lambda>output e. PutLengthPrefixedSlice (PutFixed32 output kExtent) (ZoneExtent_EncodeTo e []))
           output (drop extent_start (f_extents x));
         output = PutFixed64 (PutFixed32 output kModificationTime) (f_m_time x);
         output = PutFixed64 (PutFixed32 output kActiveExtentStart) (f_extent_start x);
         output = (if f_is_sparse x then PutFixed32 output kIsSparse else output)
     in foldl (\<lambda>output n. PutLengthPrefixedSlice (PutFixed32 output kLinkedFilename) n) output (f_linkfiles x))"

definition EncodeUpdateTo :: "zonefile \<Rightarrow> string \<Rightarrow> string" where
  "EncodeUpdateTo x output = ZoneFile_EncodeTo x (f_nr_synced_extents x) output"

definition EncodeSnapshotTo :: "zonefile \<Rightarrow> string \<Rightarrow> string" where
  "EncodeSnapshotTo x output = ZoneFile_EncodeTo x 0 output"

section \<open>Decoding\<close>

lemma GetFixed32_shorter: "GetFixed32 p = Some (v, q) \<Longrightarrow> length q < length p"
  by (auto simp: GetFixed32_def split: if_splits)

lemma GetFixed64_shorter: "GetFixed64 p = Some (v, q) \<Longrightarrow> length q < length p"
  by (auto simp: GetFixed64_def split: if_splits)

lemma GetLengthPrefixedSlice_shorter: "GetLengthPrefixedSlice p = Some (d, q) \<Longrightarrow> length q < length p"
  using slice_inside [of p d q] by auto

text \<open>
  The loop over the tagged fields. A failing \<open>GetLengthPrefixedSlice\<close> of an extent leaves the slice
  empty, which the decoder of extents then rejects.
\<close>

function decode_fields :: "'b env \<Rightarrow> fid \<Rightarrow> string \<Rightarrow> ('b, 'm) zbd_scheme \<Rightarrow> status \<times> ('b, 'm) zbd_scheme" where
  "decode_fields E f input s = (case GetFixed32 input of None \<Rightarrow> (OK, s) | Some (tag, input) \<Rightarrow>
     if tag = kFileSize then
       (case GetFixed64 input of None \<Rightarrow> (Corruption, s)
        | Some (v, input) \<Rightarrow> decode_fields E f input (file_upd f (\<lambda>x. x\<lparr>f_file_size := v\<rparr>) s))
     else if tag = kWriteLifeTimeHint then
       (case GetFixed32 input of None \<Rightarrow> (Corruption, s)
        | Some (lt, input) \<Rightarrow> decode_fields E f input (file_upd f (\<lambda>x. x\<lparr>f_lifetime := lt\<rparr>) s))
     else if tag = kExtent then
       (case GetLengthPrefixedSlice input of None \<Rightarrow> (Corruption, s)
        | Some (slice, input) \<Rightarrow> (case ZoneExtent_DecodeFrom slice of None \<Rightarrow> (Corruption, s)
          | Some (start, len) \<Rightarrow> (case GetIOZone E start s of None \<Rightarrow> (Corruption, s)
            | Some z \<Rightarrow> decode_fields E f input
                (add_extent f \<lparr>e_start = start, e_length = len, e_zone = z, e_level = -1\<rparr> s))))
     else if tag = kModificationTime then
       (case GetFixed64 input of None \<Rightarrow> (Corruption, s)
        | Some (ct, input) \<Rightarrow> decode_fields E f input (file_upd f (\<lambda>x. x\<lparr>f_m_time := ct\<rparr>) s))
     else if tag = kActiveExtentStart then
       (case GetFixed64 input of None \<Rightarrow> (Corruption, s)
        | Some (es, input) \<Rightarrow> decode_fields E f input (file_upd f (\<lambda>x. x\<lparr>f_extent_start := es\<rparr>) s))
     else if tag = kIsSparse then decode_fields E f input (file_upd f (\<lambda>x. x\<lparr>f_is_sparse := True\<rparr>) s)
     else if tag = kLinkedFilename then
       (case GetLengthPrefixedSlice input of None \<Rightarrow> (Corruption, s)
        | Some (slice, input) \<Rightarrow> if slice = [] then (Corruption, s)
            else decode_fields E f input (file_upd f (\<lambda>x. x\<lparr>f_linkfiles := f_linkfiles x @ [slice]\<rparr>) s))
     else (Corruption, s))"
  by pat_completeness auto
termination
  by (relation "measure (\<lambda>(E, f, input, s). length input)")
    (auto dest!: GetFixed32_shorter GetFixed64_shorter GetLengthPrefixedSlice_shorter)

declare decode_fields.simps [simp del]

definition ZoneFile_DecodeFrom ::
    "'b env \<Rightarrow> fid \<Rightarrow> string \<Rightarrow> ('b, 'm) zbd_scheme \<Rightarrow> status \<times> ('b, 'm) zbd_scheme" where
  "ZoneFile_DecodeFrom E f input s = (case GetFixed32 input of None \<Rightarrow> (Corruption, s) | Some (tag, input) \<Rightarrow>
     if tag \<noteq> kFileID then (Corruption, s) else case GetFixed64 input of None \<Rightarrow> (Corruption, s)
     | Some (i, input) \<Rightarrow>
         let (st, s) = decode_fields E f input (file_upd f (\<lambda>x. x\<lparr>f_file_id := i\<rparr>) s)
         in if st \<noteq> OK then (st, s) else (OK, MetadataSynced f s))"

definition MergeUpdate :: "fid \<Rightarrow> fid \<Rightarrow> bool \<Rightarrow> ('b, 'm) zbd_scheme \<Rightarrow> status \<times> ('b, 'm) zbd_scheme" where
  "MergeUpdate f update replace s = (if f_file_id (file_at s f) \<noteq> f_file_id (file_at s update) then (Corruption, s) else
     let u = file_at s update;
         s = file_upd f (\<lambda>x. x\<lparr>f_file_size := f_file_size u, f_lifetime := f_lifetime u, f_m_time := f_m_time u\<rparr>) s;
         s = (if replace then ClearExtents f s else s);
         s = fold (\<lambda>e. add_extent f (e\<lparr>e_level := -1\<rparr>)) (f_extents u) s;
         s = file_upd f (\<lambda>x. x\<lparr>f_extent_start := f_extent_start u, f_is_sparse := f_is_sparse u\<rparr>) s;
         s = MetadataSynced f s
     in (OK, file_upd f (\<lambda>x. x\<lparr>f_linkfiles := f_linkfiles u\<rparr>) s))"

section \<open>Accounting\<close>

text \<open>The bytes of a list of extents that lie in a zone, and the zones charged for them.\<close>

definition load :: "extent list \<Rightarrow> zid \<Rightarrow> nat" where
  "load es z = (\<Sum>e\<leftarrow>es. if e_zone e = z then e_length e else 0)"

definition charged :: "extent list \<Rightarrow> (zid \<Rightarrow> zone) \<Rightarrow> zid \<Rightarrow> zone" where
  "charged es Z z = (Z z)\<lparr>z_used_capacity := (z_used_capacity (Z z) + load es z) mod 2 ^ 64\<rparr>"

definition used_ok :: "('b, 'm) zbd_scheme \<Rightarrow> bool" where
  "used_ok s \<longleftrightarrow> (\<forall>z. z_used_capacity (zone_at s z) < 2 ^ 64)"

lemma load_Nil [simp]: "load [] z = 0" and load_Cons [simp]: "load (e # es) z = (if e_zone e = z then e_length e else 0) + load es z"
  and load_append [simp]: "load (es @ es') z = load es z + load es' z"
  by (simp_all add: load_def)

lemma fold_charge: "\<forall>z. z_used_capacity (Z z) < 2 ^ 64 \<Longrightarrow>
    fold (\<lambda>e. charge (e_zone e) (e_length e)) es Z = charged es Z"
proof (induction es arbitrary: Z)
  case Nil
  then show ?case by (auto simp: charged_def intro!: ext)
next
  case (Cons e es)
  have "charged es (charge (e_zone e) (e_length e) Z) = charged (e # es) Z"
    using Cons.prems by (auto simp: charged_def charge_def add64_def mod_simps ac_simps intro!: ext)
  moreover have "\<forall>z. z_used_capacity (charge (e_zone e) (e_length e) Z z) < 2 ^ 64"
    using Cons.prems by (simp add: charge_def add64_def)
  ultimately show ?case using Cons.IH by simp
qed

lemma uncharge_charged:
  assumes "\<forall>z. z_used_capacity (Z z) < 2 ^ 64" "e_length e < 2 ^ 64"
  shows "uncharge (e_zone e) (e_length e) (charged (e # es) Z) = charged es Z"
proof -
  have "sub64 ((u + (n + l)) mod 2 ^ 64) n = (u + l) mod 2 ^ 64" if "n < 2 ^ 64" for u n l
  proof -
    have "sub64 ((u + (n + l)) mod 2 ^ 64) n = (u + (n + l) + (2 ^ 64 - n)) mod 2 ^ 64"
      using that by (simp only: sub64_def mod_add_left_eq mod_less)
    also have "u + (n + l) + (2 ^ 64 - n) = u + l + 2 ^ 64" using that by simp
    finally show ?thesis by simp
  qed
  then show ?thesis using assms by (auto simp: charged_def uncharge_def intro!: ext)
qed

lemma fold_uncharge: "\<forall>z. z_used_capacity (Z z) < 2 ^ 64 \<Longrightarrow> \<forall>e \<in> set es. e_length e < 2 ^ 64 \<Longrightarrow>
    fold (\<lambda>e. uncharge (e_zone e) (e_length e)) es (charged (es @ es') Z) = charged es' Z"
  by (induction es) (auto simp: uncharge_charged)

lemma charged_Nil: "\<forall>z. z_used_capacity (Z z) < 2 ^ 64 \<Longrightarrow> charged [] Z = Z"
  by (auto simp: charged_def intro!: ext)

lemma charged_charged: "charged es (charged es' Z) = charged (es' @ es) Z"
  by (auto simp: charged_def mod_simps ac_simps intro!: ext)

lemma charged_bound [simp]: "z_used_capacity (charged es Z z) < 2 ^ 64"
  by (simp add: charged_def)

lemma fold_add_extent: "fold (add_extent f) es s = file_upd f (\<lambda>x. x\<lparr>f_extents := f_extents x @ es\<rparr>)
    (s\<lparr>zone_at := fold (\<lambda>e. charge (e_zone e) (e_length e)) es (zone_at s)\<rparr>)"
proof (induction es arbitrary: s)
  case (Cons e es)
  show ?case by (simp only: fold_simps Cons.IH) (simp add: add_extent_def [of f e s] fun_upd_same del: fun_upd_apply)
qed simp

lemma GetIOZone_cong: "io_zones s' = io_zones s \<Longrightarrow> (\<And>z. z_start (zone_at s' z) = z_start (zone_at s z)) \<Longrightarrow>
    GetIOZone E p s' = GetIOZone E p s"
  by (simp add: GetIOZone_def)

lemma GetIOZone_add_extent [simp]: "GetIOZone E p (add_extent f e s) = GetIOZone E p s"
  by (rule GetIOZone_cong) (auto simp: add_extent_def charge_def)

section \<open>Decoding what was encoded\<close>

lemma put_fixed: "PutFixed32 out v = out @ le_bytes 4 v" "PutFixed64 out v = out @ le_bytes 8 v"
  by (simp_all add: PutFixed32_def PutFixed64_def fixed_eqs)

lemma get_fixed: "v < 2 ^ 32 \<Longrightarrow> GetFixed32 (le_bytes 4 v @ r) = Some (v, r)"
    "v < 2 ^ 64 \<Longrightarrow> GetFixed64 (le_bytes 8 v @ r) = Some (v, r)"
  using GetFixed32_put [of v r] GetFixed64_put [of v r] by (simp_all add: put_fixed)

lemma put_slice: "PutLengthPrefixedSlice out d = out @ PutLengthPrefixedSlice [] d"
  by (simp add: PutLengthPrefixedSlice_def PutVarint32_def)

lemma length_ZoneExtent_EncodeTo: "length (ZoneExtent_EncodeTo e []) = 16"
  by (simp add: ZoneExtent_EncodeTo_def put_fixed)

lemma extent_roundtrip:
  "e_start e < 2 ^ 64 \<Longrightarrow> e_length e < 2 ^ 64 \<Longrightarrow> ZoneExtent_DecodeFrom (ZoneExtent_EncodeTo e []) = Some (e_start e, e_length e)"
  using get_fixed(2) [of "e_start e"] get_fixed(2) [of "e_length e" "[]"]
  by (simp add: ZoneExtent_DecodeFrom_def ZoneExtent_EncodeTo_def put_fixed)

definition enc_extent :: "extent \<Rightarrow> string" where
  "enc_extent e = le_bytes 4 kExtent @ PutLengthPrefixedSlice [] (ZoneExtent_EncodeTo e [])"

definition enc_link :: "string \<Rightarrow> string" where
  "enc_link n = le_bytes 4 kLinkedFilename @ PutLengthPrefixedSlice [] n"

lemma foldl_append_concat: "foldl (\<lambda>out x. out @ g x) out xs = out @ concat (map g xs)"
  by (induction xs arbitrary: out) auto

lemma encode_pieces: "ZoneFile_EncodeTo x n [] = le_bytes 4 kFileID @ le_bytes 8 (f_file_id x) @
    le_bytes 4 kFileSize @ le_bytes 8 (f_file_size x) @ le_bytes 4 kWriteLifeTimeHint @ le_bytes 4 (f_lifetime x) @
    concat (map enc_extent (drop n (f_extents x))) @ le_bytes 4 kModificationTime @ le_bytes 8 (f_m_time x) @
    le_bytes 4 kActiveExtentStart @ le_bytes 8 (f_extent_start x) @ (if f_is_sparse x then le_bytes 4 kIsSparse else []) @
    concat (map enc_link (f_linkfiles x))"
proof -
  have "(\<lambda>out e. PutLengthPrefixedSlice (PutFixed32 out kExtent) (ZoneExtent_EncodeTo e [])) = (\<lambda>out e. out @ enc_extent e)"
    "(\<lambda>out n. PutLengthPrefixedSlice (PutFixed32 out kLinkedFilename) n) = (\<lambda>out n. out @ enc_link n)"
    by (simp_all add: put_fixed put_slice [of "_ @ _"] enc_extent_def enc_link_def)
  then show ?thesis by (simp add: ZoneFile_EncodeTo_def Let_def foldl_append_concat put_fixed)
qed

text \<open>One step of the loop for every kind of field.\<close>

lemma decode_steps:
  "v < 2 ^ 64 \<Longrightarrow> decode_fields E f (le_bytes 4 kFileSize @ le_bytes 8 v @ r) s =
    decode_fields E f r (file_upd f (\<lambda>x. x\<lparr>f_file_size := v\<rparr>) s)"
  "v < 2 ^ 32 \<Longrightarrow> decode_fields E f (le_bytes 4 kWriteLifeTimeHint @ le_bytes 4 v @ r) s =
    decode_fields E f r (file_upd f (\<lambda>x. x\<lparr>f_lifetime := v\<rparr>) s)"
  "v < 2 ^ 64 \<Longrightarrow> decode_fields E f (le_bytes 4 kModificationTime @ le_bytes 8 v @ r) s =
    decode_fields E f r (file_upd f (\<lambda>x. x\<lparr>f_m_time := v\<rparr>) s)"
  "v < 2 ^ 64 \<Longrightarrow> decode_fields E f (le_bytes 4 kActiveExtentStart @ le_bytes 8 v @ r) s =
    decode_fields E f r (file_upd f (\<lambda>x. x\<lparr>f_extent_start := v\<rparr>) s)"
  "decode_fields E f (le_bytes 4 kIsSparse @ r) s = decode_fields E f r (file_upd f (\<lambda>x. x\<lparr>f_is_sparse := True\<rparr>) s)"
  "length n < 2 ^ 32 \<Longrightarrow> n \<noteq> [] \<Longrightarrow> decode_fields E f (enc_link n @ r) s =
    decode_fields E f r (file_upd f (\<lambda>x. x\<lparr>f_linkfiles := f_linkfiles x @ [n]\<rparr>) s)"
  by (simp_all add: decode_fields.simps [of E f "le_bytes 4 _ @ _"] get_fixed GetLengthPrefixedSlice_put enc_link_def)

lemma decode_extent_step:
  "e_start e < 2 ^ 64 \<Longrightarrow> e_length e < 2 ^ 64 \<Longrightarrow> GetIOZone E (e_start e) s = Some (e_zone e) \<Longrightarrow>
    decode_fields E f (enc_extent e @ r) s = decode_fields E f r (add_extent f (e\<lparr>e_level := -1\<rparr>) s)"
  by (cases e) (simp add: decode_fields.simps [of E f "le_bytes 4 _ @ _"] get_fixed GetLengthPrefixedSlice_put
      enc_extent_def extent_roundtrip length_ZoneExtent_EncodeTo)

lemma decode_extents:
  assumes "\<forall>e \<in> set es. e_start e < 2 ^ 64 \<and> e_length e < 2 ^ 64 \<and> GetIOZone E (e_start e) s = Some (e_zone e)"
  shows "decode_fields E f (concat (map enc_extent es) @ r) s =
    decode_fields E f r (fold (add_extent f) (map (e_level_update (\<lambda>_. -1)) es) s)"
  using assms by (induction es arbitrary: s) (auto simp: decode_extent_step)

lemma decode_links:
  assumes "\<forall>n \<in> set ns. n \<noteq> [] \<and> length n < 2 ^ 32"
  shows "decode_fields E f (concat (map enc_link ns)) s =
    (OK, file_upd f (\<lambda>x. x\<lparr>f_linkfiles := f_linkfiles x @ ns\<rparr>) s)"
  using assms
proof (induction ns arbitrary: s)
  case Nil
  then show ?case by (simp add: decode_fields.simps [of E f "[]"] GetFixed32_def)
next
  case (Cons n ns)
  then show ?case by (simp add: decode_steps fun_upd_same del: fun_upd_apply)
qed

text \<open>
  The part of a file that is written to the log, files that can be written, and the file \<open>y\<close> after
  the fields of \<open>x\<close>, from extent \<open>n\<close> on, have been read into it.
\<close>

definition persisted :: "zonefile \<Rightarrow> nat \<times> nat \<times> nat \<times> (nat \<times> nat \<times> zid) list \<times> nat \<times> nat \<times> bool \<times> string list" where
  "persisted x = (f_file_id x, f_file_size x, f_lifetime x, map (\<lambda>e. (e_start e, e_length e, e_zone e)) (f_extents x),
     f_m_time x, f_extent_start x, f_is_sparse x, f_linkfiles x)"

definition encodable :: "'b env \<Rightarrow> ('b, 'm) zbd_scheme \<Rightarrow> zonefile \<Rightarrow> bool" where
  "encodable E s x \<longleftrightarrow> f_file_id x < 2 ^ 64 \<and> f_file_size x < 2 ^ 64 \<and> f_lifetime x < 2 ^ 32 \<and> f_m_time x < 2 ^ 64 \<and>
     f_extent_start x < 2 ^ 64 \<and> (\<forall>n \<in> set (f_linkfiles x). n \<noteq> [] \<and> length n < 2 ^ 32) \<and>
     (\<forall>e \<in> set (f_extents x). e_start e < 2 ^ 64 \<and> e_length e < 2 ^ 64 \<and> GetIOZone E (e_start e) s = Some (e_zone e))"

definition fresh :: "zonefile \<Rightarrow> bool" where
  "fresh y \<longleftrightarrow> f_extents y = [] \<and> f_linkfiles y = [] \<and> \<not> f_is_sparse y"

definition decoded :: "zonefile \<Rightarrow> nat \<Rightarrow> zonefile \<Rightarrow> zonefile" where
  "decoded x n y = y\<lparr>f_file_id := f_file_id x, f_file_size := f_file_size x, f_lifetime := f_lifetime x,
     f_extents := map (e_level_update (\<lambda>_. -1)) (drop n (f_extents x)), f_m_time := f_m_time x,
     f_extent_start := f_extent_start x, f_is_sparse := f_is_sparse x, f_linkfiles := f_linkfiles x,
     f_nr_synced_extents := cast32 (length (f_extents x) - n)\<rparr>"

lemma new_file_fresh: "fresh (new_file i)"
  by (simp add: fresh_def new_file_def)

lemma load_level [simp]: "load (map (e_level_update g) es) z = load es z"
  by (induction es) auto

lemma charged_level [simp]: "charged (map (e_level_update g) es) = charged es"
  by (simp add: charged_def fun_eq_iff)

lemma persisted_decoded: "persisted (decoded x n y) = persisted (x\<lparr>f_extents := drop n (f_extents x)\<rparr>)"
  by (simp add: persisted_def decoded_def comp_def)

lemma decode_encoded:
  assumes "encodable E s x" "used_ok s" "fresh (file_at s f)"
  shows "ZoneFile_DecodeFrom E f (ZoneFile_EncodeTo x n []) s =
    (OK, s\<lparr>zone_at := charged (drop n (f_extents x)) (zone_at s), file_at := (file_at s)(f := decoded x n (file_at s f))\<rparr>)"
proof -
  define es where "es = drop n (f_extents x)"
  have es: "\<forall>e \<in> set es. e_start e < 2 ^ 64 \<and> e_length e < 2 ^ 64 \<and>
      GetIOZone E (e_start e) (s\<lparr>file_at := F\<rparr>) = Some (e_zone e)" for F
    using assms(1) by (auto simp: encodable_def es_def GetIOZone_def dest: in_set_dropD)
  have links: "\<forall>n \<in> set (f_linkfiles x). n \<noteq> [] \<and> length n < 2 ^ 32" using assms(1) by (simp add: encodable_def)
  have ch: "fold (\<lambda>e. charge (e_zone e) (e_length e)) (map (e_level_update (\<lambda>_. -1)) es) (zone_at s) = charged es (zone_at s)"
    using assms(2) by (simp add: used_ok_def fold_charge)
  have y: "f_extents (file_at s f) = []" "f_linkfiles (file_at s f) = []" "f_is_sparse (file_at s f) = False"
    using assms(3) by (auto simp: fresh_def)
  have len: "length (f_extents x) - n = length es" by (simp add: es_def)
  have flat: "decoded x n (file_at s f) = (file_at s f)\<lparr>f_file_id := f_file_id x, f_file_size := f_file_size x,
      f_lifetime := f_lifetime x, f_extents := map (e_level_update (\<lambda>_. -1)) es, f_m_time := f_m_time x,
      f_extent_start := f_extent_start x, f_linkfiles := f_linkfiles x, f_nr_synced_extents := cast32 (length es)\<rparr>"
    if "\<not> f_is_sparse x" using that y by (cases "file_at s f") (simp add: decoded_def es_def)
  note step = encode_pieces ZoneFile_DecodeFrom_def get_fixed decode_steps decode_links [OF links] es_def [symmetric]
    decode_extents [OF es] fold_add_extent ch MetadataSynced_def y fun_upd_same
  show ?thesis
  proof (cases "f_is_sparse x")
    case True
    then show ?thesis using assms(1) len by (simp add: encodable_def step decoded_def del: fun_upd_apply)
  next
    case False
    then show ?thesis using assms(1) by (simp add: encodable_def step flat del: fun_upd_apply)
  qed
qed

section \<open>The accounting invariant\<close>

text \<open>
  The used capacity of every zone is the number of bytes that the extents of the live files \<open>fs\<close> have
  there. \<open>grows\<close> relates the states before and after \<open>f\<close> obtained new extents, with the accounting done.
\<close>

definition accounted :: "fid set \<Rightarrow> ('b, 'm) zbd_scheme \<Rightarrow> bool" where
  "accounted fs s \<longleftrightarrow> finite fs \<and>
     (\<forall>z. z_used_capacity (zone_at s z) = (\<Sum>f \<in> fs. load (f_extents (file_at s f)) z) mod 2 ^ 64)"

definition grows :: "'b env \<Rightarrow> fid \<Rightarrow> ('b, 'm) zbd_scheme \<Rightarrow> ('b, 'm) zbd_scheme \<Rightarrow> bool" where
  "grows E f s s' \<longleftrightarrow> (\<exists>es y. s' = s\<lparr>zone_at := fold (\<lambda>e. charge (e_zone e) (e_length e)) es (zone_at s), file_at := (file_at s)(f := y)\<rparr> \<and>
     f_extents y = f_extents (file_at s f) @ es \<and> (\<forall>e \<in> set es. GetIOZone E (e_start e) s = Some (e_zone e)))"

lemma accounted_used_ok: "accounted fs s \<Longrightarrow> used_ok s"
  by (simp add: accounted_def used_ok_def)

lemma fold_charge_start [simp]: "z_start (fold (\<lambda>e. charge (e_zone e) (e_length e)) es Z z) = z_start (Z z)"
  by (induction es arbitrary: Z) (auto simp: charge_def)

lemma grows_upd: "f_extents (h (file_at s f)) = f_extents (file_at s f) \<Longrightarrow> grows E f s (file_upd f h s)"
  unfolding grows_def by (rule exI [of _ "[]"]) auto

lemma grows_add: "GetIOZone E (e_start e) s = Some (e_zone e) \<Longrightarrow> grows E f s (add_extent f e s)"
  unfolding grows_def add_extent_def
  by (rule exI [of _ "[e]"], rule exI [of _ "(file_at s f)\<lparr>f_extents := f_extents (file_at s f) @ [e]\<rparr>"]) simp

lemma grows_refl: "grows E f s s"
  unfolding grows_def by (rule exI [of _ "[]"], rule exI [of _ "file_at s f"]) simp

lemma grows_trans: "grows E f s s' \<Longrightarrow> grows E f s' s'' \<Longrightarrow> grows E f s s''"
proof -
  assume "grows E f s s'" "grows E f s' s''"
  then obtain es y es' y' where s': "s' = s\<lparr>zone_at := fold (\<lambda>e. charge (e_zone e) (e_length e)) es (zone_at s), file_at := (file_at s)(f := y)\<rparr>"
    and y: "f_extents y = f_extents (file_at s f) @ es" "\<forall>e \<in> set es. GetIOZone E (e_start e) s = Some (e_zone e)"
    and s'': "s'' = s'\<lparr>zone_at := fold (\<lambda>e. charge (e_zone e) (e_length e)) es' (zone_at s'), file_at := (file_at s')(f := y')\<rparr>"
    and y': "f_extents y' = f_extents (file_at s' f) @ es'" "\<forall>e \<in> set es'. GetIOZone E (e_start e) s' = Some (e_zone e)"
    unfolding grows_def by blast
  have "GetIOZone E p s' = GetIOZone E p s" for p by (rule GetIOZone_cong) (simp_all add: s')
  then show ?thesis unfolding grows_def using y y'
    by (intro exI [of _ "es @ es'"] exI [of _ y']) (auto simp: s'' s')
qed

lemma charged_accounted:
  assumes "accounted fs s" "f \<in> fs" "f_extents y = f_extents (file_at s f) @ es"
  shows "accounted fs (s\<lparr>zone_at := fold (\<lambda>e. charge (e_zone e) (e_length e)) es (zone_at s), file_at := (file_at s)(f := y)\<rparr>)"
proof -
  have "(\<Sum>g \<in> fs. load (f_extents (((file_at s)(f := y)) g)) z) = (\<Sum>g \<in> fs. load (f_extents (file_at s g)) z) + load es z" for z
    using assms by (simp add: accounted_def sum.remove [of fs f])
  then show ?thesis using assms(1) accounted_used_ok [OF assms(1)]
    by (auto simp: accounted_def used_ok_def fold_charge charged_def mod_simps)
qed

lemma grows_accounted: "grows E f s s' \<Longrightarrow> accounted fs s \<Longrightarrow> f \<in> fs \<Longrightarrow> accounted fs s'"
  unfolding grows_def using charged_accounted by blast

lemma grows_in_zones: "grows E f s s' \<Longrightarrow> \<forall>e \<in> set (f_extents (file_at s f)). GetIOZone E (e_start e) s = Some (e_zone e) \<Longrightarrow>
    \<forall>e \<in> set (f_extents (file_at s' f)). GetIOZone E (e_start e) s' = Some (e_zone e)"
proof -
  assume g: "grows E f s s'" and a: "\<forall>e \<in> set (f_extents (file_at s f)). GetIOZone E (e_start e) s = Some (e_zone e)"
  have "GetIOZone E p s' = GetIOZone E p s" for p using g by (intro GetIOZone_cong) (auto simp: grows_def)
  then show ?thesis using g a by (auto simp: grows_def)
qed

lemma grows_case: "(\<And>v i. x = Some (v, i) \<Longrightarrow> grows E f s (snd (k v i))) \<Longrightarrow>
    grows E f s (snd (case x of None \<Rightarrow> (c, s) | Some (v, i) \<Rightarrow> k v i))"
  by (auto simp: grows_refl split: option.split)

lemma grows_if: "(c \<Longrightarrow> grows E f s (snd a)) \<Longrightarrow> (\<not> c \<Longrightarrow> grows E f s (snd b)) \<Longrightarrow> grows E f s (snd (if c then a else b))"
  by simp

lemma grows_zone: "(\<And>z. GetIOZone E p s = Some z \<Longrightarrow> grows E f s (snd (k z))) \<Longrightarrow>
    grows E f s (snd (case GetIOZone E p s of None \<Rightarrow> (c, s) | Some z \<Rightarrow> k z))"
  by (auto simp: grows_refl split: option.split)

lemma decode_grows: "grows E f s (snd (decode_fields E f input s))"
proof (induction E f input s rule: decode_fields.induct)
  case (1 E f input s)
  show ?case
    apply (subst decode_fields.simps)
    apply (intro grows_case grows_zone grows_if)
            apply (rule grows_trans [OF _ 1(1)], rule grows_upd; simp)
           apply (rule grows_trans [OF _ 1(2)], rule grows_upd; simp)
          apply (rule grows_trans [OF _ 1(3)], rule grows_add; simp)
         apply (rule grows_trans [OF _ 1(4)], rule grows_upd; simp)
        apply (rule grows_trans [OF _ 1(5)], rule grows_upd; simp)
       apply (rule grows_trans [OF _ 1(6)], rule grows_upd; simp)
      apply (simp add: grows_refl)
     apply (rule grows_trans [OF _ 1(7)], rule grows_upd; simp)
    apply (simp add: grows_refl)
    done
qed

lemma DecodeFrom_grows: "grows E f s (snd (ZoneFile_DecodeFrom E f input s))"
proof -
  have *: "grows E f s (snd (let (st, s1) = decode_fields E f i (file_upd f (\<lambda>x. x\<lparr>f_file_id := n\<rparr>) s)
      in if st \<noteq> OK then (st, s1) else (OK, MetadataSynced f s1)))" for i n
  proof -
    let ?s = "file_upd f (\<lambda>x. x\<lparr>f_file_id := n\<rparr>) s"
    obtain st s1 where d: "decode_fields E f i ?s = (st, s1)" by fastforce
    have "grows E f s ?s" by (rule grows_upd) simp
    then have g: "grows E f s s1"
      using grows_trans [OF _ decode_grows [of E f ?s i]] d by simp
    have "grows E f s1 (MetadataSynced f s1)" unfolding MetadataSynced_def by (rule grows_upd) simp
    then show ?thesis using g d by (auto intro: grows_trans)
  qed
  show ?thesis unfolding ZoneFile_DecodeFrom_def by (intro grows_case grows_if *) (simp_all add: grows_refl)
qed

section \<open>Merging an update\<close>

lemma fold_add_level: "fold (\<lambda>e. add_extent f (e\<lparr>e_level := -1\<rparr>)) es s =
    file_upd f (\<lambda>x. x\<lparr>f_extents := f_extents x @ map (e_level_update (\<lambda>_. -1)) es\<rparr>)
      (s\<lparr>zone_at := fold (\<lambda>e. charge (e_zone e) (e_length e)) (map (e_level_update (\<lambda>_. -1)) es) (zone_at s)\<rparr>)"
  unfolding fold_add_extent [symmetric] by (induction es arbitrary: s) auto

lemma accounted_cong: "accounted fs s \<Longrightarrow> zone_at s' = zone_at s \<Longrightarrow>
    (\<And>f. f \<in> fs \<Longrightarrow> f_extents (file_at s' f) = f_extents (file_at s f)) \<Longrightarrow> accounted fs s'"
  by (simp add: accounted_def)

lemma merge_eq:
  assumes "used_ok s" "f_file_id (file_at s g) = f_file_id (file_at s h)" "g \<noteq> h"
  defines "u \<equiv> file_at s h"
  shows "MergeUpdate g h False s = (OK, s\<lparr>zone_at := charged (f_extents u) (zone_at s),
    file_at := (file_at s)(g := (file_at s g)\<lparr>f_file_size := f_file_size u, f_lifetime := f_lifetime u, f_m_time := f_m_time u,
      f_extents := f_extents (file_at s g) @ map (e_level_update (\<lambda>_. -1)) (f_extents u), f_extent_start := f_extent_start u,
      f_is_sparse := f_is_sparse u, f_nr_synced_extents := cast32 (length (f_extents (file_at s g)) + length (f_extents u)),
      f_linkfiles := f_linkfiles u\<rparr>)\<rparr>)"
  using assms(1-3)
  by (simp add: MergeUpdate_def Let_def fold_add_level used_ok_def fold_charge MetadataSynced_def u_def fun_upd_same
      del: fun_upd_apply)

section \<open>Properties\<close>

text \<open>A file with two extents on the small device, and the device where only the first is known.\<close>

definition codec_file :: zonefile where
  "codec_file = (new_file 7)\<lparr>f_extents := [\<lparr>e_start = 48, e_length = 5, e_zone = 3, e_level = 0\<rparr>,
     \<lparr>e_start = 64, e_length = 3, e_zone = 4, e_level = 0\<rparr>], f_linkfiles := [''a.sst''], f_file_size := 8\<rparr>"

definition codec_dev :: "(nat \<Rightarrow> char) zbdlib zbd" where
  "codec_dev = mem_dev\<lparr>zone_at := charge 3 5 (zone_at mem_dev),
     file_at := (\<lambda>_. new_file 0)(1 := codec_file\<lparr>f_extents := take 1 (f_extents codec_file)\<rparr>)\<rparr>"

lemma codec_encodable: "encodable mem_env mem_dev codec_file" "encodable mem_env codec_dev codec_file"
  by (simp_all add: encodable_def codec_file_def codec_dev_def charge_def new_file_def GetIOZone_def mem_dev_eval mem_env_def
      zbdlib_env_def mem_info_def add64_def NO_EXTENT_def)

lemma codec_accounted: "accounted {1} codec_dev"
  by (simp add: accounted_def codec_dev_def codec_file_def charge_def mem_dev_eval add64_def)

text \<open>
  C19. Decoding the metadata record of a file into a new file object succeeds and yields the recorded
  metadata, with the extents from the given index on and their zones found again; the used capacity
  of every zone grows by the bytes of those extents that lie in it.
\<close>

theorem file_metadata_roundtrip:
  assumes "encodable E s x" "used_ok s" "file_at s f = new_file i"
  shows "\<exists>s'. ZoneFile_DecodeFrom E f (ZoneFile_EncodeTo x n []) s = (OK, s') \<and>
    persisted (file_at s' f) = persisted (x\<lparr>f_extents := drop n (f_extents x)\<rparr>) \<and>
    f_nr_synced_extents (file_at s' f) = cast32 (length (f_extents (file_at s' f))) \<and>
    (\<forall>g. g \<noteq> f \<longrightarrow> file_at s' g = file_at s g) \<and>
    (\<forall>z. zone_at s' z = (zone_at s z)\<lparr>z_used_capacity :=
       (z_used_capacity (zone_at s z) + load (drop n (f_extents x)) z) mod 2 ^ 64\<rparr>)"
  using decode_encoded [OF assms(1,2), of f n] assms(3) persisted_decoded [of x n "new_file i"]
  by (simp add: new_file_fresh charged_def decoded_def)

theorem file_metadata_roundtrip_witness:
  "\<exists>s'. ZoneFile_DecodeFrom mem_env 1 (ZoneFile_EncodeTo codec_file 1 []) mem_dev = (OK, s') \<and>
     f_file_size (file_at s' 1) = 8 \<and> f_linkfiles (file_at s' 1) = [''a.sst''] \<and> z_used_capacity (zone_at s' 4) = 3"
proof -
  have "used_ok mem_dev" "file_at mem_dev 1 = new_file 0"
    by (simp_all add: used_ok_def mem_dev_eval)
  from file_metadata_roundtrip [OF codec_encodable(1) this, of 1] obtain s' where
    "ZoneFile_DecodeFrom mem_env 1 (ZoneFile_EncodeTo codec_file 1 []) mem_dev = (OK, s')"
    "persisted (file_at s' 1) = persisted (codec_file\<lparr>f_extents := drop 1 (f_extents codec_file)\<rparr>)"
    "zone_at s' 4 = (zone_at mem_dev 4)\<lparr>z_used_capacity :=
       (z_used_capacity (zone_at mem_dev 4) + load (drop 1 (f_extents codec_file)) 4) mod 2 ^ 64\<rparr>"
    by blast
  then show ?thesis by (intro exI [of _ s']) (simp add: persisted_def codec_file_def mem_dev_eval)
qed

text \<open>
  C20. Replaying an update record: when a file knows the first \<open>n\<close> extents of \<open>x\<close>, decoding the record
  of \<open>x\<close> from extent \<open>n\<close> on into a temporary file, merging and destroying the temporary file leaves
  the file with all the recorded metadata of \<open>x\<close>, and the accounting of the zones intact.
\<close>

theorem metadata_update_replayed:
  assumes "encodable E s x" "accounted fs s" "file_at s h = new_file i" "g \<in> fs" "h \<notin> fs"
    and "f_file_id (file_at s g) = f_file_id x"
    and "map (\<lambda>e. (e_start e, e_length e, e_zone e)) (f_extents (file_at s g)) =
      map (\<lambda>e. (e_start e, e_length e, e_zone e)) (take n (f_extents x))"
    and "ZoneFile_DecodeFrom E h (ZoneFile_EncodeTo x n []) s = (st, s1)" "MergeUpdate g h False s1 = (st', s2)"
  shows "st = OK \<and> st' = OK \<and> persisted (file_at s2 g) = persisted x \<and> accounted fs (ClearExtents h s2)"
proof -
  let ?es = "drop n (f_extents x)"
  have ok: "used_ok s" and gh: "g \<noteq> h" using assms(2,4,5) accounted_used_ok by auto
  have s1: "st = OK" "s1 = s\<lparr>zone_at := charged ?es (zone_at s), file_at := (file_at s)(h := decoded x n (new_file i))\<rparr>"
    using decode_encoded [OF assms(1) ok, of h n] assms(3,8) by (simp_all add: new_file_fresh)
  have ok1: "used_ok s1" by (simp add: s1 used_ok_def charged_def)
  have h1: "file_at s1 h = decoded x n (new_file i)" "file_at s1 g = file_at s g" using gh by (simp_all add: s1)
  have ids: "f_file_id (file_at s1 g) = f_file_id (file_at s1 h)" using assms(6) by (simp add: h1 decoded_def)
  note m = merge_eq [OF ok1 ids gh, unfolded assms(9)]
  have st': "st' = OK" and s2: "s2 = snd (OK, s2)" using m by simp_all
  have view: "map (\<lambda>e. (e_start e, e_length e, e_zone e)) (f_extents (file_at s2 g)) =
      map (\<lambda>e. (e_start e, e_length e, e_zone e)) (take n (f_extents x) @ ?es)"
    using m unfolding map_append assms(7) [symmetric] by (simp add: h1 decoded_def comp_def)
  then have p: "persisted (file_at s2 g) = persisted x"
    using m assms(6) by (simp add: persisted_def h1 decoded_def)
  have "charged ?es (charged ?es (zone_at s)) = charged (map (e_level_update (\<lambda>_. -1)) ?es @ ?es) (zone_at s)"
    by (simp add: charged_charged) (simp add: charged_def fun_eq_iff)
  then have z: "zone_at (ClearExtents h s2) = charged ?es (zone_at s)"
    using m ok gh assms(1) fold_uncharge [of "zone_at s" "map (e_level_update (\<lambda>_. -1)) ?es" ?es]
    by (auto simp: ClearExtents_def h1 s1 decoded_def used_ok_def encodable_def dest: in_set_dropD)
  have "accounted fs (s\<lparr>zone_at := charged ?es (zone_at s), file_at := (file_at s)(g := file_at s2 g)\<rparr>)"
    using charged_accounted [OF assms(2,4), of "file_at s2 g" "map (e_level_update (\<lambda>_. -1)) ?es"] m ok
    by (simp add: h1 decoded_def used_ok_def fold_charge)
  then have "accounted fs (ClearExtents h s2)"
  proof (rule accounted_cong)
    show "f_extents (file_at (ClearExtents h s2) f) = f_extents (file_at (s\<lparr>zone_at := charged ?es (zone_at s),
        file_at := (file_at s)(g := file_at s2 g)\<rparr>) f)" if "f \<in> fs" for f
      using that assms(5) m by (auto simp: ClearExtents_def s1)
  qed (simp add: z)
  then show ?thesis using s1(1) st' p by simp
qed

theorem metadata_update_replayed_witness:
  "\<exists>s1 s2. ZoneFile_DecodeFrom mem_env 2 (ZoneFile_EncodeTo codec_file 1 []) codec_dev = (OK, s1) \<and>
     MergeUpdate 1 2 False s1 = (OK, s2) \<and> persisted (file_at s2 1) = persisted codec_file \<and> accounted {1} (ClearExtents 2 s2)"
proof -
  obtain st s1 where d: "ZoneFile_DecodeFrom mem_env 2 (ZoneFile_EncodeTo codec_file 1 []) codec_dev = (st, s1)" by fastforce
  obtain st' s2 where m: "MergeUpdate 1 2 False s1 = (st', s2)" by fastforce
  have "file_at codec_dev 2 = new_file 0" "f_file_id (file_at codec_dev 1) = f_file_id codec_file"
    "f_extents (file_at codec_dev 1) = take 1 (f_extents codec_file)"
    by (simp_all add: codec_dev_def)
  then show ?thesis using metadata_update_replayed [OF codec_encodable(2) codec_accounted _ _ _ _ _ d m] d m by simp
qed



end
