(* ===== verification/ZoneFile.thy ===== *)
theory ZoneFile
  imports Alloc FileCodec
begin

text \<open>
  The operations of \<open>ZoneFile\<close> (\<open>zbd_zonefile_zenfs.cc\<close>): reading, the three ways of appending, closing,
  recovery after a crash, names and key metadata. \<open>MetadataWriter::Persist\<close>, which the file system
  implements, is the parameter \<open>persist\<close> of the operations that use it; like every call that may not
  return, it has an optional result.
\<close>

section \<open>Extents of a file\<close>

text \<open>The extent that holds a file offset, with the device offset of that byte.\<close>

fun GetExtent :: "extent list \<Rightarrow> nat \<Rightarrow> (extent \<times> nat) option" where
  "GetExtent [] file_offset = None"
| "GetExtent (e # es) file_offset =
    (if file_offset < e_length e then Some (e, add64 (e_start e) file_offset)
     else GetExtent es (file_offset - e_length e))"

partial_function (option) invalidate_loop :: "'b env \<Rightarrow> fid \<Rightarrow> nat \<Rightarrow> nat \<Rightarrow> ('b, 'm) zbd_scheme \<Rightarrow>
    (status \<times> ('b, 'm) zbd_scheme) option" where
  "invalidate_loop E f offset left s = (if left = 0 then Some (OK, s) else
     case GetExtent (f_extents (file_at s f)) offset of
       None \<Rightarrow> Some (IOError, s)
     | Some (e, dev_offset) \<Rightarrow>
         let extent_end = add64 (e_start e) (e_length e); invalidate_size = min left (sub64 extent_end dev_offset);
             (st, s) = ZBD_InvalidateCache E dev_offset invalidate_size s
         in if st \<noteq> OK then Some (st, s)
            else invalidate_loop E f (add64 offset invalidate_size) (left - invalidate_size) s)"

definition ZoneFile_InvalidateCache :: "'b env \<Rightarrow> fid \<Rightarrow> nat \<Rightarrow> nat \<Rightarrow> ('b, 'm) zbd_scheme \<Rightarrow>
    (status \<times> ('b, 'm) zbd_scheme) option" where
  "ZoneFile_InvalidateCache E f pos n s =
     invalidate_loop E f pos (if n = 0 then f_file_size (file_at s f) else n) s"

section \<open>Reading\<close>

text \<open>
  \<open>buf\<close> is the part of \<open>scratch\<close> read so far, so \<open>read\<close> is its length. A direct read is extended to a
  multiple of the block size; the surplus bytes are not kept.
\<close>

partial_function (option) pread_loop :: "'b env \<Rightarrow> extent list \<Rightarrow> nat \<Rightarrow> nat \<Rightarrow> bool \<Rightarrow> nat \<Rightarrow> nat \<Rightarrow> string \<Rightarrow>
    ('b, 'm) zbd_scheme \<Rightarrow> ((status \<times> string) \<times> ('b, 'm) zbd_scheme) option" where
  "pread_loop E es offset r_sz direct r_off extent_end buf s =
    (if length buf = r_sz then Some ((OK, buf), s) else
     let pread_sz = r_sz - length buf;
         pread_sz = (if extent_end < add64 pread_sz r_off then sub64 extent_end r_off else pread_sz);
         aligned = (pread_sz mod block_sz E = 0);
         bytes_to_align = (if direct \<and> \<not> aligned then block_sz E - pread_sz mod block_sz E else 0) in
     Option.bind (ZBD_Read E r_off (pread_sz + bytes_to_align) direct s) (\<lambda>(r, s).
       case r of None \<Rightarrow> Some ((IOError, []), s)
       | Some d \<Rightarrow> if d = [] then Some ((OK, buf), s) else
           let n = (if length d \<le> pread_sz then length d else pread_sz);
               buf = buf @ take n d; r_off = add64 r_off n in
           if length buf \<noteq> r_sz \<and> r_off = extent_end then
             (case GetExtent es (add64 offset (length buf)) of
               None \<Rightarrow> Some ((OK, buf), s)
             | Some (e, _) \<Rightarrow> pread_loop E es offset r_sz direct (e_start e) (add64 (e_start e) (e_length e)) buf s)
           else pread_loop E es offset r_sz direct r_off extent_end buf s))"

definition PositionedRead :: "'b env \<Rightarrow> fid \<Rightarrow> nat \<Rightarrow> nat \<Rightarrow> bool \<Rightarrow> ('b, 'm) zbd_scheme \<Rightarrow>
    ((status \<times> string) \<times> ('b, 'm) zbd_scheme) option" where
  "PositionedRead E f offset n direct s = (let x = file_at s f in
     if f_file_size x \<le> offset then Some ((OK, []), s)
     else case GetExtent (f_extents x) offset of
       None \<Rightarrow> Some ((OK, []), s)
     | Some (e, r_off) \<Rightarrow>
         let r_sz = (if f_file_size x < add64 offset n then f_file_size x - offset else n)
         in pread_loop E (f_extents x) offset r_sz direct r_off (add64 (e_start e) (e_length e)) [] s)"

section \<open>The active zone\<close>

definition ReleaseActiveZone :: "fid \<Rightarrow> ('b, 'm) zbd_scheme \<Rightarrow> ('b, 'm) zbd_scheme" where
  "ReleaseActiveZone f s = (case f_active_zone (file_at s f) of None \<Rightarrow> s
     | Some z \<Rightarrow> file_upd f (\<lambda>x. x\<lparr>f_active_zone := None\<rparr>) (snd (Release z s)))"

definition SetActiveZone :: "fid \<Rightarrow> zid \<Rightarrow> ('b, 'm) zbd_scheme \<Rightarrow> ('b, 'm) zbd_scheme" where
  "SetActiveZone f z s = file_upd f (\<lambda>x. x\<lparr>f_active_zone := Some z\<rparr>) s"

definition CloseActiveZone :: "'b env \<Rightarrow> fid \<Rightarrow> ('b, 'm) zbd_scheme \<Rightarrow> status \<times> ('b, 'm) zbd_scheme" where
  "CloseActiveZone E f s = (case f_active_zone (file_at s f) of None \<Rightarrow> (OK, s)
     | Some z \<Rightarrow>
         let full = IsFull (zone_at s z); (st, s) = Zone_Close E z s; s = ReleaseActiveZone f s in
         if st \<noteq> OK then (st, s)
         else let s = PutOpenIOZoneToken s in (OK, if full then PutActiveIOZoneToken s else s))"

definition PushExtent :: "fid \<Rightarrow> ('b, 'm) zbd_scheme \<Rightarrow> ('b, 'm) zbd_scheme" where
  "PushExtent f s = (let x = file_at s f in case f_active_zone x of None \<Rightarrow> s
     | Some z \<Rightarrow> let len = sub64 (f_file_size x) (f_extent_filepos x) in
         if len = 0 then s
         else file_upd f (\<lambda>x. x\<lparr>f_extent_start := z_wp (zone_at s z), f_extent_filepos := f_file_size x\<rparr>)
           (add_extent f \<lparr>e_start = f_extent_start x, e_length = len, e_zone = z, e_level = f_level x\<rparr> s))"

definition AllocateNewZone :: "'b env \<Rightarrow> (fid \<Rightarrow> ('b, 'm) zbd_scheme \<Rightarrow> (status \<times> ('b, 'm) zbd_scheme) option) \<Rightarrow>
    fid \<Rightarrow> ('b, 'm) zbd_scheme \<Rightarrow> (status \<times> ('b, 'm) zbd_scheme) option" where
  "AllocateNewZone E persist f s =
    Option.bind (AllocateIOZone E (f_lifetime (file_at s f)) (f_io_type (file_at s f)) f s) (\<lambda>((st, zone), s).
      if st \<noteq> OK then Some (st, s) else case zone of None \<Rightarrow> Some (NoSpace, s)
      | Some z \<Rightarrow> persist f (file_upd f (\<lambda>x. x\<lparr>f_extent_start := z_wp (zone_at s z), f_extent_filepos := f_file_size x\<rparr>)
          (SetActiveZone f z s)))"

section \<open>Appending\<close>

text \<open>
  The three loops keep the data not yet written as a list. Padding written after the last byte of a
  partial block is zero. After a successful write with padding nothing is left to write, so the
  bytes of the buffer that the padding overwrites are never used.
\<close>

definition pad_size :: "'b env \<Rightarrow> nat \<Rightarrow> nat" where
  "pad_size E n = (if n mod block_sz E \<noteq> 0 then block_sz E - n mod block_sz E else 0)"

text \<open>The record of a write: a new extent, the next extent start and the grown file.\<close>

definition note_write :: "fid \<Rightarrow> zid \<Rightarrow> nat \<Rightarrow> nat \<Rightarrow> ('b, 'm) zbd_scheme \<Rightarrow> ('b, 'm) zbd_scheme" where
  "note_write f z header len s = (let x = file_at s f in
     file_upd f (\<lambda>x. x\<lparr>f_extent_start := z_wp (zone_at s z), f_file_size := add64 (f_file_size x) len\<rparr>)
       (add_extent f \<lparr>e_start = add64 (f_extent_start x) header, e_length = len, e_zone = z, e_level = f_level x\<rparr> s))"

definition with_active_zone :: "'b env \<Rightarrow> (fid \<Rightarrow> ('b, 'm) zbd_scheme \<Rightarrow> (status \<times> ('b, 'm) zbd_scheme) option) \<Rightarrow>
    fid \<Rightarrow> nat \<Rightarrow> ('b, 'm) zbd_scheme \<Rightarrow> (status \<times> ('b, 'm) zbd_scheme) option" where
  "with_active_zone E persist f n s = (let s = file_upd f (\<lambda>x. x\<lparr>f_alloc_size := n\<rparr>) s in
     if f_active_zone (file_at s f) = None then AllocateNewZone E persist f s else Some (OK, s))"

text \<open>The end of a round: when the zone is full it is closed and a new one allocated.\<close>

definition next_zone :: "'b env \<Rightarrow> (fid \<Rightarrow> ('b, 'm) zbd_scheme \<Rightarrow> (status \<times> ('b, 'm) zbd_scheme) option) \<Rightarrow>
    fid \<Rightarrow> nat \<Rightarrow> ('b, 'm) zbd_scheme \<Rightarrow> (status \<times> ('b, 'm) zbd_scheme) option" where
  "next_zone E persist f left s = (let (st, s) = CloseActiveZone E f s in
     if st \<noteq> OK then Some (st, s)
     else AllocateNewZone E persist f (file_upd f (\<lambda>x. x\<lparr>f_alloc_size := left\<rparr>) s))"

partial_function (option) buffered_loop :: "'b env \<Rightarrow> (fid \<Rightarrow> ('b, 'm) zbd_scheme \<Rightarrow> (status \<times> ('b, 'm) zbd_scheme) option) \<Rightarrow>
    fid \<Rightarrow> string \<Rightarrow> ('b, 'm) zbd_scheme \<Rightarrow> (status \<times> ('b, 'm) zbd_scheme) option" where
  "buffered_loop E persist f data s = (if data = [] then Some (OK, s) else
     case f_active_zone (file_at s f) of None \<Rightarrow> None
     | Some z \<Rightarrow>
         let wr_size = min (length data) (z_capacity (zone_at s z)) in
         Option.bind (Zone_Append E z (take wr_size data @ replicate (pad_size E wr_size) (CHR 0x00)) s) (\<lambda>(st, s).
           if st \<noteq> OK then Some (st, s) else
           let s = note_write f z 0 wr_size s; data = drop wr_size data in
           if z_capacity (zone_at s z) \<noteq> 0 then buffered_loop E persist f data s
           else Option.bind (next_zone E persist f (length data) s) (\<lambda>(st, s).
             if st \<noteq> OK then Some (st, s) else buffered_loop E persist f data s)))"

definition BufferedAppend :: "'b env \<Rightarrow> (fid \<Rightarrow> ('b, 'm) zbd_scheme \<Rightarrow> (status \<times> ('b, 'm) zbd_scheme) option) \<Rightarrow>
    fid \<Rightarrow> string \<Rightarrow> ('b, 'm) zbd_scheme \<Rightarrow> (status \<times> ('b, 'm) zbd_scheme) option" where
  "BufferedAppend E persist f data s = Option.bind (with_active_zone E persist f (length data) s) (\<lambda>(st, s).
     if st \<noteq> OK then Some (st, s) else buffered_loop E persist f data s)"

text \<open>
  A sparse write stores the length of its data in a header of eight bytes. The length is the number
  of bytes written minus eight, in 32-bit arithmetic, so it wraps around in a zone with fewer than
  eight bytes left.
\<close>

definition SPARSE_HEADER_SIZE :: nat where "SPARSE_HEADER_SIZE = 8"

partial_function (option) sparse_loop :: "'b env \<Rightarrow> (fid \<Rightarrow> ('b, 'm) zbd_scheme \<Rightarrow> (status \<times> ('b, 'm) zbd_scheme) option) \<Rightarrow>
    fid \<Rightarrow> string \<Rightarrow> ('b, 'm) zbd_scheme \<Rightarrow> (status \<times> ('b, 'm) zbd_scheme) option" where
  "sparse_loop E persist f data s = (if data = [] then Some (OK, s) else
     case f_active_zone (file_at s f) of None \<Rightarrow> None
     | Some z \<Rightarrow>
         let wr_size = min (cast32 (length data + SPARSE_HEADER_SIZE)) (z_capacity (zone_at s z));
             extent_length = cast32 (wr_size + 2 ^ 32 - SPARSE_HEADER_SIZE);
             buffer = EncodeFixed64 True extent_length @ data in
         Option.bind (Zone_Append E z (take wr_size buffer @ replicate (pad_size E wr_size) (CHR 0x00)) s) (\<lambda>(st, s).
           if st \<noteq> OK then Some (st, s) else
           let s = note_write f z SPARSE_HEADER_SIZE extent_length s; data = drop wr_size buffer in
           if z_capacity (zone_at s z) \<noteq> 0 then sparse_loop E persist f data s
           else Option.bind (next_zone E persist f (length data) s) (\<lambda>(st, s).
             if st \<noteq> OK then Some (st, s) else sparse_loop E persist f data s)))"

definition SparseAppend :: "'b env \<Rightarrow> (fid \<Rightarrow> ('b, 'm) zbd_scheme \<Rightarrow> (status \<times> ('b, 'm) zbd_scheme) option) \<Rightarrow>
    fid \<Rightarrow> string \<Rightarrow> ('b, 'm) zbd_scheme \<Rightarrow> (status \<times> ('b, 'm) zbd_scheme) option" where
  "SparseAppend E persist f data s = Option.bind (with_active_zone E persist f (length data) s) (\<lambda>(st, s).
     if st \<noteq> OK then Some (st, s) else sparse_loop E persist f data s)"

partial_function (option) append_file_loop :: "'b env \<Rightarrow> (fid \<Rightarrow> ('b, 'm) zbd_scheme \<Rightarrow> (status \<times> ('b, 'm) zbd_scheme) option) \<Rightarrow>
    fid \<Rightarrow> string \<Rightarrow> ('b, 'm) zbd_scheme \<Rightarrow> (status \<times> ('b, 'm) zbd_scheme) option" where
  "append_file_loop E persist f data s = (if data = [] then Some (OK, s) else
     case f_active_zone (file_at s f) of None \<Rightarrow> None
     | Some z \<Rightarrow> Option.bind
         (if z_capacity (zone_at s z) = 0 then next_zone E persist f (length data) (PushExtent f s) else Some (OK, s))
         (\<lambda>(st, s). if st \<noteq> OK then Some (st, s) else
           case f_active_zone (file_at s f) of None \<Rightarrow> None
           | Some z \<Rightarrow>
               let wr_size = min (length data) (z_capacity (zone_at s z)) in
               Option.bind (Zone_Append E z (take wr_size data) s) (\<lambda>(st, s).
                 if st \<noteq> OK then Some (st, s)
                 else append_file_loop E persist f (drop wr_size data)
                   (file_upd f (\<lambda>x. x\<lparr>f_file_size := add64 (f_file_size x) wr_size\<rparr>) s))))"

definition ZoneFile_Append :: "'b env \<Rightarrow> (fid \<Rightarrow> ('b, 'm) zbd_scheme \<Rightarrow> (status \<times> ('b, 'm) zbd_scheme) option) \<Rightarrow>
    fid \<Rightarrow> string \<Rightarrow> ('b, 'm) zbd_scheme \<Rightarrow> (status \<times> ('b, 'm) zbd_scheme) option" where
  "ZoneFile_Append E persist f data s = Option.bind (with_active_zone E persist f (length data) s) (\<lambda>(st, s).
     if st \<noteq> OK then Some (st, s) else append_file_loop E persist f data s)"

section \<open>Closing\<close>

text \<open>The lock is a flag of the file: taking it twice blocks forever.\<close>

definition AcquireWRLock :: "fid \<Rightarrow> ('b, 'm) zbd_scheme \<Rightarrow> ('b, 'm) zbd_scheme option" where
  "AcquireWRLock f s = (if f_open_for_wr (file_at s f) then None
     else Some (file_upd f (\<lambda>x. x\<lparr>f_open_for_wr := True\<rparr>) s))"

definition TryAcquireWRLock :: "fid \<Rightarrow> ('b, 'm) zbd_scheme \<Rightarrow> bool \<times> ('b, 'm) zbd_scheme" where
  "TryAcquireWRLock f s = (if f_open_for_wr (file_at s f) then (False, s)
     else (True, file_upd f (\<lambda>x. x\<lparr>f_open_for_wr := True\<rparr>) s))"

definition ReleaseWRLock :: "fid \<Rightarrow> ('b, 'm) zbd_scheme \<Rightarrow> ('b, 'm) zbd_scheme" where
  "ReleaseWRLock f s = file_upd f (\<lambda>x. x\<lparr>f_open_for_wr := False\<rparr>) s"

definition IsOpenForWR :: "fid \<Rightarrow> ('b, 'm) zbd_scheme \<Rightarrow> bool" where
  "IsOpenForWR f s = f_open_for_wr (file_at s f)"

definition CreateOrUpdateRecord :: "fid \<Rightarrow> ('b, 'm) zbd_scheme \<Rightarrow> ('b, 'm) zbd_scheme" where
  "CreateOrUpdateRecord f s = (if f_level (file_at s f) < 0 then s
     else let s = (if f_is_recorded (file_at s f) then RemoveZoneFileRecord f s else s); s = AddZoneFileRecord f s
       in file_upd f (\<lambda>x. x\<lparr>f_is_recorded := True\<rparr>) s)"

definition CloseWR :: "'b env \<Rightarrow> (fid \<Rightarrow> ('b, 'm) zbd_scheme \<Rightarrow> (status \<times> ('b, 'm) zbd_scheme) option) \<Rightarrow>
    fid \<Rightarrow> ('b, 'm) zbd_scheme \<Rightarrow> (status \<times> ('b, 'm) zbd_scheme) option" where
  "CloseWR E persist f s =
    (let s = CreateOrUpdateRecord f s; s = file_upd f (\<lambda>x. x\<lparr>f_extent_start := NO_EXTENT\<rparr>) s in
     Option.bind (persist f s) (\<lambda>(st, s). if st \<noteq> OK then Some (st, s)
       else Some (CloseActiveZone E f (ReleaseWRLock f s))))"

definition SetDeleted :: "fid \<Rightarrow> ('b, 'm) zbd_scheme \<Rightarrow> ('b, 'm) zbd_scheme" where
  "SetDeleted f s = RemoveZoneFileRecord f (file_upd f (\<lambda>x. x\<lparr>f_is_deleted := True\<rparr>) s)"

section \<open>Recovery\<close>

text \<open>
  The segments of a sparse file between the start of the active extent and the write pointer. A
  short read is an error. The multiplication and the additions are in 64-bit arithmetic, as are the
  block counts, so a corrupt length may send the loop backwards.
\<close>

partial_function (option) recover_sparse_loop :: "'b env \<Rightarrow> fid \<Rightarrow> nat \<Rightarrow> nat \<Rightarrow> zid \<Rightarrow> ('b, 'm) zbd_scheme \<Rightarrow>
    (status \<times> ('b, 'm) zbd_scheme) option" where
  "recover_sparse_loop E f next_start end_pos z s = (if end_pos \<le> next_start then Some (OK, s) else
     Option.bind (ZBD_Read E next_start (block_sz E) False s) (\<lambda>(r, s).
       case r of None \<Rightarrow> Some (IOError, s)
       | Some buffer \<Rightarrow>
           if length buffer \<noteq> block_sz E then Some (IOError, s) else
           let extent_length = DecodeFixed64 True buffer in
           if extent_length = 0 then Some (IOError, s) else
           let s = add_extent f \<lparr>e_start = add64 next_start SPARSE_HEADER_SIZE, e_length = extent_length, e_zone = z,
                     e_level = f_level (file_at s f)\<rparr> s;
               total = add64 extent_length SPARSE_HEADER_SIZE;
               extent_blocks = total div block_sz E + (if total mod block_sz E \<noteq> 0 then 1 else 0)
           in recover_sparse_loop E f (add64 next_start (mul64 extent_blocks (block_sz E))) end_pos z s))"

definition RecoverSparseExtents :: "'b env \<Rightarrow> fid \<Rightarrow> nat \<Rightarrow> nat \<Rightarrow> zid \<Rightarrow> ('b, 'm) zbd_scheme \<Rightarrow>
    (status \<times> ('b, 'm) zbd_scheme) option" where
  "RecoverSparseExtents E f start end_pos z s = recover_sparse_loop E f start end_pos z s"

definition HasActiveExtent :: "zonefile \<Rightarrow> bool" where
  "HasActiveExtent x \<longleftrightarrow> f_extent_start x \<noteq> NO_EXTENT"

definition Recover :: "'b env \<Rightarrow> fid \<Rightarrow> ('b, 'm) zbd_scheme \<Rightarrow> (status \<times> ('b, 'm) zbd_scheme) option" where
  "Recover E f s = (let x = file_at s f; start = f_extent_start x in
     if \<not> HasActiveExtent x then Some (OK, s)
     else case GetIOZone E start s of None \<Rightarrow> Some (IOError, s)
     | Some z \<Rightarrow> let wp = z_wp (zone_at s z) in
         if wp < start then Some (IOError, s)
         else if wp - start = 0 then Some (OK, file_upd f (\<lambda>x. x\<lparr>f_extent_start := NO_EXTENT\<rparr>) s)
         else Option.bind
           (if f_is_sparse x then RecoverSparseExtents E f start wp z s
            else Some (OK, add_extent f \<lparr>e_start = start, e_length = wp - start, e_zone = z, e_level = f_level x\<rparr> s))
           (\<lambda>(st, s). if st \<noteq> OK then Some (st, s)
             else Some (OK, file_upd f (\<lambda>x. x\<lparr>f_extent_start := NO_EXTENT, f_file_size := sum64 e_length (f_extents x)\<rparr>) s)))"

end
