(* ===== verification/FileMeta.thy ===== *)
theory FileMeta
  imports ZoneFile
begin

text \<open>
  The remaining members of \<open>ZoneFile\<close>: names, level, key range and table statistics
  (\<open>zbd_zonefile_zenfs.cc\<close>).
\<close>

section \<open>Names\<close>

definition AddLinkName :: "fid \<Rightarrow> string \<Rightarrow> ('b, 'm) zbd_scheme \<Rightarrow> ('b, 'm) zbd_scheme" where
  "AddLinkName f linkf s = file_upd f (\<lambda>x. x\<lparr>f_linkfiles := f_linkfiles x @ [linkf]\<rparr>) s"

definition RenameLink :: "fid \<Rightarrow> string \<Rightarrow> string \<Rightarrow> ('b, 'm) zbd_scheme \<Rightarrow> status \<times> ('b, 'm) zbd_scheme" where
  "RenameLink f src dest s = (if src \<in> set (f_linkfiles (file_at s f))
     then (OK, file_upd f (\<lambda>x. x\<lparr>f_linkfiles := remove1 src (f_linkfiles x) @ [dest]\<rparr>) s)
     else (IOError, s))"

definition RemoveLinkName :: "fid \<Rightarrow> string \<Rightarrow> ('b, 'm) zbd_scheme \<Rightarrow> status \<times> ('b, 'm) zbd_scheme" where
  "RemoveLinkName f linkf s = (if linkf \<in> set (f_linkfiles (file_at s f))
     then (OK, file_upd f (\<lambda>x. x\<lparr>f_linkfiles := remove1 linkf (f_linkfiles x)\<rparr>) s)
     else (IOError, s))"

text \<open>\<open>GetFilename\<close> reads the first name without checking that there is one.\<close>

definition ZoneFile_GetFilename :: "zonefile \<Rightarrow> string option" where
  "ZoneFile_GetFilename x = (case f_linkfiles x of [] \<Rightarrow> None | n # ns \<Rightarrow> Some n)"

definition GetNrLinks :: "zonefile \<Rightarrow> nat" where
  "GetNrLinks x = length (f_linkfiles x)"

definition ReplaceExtentList :: "fid \<Rightarrow> extent list \<Rightarrow> ('b, 'm) zbd_scheme \<Rightarrow> ('b, 'm) zbd_scheme" where
  "ReplaceExtentList f new_list s = file_upd f (\<lambda>x. x\<lparr>f_extents := new_list\<rparr>) s"

section \<open>Hints, level and keys\<close>

definition SetWriteLifeTimeHint :: "fid \<Rightarrow> nat \<Rightarrow> ('b, 'm) zbd_scheme \<Rightarrow> status \<times> ('b, 'm) zbd_scheme" where
  "SetWriteLifeTimeHint f lifetime s = (OK, file_upd f (\<lambda>x. x\<lparr>f_lifetime := lifetime\<rparr>) s)"

definition SetLevel :: "fid \<Rightarrow> int \<Rightarrow> ('b, 'm) zbd_scheme \<Rightarrow> ('b, 'm) zbd_scheme" where
  "SetLevel f level s = file_upd f (\<lambda>x. x\<lparr>f_level := level, f_extents := map (\<lambda>e. e\<lparr>e_level := level\<rparr>) (f_extents x)\<rparr>) s"

definition UpdateInternalKeys :: "fid \<Rightarrow> string \<Rightarrow> nat \<Rightarrow> ('b, 'm) zbd_scheme \<Rightarrow> ('b, 'm) zbd_scheme" where
  "UpdateInternalKeys f key seqno s = file_upd f (\<lambda>x. x\<lparr>
     f_smallest := (if f_smallest x = [] then key else f_smallest x), f_largest := key, f_has_keys := True,
     f_smallest_seqno := min (f_smallest_seqno x) seqno, f_largest_seqno := max (f_largest_seqno x) seqno,
     f_key_update_count := add64 (f_key_update_count x) 1,
     f_key_update_post_alloc_count := (if f_active_zone x \<noteq> None then add64 (f_key_update_post_alloc_count x) 1
       else f_key_update_post_alloc_count x)\<rparr>) s"

text \<open>\<open>cmp\<close> is the virtual \<open>CompareInterface::Compare\<close> the caller passes.\<close>

definition UpdateInternalKeysRange :: "fid \<Rightarrow> string \<Rightarrow> string \<Rightarrow> nat \<Rightarrow> (string \<Rightarrow> string \<Rightarrow> int) \<Rightarrow>
    ('b, 'm) zbd_scheme \<Rightarrow> ('b, 'm) zbd_scheme" where
  "UpdateInternalKeysRange f start end_key seqno cmp s = file_upd f (\<lambda>x. x\<lparr>
     f_smallest := (if f_smallest x = [] \<or> cmp start (f_smallest x) < 0 then start else f_smallest x),
     f_largest := (if f_largest x = [] \<or> cmp (f_largest x) end_key < 0 then end_key else f_largest x),
     f_has_keys := True,
     f_smallest_seqno := min (f_smallest_seqno x) seqno, f_largest_seqno := max (f_largest_seqno x) seqno\<rparr>) s"

text \<open>\<open>UpdateMetadata\<close> is overloaded; the first takes the fields of \<open>TableProperties\<close> it reads.\<close>

definition UpdateMetadataTable :: "fid \<Rightarrow> nat \<Rightarrow> nat \<Rightarrow> nat \<Rightarrow> nat \<Rightarrow> ('b, 'm) zbd_scheme \<Rightarrow> ('b, 'm) zbd_scheme" where
  "UpdateMetadataTable f entries deletions range_deletions data_size s = file_upd f (\<lambda>x. x\<lparr>
     f_num_entries := max (f_num_entries x) entries, f_num_deletions := max (f_num_deletions x) deletions,
     f_num_range_deletions := max (f_num_range_deletions x) range_deletions,
     f_file_size_meta := max (f_file_size_meta x) data_size\<rparr>) s"

definition UpdateMetadata :: "fid \<Rightarrow> nat \<Rightarrow> nat \<Rightarrow> nat \<Rightarrow> nat \<Rightarrow> nat \<Rightarrow> nat \<Rightarrow> ('b, 'm) zbd_scheme \<Rightarrow> ('b, 'm) zbd_scheme" where
  "UpdateMetadata f entries deletions range_deletions file_size range_size avg s =
    (let s = file_upd f (\<lambda>x. x\<lparr>
       f_num_entries := max (f_num_entries x) entries, f_num_deletions := max (f_num_deletions x) deletions,
       f_num_range_deletions := max (f_num_range_deletions x) range_deletions,
       f_file_size_meta := max (f_file_size_meta x) file_size,
       f_compensated_range_deletion_size := max (f_compensated_range_deletion_size x) range_size\<rparr>) s
     in if avg = 0 then s else s\<lparr>zenfs_parameters := (zenfs_parameters s)\<lparr>average_value_size := avg\<rparr>\<rparr>)"

definition SetInternalComparator :: "fid \<Rightarrow> (string \<Rightarrow> string \<Rightarrow> int) \<Rightarrow> ('b, 'm) zbd_scheme \<Rightarrow> ('b, 'm) zbd_scheme" where
  "SetInternalComparator f icmp s = file_upd f (\<lambda>x. x\<lparr>f_icmp := icmp\<rparr>) s"

end
