(* ===== verification/FileRead.thy ===== *)
theory FileRead
  imports ZoneFile
begin

text \<open>
  Reading a file returns its contents: the bytes that the device stores under the extents of the
  file, in order.
\<close>

section \<open>The contents of a file\<close>

definition file_bytes :: "(nat \<Rightarrow> char) \<Rightarrow> extent list \<Rightarrow> string" where
  "file_bytes m es = concat (map (\<lambda>e. bytes_at m (e_start e) (e_length e)) es)"

definition total_length :: "extent list \<Rightarrow> nat" where
  "total_length es = sum_list (map e_length es)"

text \<open>Extents at addresses where no sum of the code wraps around, padding to a block included.\<close>

definition extents_ok :: "'b env \<Rightarrow> extent list \<Rightarrow> bool" where
  "extents_ok E es \<longleftrightarrow> total_length es < 2 ^ 63 \<and> (\<forall>e \<in> set es. e_start e + e_length e + block_sz E < 2 ^ 63)"

lemma file_bytes_simps [simp]: "file_bytes m [] = []"
    "file_bytes m (e # es) = bytes_at m (e_start e) (e_length e) @ file_bytes m es"
    "file_bytes m (es @ es') = file_bytes m es @ file_bytes m es'"
  by (simp_all add: file_bytes_def)

lemma total_length_simps [simp]: "total_length [] = 0" "total_length (e # es) = e_length e + total_length es"
    "total_length (es @ es') = total_length es + total_length es'"
  by (simp_all add: total_length_def)

lemma length_file_bytes [simp]: "length (file_bytes m es) = total_length es"
  by (induction es) auto

lemma GetExtent_append: "GetExtent (es @ es') (total_length es + k) = GetExtent es' k"
  by (induction es) auto

lemma GetExtent_split:
  assumes "extents_ok E es" "off < total_length es"
  obtains es1 e es2 k where "es = es1 @ e # es2" "off = total_length es1 + k" "k < e_length e"
    "GetExtent es off = Some (e, e_start e + k)"
  using assms
proof (induction es arbitrary: off thesis)
  case (Cons x xs)
  show ?case
  proof (cases "off < e_length x")
    case True
    then show ?thesis using Cons.prems(2) by (intro Cons.prems(1) [of "[]" x xs off]) (auto simp: extents_ok_def add64_small)
  next
    case False
    have "extents_ok E xs" "off - e_length x < total_length xs" using Cons.prems(2,3) False by (auto simp: extents_ok_def)
    from Cons.IH [OF _ this] obtain es1 e es2 k where "xs = es1 @ e # es2" "off - e_length x = total_length es1 + k"
      "k < e_length e" "GetExtent xs (off - e_length x) = Some (e, e_start e + k)" by blast
    then show ?thesis using False by (intro Cons.prems(1) [of "x # es1" e es2 k]) auto
  qed
qed simp

lemma GetExtent_None: "total_length es \<le> off \<Longrightarrow> GetExtent es off = None"
  by (induction es arbitrary: off) auto

section \<open>A device that answers\<close>

text \<open>Every read request for at least one byte is answered with some data or an error.\<close>

definition responsive :: "'b env \<Rightarrow> bool" where
  "responsive E \<longleftrightarrow> (\<forall>n pos d b. 0 < n \<longrightarrow>
     (\<exists>data b'. be_read E n pos d b = (ReadOK data, b') \<and> data \<noteq> [] \<or> be_read E n pos d b = (ReadError, b')))"

text \<open>A device whose reads always succeed.\<close>

definition readable :: "'b env \<Rightarrow> bool" where
  "readable E \<longleftrightarrow> (\<forall>n pos d b. 0 < n \<longrightarrow> (\<exists>data b'. be_read E n pos d b = (ReadOK data, b') \<and> data \<noteq> []))"

lemma read_loop_readable:
  assumes "zbd_read_loop E off left d buf s = Some x"
  shows "readable E \<longrightarrow> fst x \<noteq> None"
proof (rule zbd_read_loop.raw_induct [where P = "\<lambda>E off left d buf s x. readable E \<longrightarrow> fst x \<noteq> None", OF _ assms], goal_cases)
  case (1 loop E off left d buf s x)
  show ?case
  proof (intro impI, cases "left = 0")
    case False
    assume "readable E"
    then obtain data b' where "be_read E left off d (be s) = (ReadOK data, b')" "data \<noteq> []" using False unfolding readable_def by blast
    then show "fst x \<noteq> None" using 1 False \<open>readable E\<close> by auto
  qed (use 1(2) in auto)
qed

lemma ZBD_Read_readable: "ZBD_Read E off n d s = Some (None, s') \<Longrightarrow> 0 < n \<Longrightarrow> \<not> readable E"
  using read_loop_readable [of E off n d "[]" s "(None, s')"] by (auto simp: ZBD_Read_def)

context zoned_backend
begin

lemma read_loop_ok:
  assumes "responsive E" "off + left < 2 ^ 64"
  shows "\<exists>b. cont b = cont (be s) \<and> (zbd_read_loop E off left d buf s = Some (None, s\<lparr>be := b\<rparr>) \<or>
    zbd_read_loop E off left d buf s = Some (Some (buf @ bytes_at (cont (be s)) off left), s\<lparr>be := b\<rparr>))"
  using assms(2)
proof (induction left arbitrary: off buf s rule: less_induct)
  case (less left)
  show ?case
  proof (cases "left = 0")
    case True
    then show ?thesis by (intro exI [of _ "be s"]) (simp add: zbd_read_loop.simps)
  next
    case False
    then consider (ok) data b where "be_read E left off d (be s) = (ReadOK data, b)" "data \<noteq> []"
      | (err) b where "be_read E left off d (be s) = (ReadError, b)"
      using assms(1) unfolding responsive_def by (meson not_gr_zero)
    then show ?thesis
    proof cases
      case err
      then show ?thesis using False read_error [OF err]
        by (intro exI [of _ b]) (simp add: zbd_read_loop.simps [of E off left])
    next
      case ok
      have d: "cont b = cont (be s)" "length data \<le> left" "data = bytes_at (cont (be s)) off (length data)"
        using read_ok [OF ok(1)] by auto
      have step: "zbd_read_loop E off left d buf s =
          zbd_read_loop E (off + length data) (left - length data) d (buf @ data) (s\<lparr>be := b\<rparr>)"
        using False ok d(2) less.prems by (subst zbd_read_loop.simps) (simp add: add64_small)
      have "left - length data < left" "off + length data + (left - length data) < 2 ^ 64"
        using ok(2) False d(2) less.prems by auto
      from less.IH [OF this, of "s\<lparr>be := b\<rparr>" "buf @ data"] obtain b' where
        b': "cont b' = cont b" "zbd_read_loop E off left d buf s = Some (None, s\<lparr>be := b'\<rparr>) \<or>
          zbd_read_loop E off left d buf s =
            Some (Some (buf @ data @ bytes_at (cont b) (off + length data) (left - length data)), s\<lparr>be := b'\<rparr>)"
        unfolding step by auto
      have "data @ bytes_at (cont b) (off + length data) (left - length data) = bytes_at (cont (be s)) off left"
        using d bytes_at_append [of "cont (be s)" off "length data" "left - length data"] by simp
      then show ?thesis using b' d(1) by auto
    qed
  qed
qed

lemma ZBD_Read_ok:
  assumes "responsive E" "off + n < 2 ^ 64" "0 < n"
  shows "\<exists>b. cont b = cont (be s) \<and> (ZBD_Read E off n d s = Some (None, s\<lparr>be := b\<rparr>) \<or>
    ZBD_Read E off n d s = Some (Some (bytes_at (cont (be s)) off n), s\<lparr>be := b\<rparr>))"
  using read_loop_ok [OF assms(1,2), of s d "[]"] assms(3) by (simp add: ZBD_Read_def)

text \<open>
  One round of the reading loop at offset \<open>k\<close> of extent \<open>e\<close>: it reads the rest of the extent, or as
  much of it as is wanted, and goes on with the next extent that is not empty.
\<close>

lemma pread_round:
  fixes s :: "('b, 'm) zbd_scheme"
  assumes "responsive E" "extents_ok E es" "es = es1 @ e # es2" "k < e_length e" "length buf < r_sz"
    and "offset + length buf = total_length es1 + k" "offset + r_sz \<le> total_length es"
  defines "n \<equiv> min (r_sz - length buf) (e_length e - k)"
  defines "buf' \<equiv> buf @ bytes_at (cont (be s)) (e_start e + k) n"
  shows "\<exists>b. cont b = cont (be s) \<and>
    (pread_loop E es offset r_sz direct (e_start e + k) (e_start e + e_length e) buf s = Some ((IOError, []), s\<lparr>be := b\<rparr>) \<or>
     pread_loop E es offset r_sz direct (e_start e + k) (e_start e + e_length e) buf s =
      (if length buf' = r_sz then Some ((OK, buf'), s\<lparr>be := b\<rparr>)
       else case GetExtent es2 0 of None \<Rightarrow> Some ((OK, buf'), s\<lparr>be := b\<rparr>)
         | Some (e', _) \<Rightarrow> pread_loop E es offset r_sz direct (e_start e') (add64 (e_start e') (e_length e')) buf' (s\<lparr>be := b\<rparr>)))"
proof -
  define al where "al = (if direct \<and> n mod block_sz E \<noteq> 0 then block_sz E - n mod block_sz E else 0)"
  have e: "e_start e + e_length e + block_sz E < 2 ^ 63" "total_length es < 2 ^ 63" using assms(2,3) by (simp_all add: extents_ok_def)
  have n: "0 < n" "n \<le> e_length e - k" "n \<le> r_sz - length buf" using assms(4,5) by (auto simp: n_def)
  have al: "al \<le> block_sz E" by (simp add: al_def)
  have "add64 (r_sz - length buf) (e_start e + k) = r_sz - length buf + (e_start e + k)"
    using e assms(4,7) by (intro add64_small) simp
  moreover have "sub64 (e_start e + e_length e) (e_start e + k) = e_length e - k"
    using e assms(4) by (simp add: sub64_le)
  ultimately have p: "(if e_start e + e_length e < add64 (r_sz - length buf) (e_start e + k)
      then sub64 (e_start e + e_length e) (e_start e + k) else r_sz - length buf) = n"
    using assms(4) by (auto simp: n_def)
  have "e_start e + k + (n + al) < 2 ^ 64" using e n al assms(4) by simp
  then obtain b where b: "cont b = cont (be s)" "ZBD_Read E (e_start e + k) (n + al) direct s = Some (None, s\<lparr>be := b\<rparr>) \<or>
      ZBD_Read E (e_start e + k) (n + al) direct s = Some (Some (bytes_at (cont (be s)) (e_start e + k) (n + al)), s\<lparr>be := b\<rparr>)"
    using ZBD_Read_ok [OF assms(1), of "e_start e + k" "n + al" s direct] n(1) by auto
  have off: "add64 (e_start e + k) n = e_start e + k + n" "add64 offset (length buf') = offset + length buf'"
    using e n assms(4,5,7) by (simp_all add: add64_small buf'_def)
  have next_ext: "GetExtent es (offset + length buf') = GetExtent es2 0" if "e_start e + k + n = e_start e + e_length e"
  proof -
    have "offset + length buf' = total_length (es1 @ [e]) + 0" using assms(6) that by (simp add: buf'_def)
    then show ?thesis using GetExtent_append [of "es1 @ [e]" es2 0] assms(3) by (simp only:) simp
  qed
  have last: "e_start e + k + n \<noteq> e_start e + e_length e \<Longrightarrow> length buf' = r_sz"
    using assms(4,5) by (auto simp: n_def buf'_def)
  have bytes: "bytes_at m q (n + al) \<noteq> []" for m q using n(1) by (simp add: bytes_at_def)
  note unfold = pread_loop.simps [of E es offset r_sz direct "e_start e + k" "e_start e + e_length e" buf s, unfolded Let_def p, folded al_def]
  from b(2) show ?thesis
  proof
    assume r: "ZBD_Read E (e_start e + k) (n + al) direct s = Some (None, s\<lparr>be := b\<rparr>)"
    have "pread_loop E es offset r_sz direct (e_start e + k) (e_start e + e_length e) buf s = Some ((IOError, []), s\<lparr>be := b\<rparr>)"
      using assms(5) by (subst unfold) (simp add: r)
    then show ?thesis using b(1) by blast
  next
    assume r: "ZBD_Read E (e_start e + k) (n + al) direct s = Some (Some (bytes_at (cont (be s)) (e_start e + k) (n + al)), s\<lparr>be := b\<rparr>)"
    have len: "(if length (bytes_at (cont (be s)) (e_start e + k) (n + al)) \<le> n
        then length (bytes_at (cont (be s)) (e_start e + k) (n + al)) else n) = n" by simp
    have tk: "buf @ take n (bytes_at (cont (be s)) (e_start e + k) (n + al)) = buf'" by (simp add: buf'_def)
    have "pread_loop E es offset r_sz direct (e_start e + k) (e_start e + e_length e) buf s =
        (if length buf' \<noteq> r_sz \<and> e_start e + k + n = e_start e + e_length e then
           case GetExtent es (offset + length buf') of None \<Rightarrow> Some ((OK, buf'), s\<lparr>be := b\<rparr>)
           | Some (e', _) \<Rightarrow> pread_loop E es offset r_sz direct (e_start e') (add64 (e_start e') (e_length e')) buf' (s\<lparr>be := b\<rparr>)
         else pread_loop E es offset r_sz direct (e_start e + k + n) (e_start e + e_length e) buf' (s\<lparr>be := b\<rparr>))"
      using assms(5) by (subst unfold, simp only: r bind.bind_lunit prod.case option.case bytes if_False len tk off Let_def, simp)
    moreover have "pread_loop E es offset r_sz direct p q buf' t = Some ((OK, buf'), t)" if "length buf' = r_sz" for p q and t :: "('b, 'm) zbd_scheme"
      using that by (subst pread_loop.simps) simp
    ultimately show ?thesis using b(1) next_ext last by (intro exI [of _ b] conjI disjI2) auto
  qed
qed

lemma pread_ok:
  fixes s :: "('b, 'm) zbd_scheme"
  assumes "responsive E" "extents_ok E es" "es = es1 @ e # es2" "k < e_length e" "length buf \<le> r_sz"
    and "offset + length buf = total_length es1 + k" "offset + r_sz \<le> total_length es"
  shows "\<exists>b st out. pread_loop E es offset r_sz direct (e_start e + k) (e_start e + e_length e) buf s = Some ((st, out), s\<lparr>be := b\<rparr>) \<and>
    cont b = cont (be s) \<and> (st = IOError \<and> out = [] \<or>
      st = OK \<and> out = buf @ take (r_sz - length buf) (drop (offset + length buf) (file_bytes (cont (be s)) es)))"
  using assms(3-7)
proof (induction "r_sz - length buf" arbitrary: es1 e es2 k buf s rule: less_induct)
  case less
  show ?case
  proof (cases "length buf = r_sz")
    case True
    then show ?thesis by (intro exI [of _ "be s"]) (simp add: pread_loop.simps [of E es offset r_sz])
  next
    case False
    then have lt: "length buf < r_sz" using less.prems(3) by simp
    let ?m = "cont (be s)" let ?n = "min (r_sz - length buf) (e_length e - k)"
    let ?buf = "buf @ bytes_at ?m (e_start e + k) ?n"
    have rest: "drop (offset + length buf) (file_bytes ?m es) =
        bytes_at ?m (e_start e + k) (e_length e - k) @ file_bytes ?m es2"
      using less.prems(1,2) by (simp add: less.prems(4))
    note round = pread_round [OF assms(1,2) less.prems(1,2) lt less.prems(4,5), of s direct]
    then obtain b where b: "cont b = ?m"
      "pread_loop E es offset r_sz direct (e_start e + k) (e_start e + e_length e) buf s = Some ((IOError, []), s\<lparr>be := b\<rparr>) \<or>
       pread_loop E es offset r_sz direct (e_start e + k) (e_start e + e_length e) buf s =
        (if length ?buf = r_sz then Some ((OK, ?buf), s\<lparr>be := b\<rparr>)
         else case GetExtent es2 0 of None \<Rightarrow> Some ((OK, ?buf), s\<lparr>be := b\<rparr>)
           | Some (e', _) \<Rightarrow> pread_loop E es offset r_sz direct (e_start e') (add64 (e_start e') (e_length e')) ?buf (s\<lparr>be := b\<rparr>))"
      by blast
    consider (err) "pread_loop E es offset r_sz direct (e_start e + k) (e_start e + e_length e) buf s = Some ((IOError, []), s\<lparr>be := b\<rparr>)"
      | (all) "length ?buf = r_sz" "pread_loop E es offset r_sz direct (e_start e + k) (e_start e + e_length e) buf s = Some ((OK, ?buf), s\<lparr>be := b\<rparr>)"
      | (more) "length ?buf \<noteq> r_sz" "pread_loop E es offset r_sz direct (e_start e + k) (e_start e + e_length e) buf s =
          (case GetExtent es2 0 of None \<Rightarrow> Some ((OK, ?buf), s\<lparr>be := b\<rparr>)
           | Some (e', _) \<Rightarrow> pread_loop E es offset r_sz direct (e_start e') (add64 (e_start e') (e_length e')) ?buf (s\<lparr>be := b\<rparr>))"
      using b(2) by (auto split: if_splits)
    then show ?thesis
    proof cases
      case err
      then show ?thesis using b(1) by blast
    next
      case all
      then have "take (r_sz - length buf) (drop (offset + length buf) (file_bytes ?m es)) = bytes_at ?m (e_start e + k) ?n"
        unfolding rest by (auto simp: min_def split: if_splits)
      then show ?thesis using all(2) b(1) by auto
    next
      case more
      then have n: "?n = e_length e - k" using lt by (auto simp: min_def)
      have ok2: "extents_ok E es2" "0 < total_length es2"
        using assms(2) less.prems lt more(1) n by (auto simp: extents_ok_def)
      obtain es1' e' es2' k' where split: "es2 = es1' @ e' # es2'" "0 = total_length es1' + k'" "k' < e_length e'"
        "GetExtent es2 0 = Some (e', e_start e' + k')" using GetExtent_split [OF ok2] .
      have e': "add64 (e_start e') (e_length e') = e_start e' + e_length e'"
        using ok2(1) split(1) by (simp add: extents_ok_def add64_small)
      have "\<exists>b' st out. pread_loop E es offset r_sz direct (e_start e' + 0) (e_start e' + e_length e') ?buf (s\<lparr>be := b\<rparr>) =
          Some ((st, out), s\<lparr>be := b, be := b'\<rparr>) \<and> cont b' = cont (be (s\<lparr>be := b\<rparr>)) \<and> (st = IOError \<and> out = [] \<or>
          st = OK \<and> out = ?buf @ take (r_sz - length ?buf) (drop (offset + length ?buf) (file_bytes (cont (be (s\<lparr>be := b\<rparr>))) es)))"
        using less.prems lt n split more(1) by (intro less.hyps [of ?buf "es1 @ e # es1'" e' es2' 0 "s\<lparr>be := b\<rparr>"]) auto
      moreover have "?buf @ take (r_sz - length ?buf) (drop (offset + length ?buf) (file_bytes ?m es)) =
          buf @ take (r_sz - length buf) (drop (offset + length buf) (file_bytes ?m es))"
      proof -
        have "take (r_sz - length buf) (drop (offset + length buf) (file_bytes ?m es)) =
            bytes_at ?m (e_start e + k) ?n @ take (r_sz - length buf - ?n) (file_bytes ?m es2)"
          unfolding rest using lt more(1) n by (simp add: min_def split: if_splits)
        moreover have "drop (offset + length ?buf) (file_bytes ?m es) = drop (e_length e - k) (drop (offset + length buf) (file_bytes ?m es))"
          using n by (simp add: ac_simps)
        then have "drop (offset + length ?buf) (file_bytes ?m es) = file_bytes ?m es2" by (simp add: rest)
        ultimately show ?thesis by simp
      qed
      ultimately show ?thesis using more(2) split(4) e' b(1) by auto
    qed
  qed
qed

end

section \<open>Property\<close>

text \<open>
  C22. On a device that answers read requests, \<open>PositionedRead\<close> returns, for direct and for buffered
  reads alike: exactly the bytes of the file from the offset on, as many as were asked for or as the
  file has, or an I/O error and no data. Nothing stored on the device changes, and of the state only
  the backend moves on.
\<close>

theorem positioned_read_correct:
  assumes "zoned_backend E cont" "responsive E" "extents_ok E (f_extents (file_at s f))" "offset + n < 2 ^ 64"
    and "f_file_size (file_at s f) = total_length (f_extents (file_at s f))"
  shows "\<exists>b st out. PositionedRead E f offset n direct s = Some ((st, out), s\<lparr>be := b\<rparr>) \<and> cont b = cont (be s) \<and>
    (st = IOError \<and> out = [] \<or>
     st = OK \<and> out = take n (drop offset (file_bytes (cont (be s)) (f_extents (file_at s f)))))"
proof (cases "offset < total_length (f_extents (file_at s f))")
  case False
  then show ?thesis using assms(5) by (intro exI [of _ "be s"]) (simp add: PositionedRead_def)
next
  case True
  let ?es = "f_extents (file_at s f)"
  define r_sz where "r_sz = (if total_length ?es < offset + n then total_length ?es - offset else n)"
  obtain es1 e es2 k where split: "?es = es1 @ e # es2" "offset = total_length es1 + k" "k < e_length e"
    "GetExtent ?es offset = Some (e, e_start e + k)" using GetExtent_split [OF assms(3) True] .
  have e: "add64 (e_start e) (e_length e) = e_start e + e_length e"
    using assms(3) split(1) by (simp add: extents_ok_def add64_small)
  have "offset + r_sz \<le> total_length ?es" using True by (simp add: r_sz_def)
  with zoned_backend.pread_ok [OF assms(1-3) split(1,3), of "[]" r_sz offset direct s] split(2)
  obtain b st out where r: "pread_loop E ?es offset r_sz direct (e_start e + k) (e_start e + e_length e) [] s = Some ((st, out), s\<lparr>be := b\<rparr>)"
    "cont b = cont (be s)" "st = IOError \<and> out = [] \<or> st = OK \<and> out = take r_sz (drop offset (file_bytes (cont (be s)) ?es))"
    by auto
  have "PositionedRead E f offset n direct s = Some ((st, out), s\<lparr>be := b\<rparr>)"
    using True assms(4,5) split(4) e r(1) by (auto simp: PositionedRead_def r_sz_def add64_small Let_def split: if_splits)
  moreover have "take r_sz (drop offset (file_bytes (cont (be s)) ?es)) = take n (drop offset (file_bytes (cont (be s)) ?es))"
    by (simp add: r_sz_def)
  ultimately show ?thesis using r(2,3) by auto
qed

text \<open>A file of two extents, "hello" and "abc", on the small device.\<close>

definition read_dev :: "(nat \<Rightarrow> char) zbdlib zbd" where
  "read_dev = mem_dev\<lparr>file_at := (\<lambda>_. codec_file),
     be := new_zbdlib ''nvme0n1'' (overwrite 48 ''hello'' (overwrite 64 ''abc'' (\<lambda>_. CHR 0x00)))\<rparr>"

lemma mem_responsive: "responsive mem_env"
  by (auto simp: responsive_def mem_env_def zbdlib_env_def zbdlib_Read_def mem_os_def bytes_at_def)

theorem positioned_read_correct_witness:
  "\<exists>b st out. PositionedRead mem_env 1 3 4 True read_dev = Some ((st, out), read_dev\<lparr>be := b\<rparr>) \<and>
     (st = IOError \<and> out = [] \<or> st = OK \<and> out = ''loab'')"
proof -
  have x: "file_at read_dev f = codec_file" "be read_dev = new_zbdlib ''nvme0n1'' (overwrite 48 ''hello'' (overwrite 64 ''abc'' (\<lambda>_. CHR 0x00)))" for f
    by (simp_all add: read_dev_def)
  have es: "extents_ok mem_env (f_extents (file_at read_dev 1))" "f_file_size (file_at read_dev 1) = total_length (f_extents (file_at read_dev 1))"
    by (simp_all add: x codec_file_def extents_ok_def mem_env_def zbdlib_env_def mem_info_def)
  let ?m = "overwrite 48 ''hello'' (overwrite 64 ''abc'' (\<lambda>_. CHR 0x00))"
  have l: "length ''hello'' = 5" "length ''abc'' = 3" by simp_all
  have "bytes_at ?m 48 5 = ''hello''" "bytes_at ?m 64 3 = ''abc''"
    using bytes_at_overwrite [of 48 "''hello''" "overwrite 64 ''abc'' (\<lambda>_. CHR 0x00)", unfolded l]
      bytes_at_overwrite [of 64 "''abc''" "\<lambda>_. CHR 0x00", unfolded l]
      bytes_at_overwrite_disjoint [of 64 3 48 "''hello''" "overwrite 64 ''abc'' (\<lambda>_. CHR 0x00)"] by simp_all
  then have "take 4 (drop 3 (file_bytes (mem_cont (be read_dev)) (f_extents (file_at read_dev 1)))) = ''loab''"
    by (simp add: x codec_file_def new_zbdlib_def del: take_bytes_at drop_bytes_at)
  with positioned_read_correct [OF mem.zoned_backend_axioms mem_responsive es(1) _ es(2), of 3 4 True] show ?thesis by auto
qed

end
