(* ===== verification/FileAppend.thy ===== *)
theory FileAppend
  imports FileRead
begin

text \<open>
  Appending to a file: what the file layer relies on when it persists metadata, the effect of an
  append as a relation that composes, and the correctness of buffered appends.
\<close>

section \<open>Good states\<close>

text \<open>I/O and metadata zones occupy disjoint ranges of addresses.\<close>

definition apart :: "'b env \<Rightarrow> ('b, 'm) zbd_scheme \<Rightarrow> bool" where
  "apart E s \<longleftrightarrow> set (io_zones s) \<inter> set (meta_zones s) = {} \<and>
     (\<forall>z \<in> set (io_zones s) \<union> set (meta_zones s). \<forall>y \<in> set (io_zones s) \<union> set (meta_zones s). z \<noteq> y \<longrightarrow>
        z_start (zone_at s z) + zone_sz E \<le> z_start (zone_at s y) \<or> z_start (zone_at s y) + zone_sz E \<le> z_start (zone_at s z))"

definition good :: "'b env \<Rightarrow> ('b, 'm) zbd_scheme \<Rightarrow> bool" where
  "good E s \<longleftrightarrow> dev_inv E s \<and> apart E s \<and> used_ok s \<and> bytes_written s < 2 ^ 64"

lemma apart_cong: "io_zones s' = io_zones s \<Longrightarrow> meta_zones s' = meta_zones s \<Longrightarrow>
    (\<And>z. z_start (zone_at s' z) = z_start (zone_at s z)) \<Longrightarrow> apart E s' = apart E s"
  by (simp add: apart_def)

text \<open>An extent that lies in the written part of an I/O zone.\<close>

definition safe :: "('b, 'm) zbd_scheme \<Rightarrow> extent \<Rightarrow> bool" where
  "safe s e \<longleftrightarrow> e_zone e \<in> set (io_zones s) \<and> z_start (zone_at s (e_zone e)) \<le> e_start e \<and>
     e_start e + e_length e \<le> z_wp (zone_at s (e_zone e))"

section \<open>Persisting metadata\<close>

text \<open>
  What persisting the metadata of a file may change: the metadata zones, and of the files the count
  of synced extents and the modification time. \<open>meta_frame\<close> is what the file layer changes between
  two such calls.
\<close>

definition sync_blank :: "zonefile \<Rightarrow> zonefile" where
  "sync_blank x = x\<lparr>f_nr_synced_extents := 0, f_m_time := 0\<rparr>"

definition io_frame :: "'b env \<Rightarrow> ('b \<Rightarrow> nat \<Rightarrow> char) \<Rightarrow> ('b, 'm) zbd_scheme \<Rightarrow> ('b, 'm) zbd_scheme \<Rightarrow> bool" where
  "io_frame E cont s s' \<longleftrightarrow> io_zones s' = io_zones s \<and> meta_zones s' = meta_zones s \<and>
     zone_start_to_pointer s' = zone_start_to_pointer s \<and> active_io_zones s' = active_io_zones s \<and>
     open_io_zones s' = open_io_zones s \<and> max_nr_active_io_zones s' = max_nr_active_io_zones s \<and>
     max_nr_open_io_zones s' = max_nr_open_io_zones s \<and> bytes_written s' < 2 ^ 64 \<and>
     (\<forall>z. z_start (zone_at s' z) = z_start (zone_at s z) \<and> z_used_capacity (zone_at s' z) = z_used_capacity (zone_at s z)) \<and>
     (\<forall>z \<in> set (io_zones s). zone_at s' z = zone_at s z \<and>
        (\<forall>a. z_start (zone_at s z) \<le> a \<and> a < z_start (zone_at s z) + zone_sz E \<longrightarrow> cont (be s') a = cont (be s) a)) \<and>
     (\<forall>g. sync_blank (file_at s' g) = sync_blank (file_at s g))"

definition meta_frame :: "('b, 'm) zbd_scheme \<Rightarrow> ('b, 'm) zbd_scheme \<Rightarrow> bool" where
  "meta_frame s s' \<longleftrightarrow> io_zones s' = io_zones s \<and> meta_zones s' = meta_zones s \<and> zbd.more s' = zbd.more s \<and>
     (\<forall>z. z_start (zone_at s' z) = z_start (zone_at s z)) \<and> (\<forall>z \<in> set (meta_zones s). zone_at s' z = zone_at s z)"

lemma io_frame_safe:
  assumes "good E s" "io_frame E cont s s'" "safe s e"
  shows "bytes_at (cont (be s')) (e_start e) (e_length e) = bytes_at (cont (be s)) (e_start e) (e_length e)"
proof (rule bytes_at_cong)
  fix a assume a: "e_start e \<le> a" "a < e_start e + e_length e"
  have e: "e_zone e \<in> set (io_zones s)" "z_start (zone_at s (e_zone e)) \<le> e_start e"
    "e_start e + e_length e \<le> z_wp (zone_at s (e_zone e))" using assms(3) by (auto simp: safe_def)
  then have "zone_wf E (zone_at s (e_zone e))" using assms(1) by (simp add: good_def dev_inv_def)
  then show "cont (be s') a = cont (be s) a" using assms(2) a e by (auto simp: io_frame_def zone_wf_def)
qed

locale metadata_writer = zoned_backend E cont
  for E :: "'b env" and cont :: "'b \<Rightarrow> nat \<Rightarrow> char" +
  fixes persist :: "fid \<Rightarrow> ('b, 'm) zbd_scheme \<Rightarrow> (status \<times> ('b, 'm) zbd_scheme) option"
    and minv :: "('b, 'm) zbd_scheme \<Rightarrow> bool"
  assumes persist_frame: "minv s \<Longrightarrow> good E s \<Longrightarrow> persist f s = Some (st, s') \<Longrightarrow> io_frame E cont s s' \<and> minv s'"
    and inv_frame: "minv s \<Longrightarrow> meta_frame s s' \<Longrightarrow> minv s'"

section \<open>The effect of writing\<close>

text \<open>
  \<open>wrote E cont minv f d s s'\<close>: from \<open>s\<close> to \<open>s'\<close> the bytes \<open>d\<close> were added to file \<open>f\<close>. Extents in the written
  part of the zones keep their data, no other file changes, the tokens stay balanced and the
  accounting exact.
\<close>

definition wrote :: "'b env \<Rightarrow> ('b \<Rightarrow> nat \<Rightarrow> char) \<Rightarrow> (('b, 'm) zbd_scheme \<Rightarrow> bool) \<Rightarrow> fid \<Rightarrow> string \<Rightarrow>
    ('b, 'm) zbd_scheme \<Rightarrow> ('b, 'm) zbd_scheme \<Rightarrow> bool" where
  "wrote E cont minv f d s s' \<longleftrightarrow> good E s' \<and> minv s' \<and> io_zones s' = io_zones s \<and> token_balance s' = token_balance s \<and>
     (\<forall>e. safe s e \<longrightarrow> safe s' e \<and>
        bytes_at (cont (be s')) (e_start e) (e_length e) = bytes_at (cont (be s)) (e_start e) (e_length e)) \<and>
     (\<exists>es. f_extents (file_at s' f) = f_extents (file_at s f) @ es \<and> (\<forall>e \<in> set es. safe s' e) \<and>
        file_bytes (cont (be s')) es = d) \<and>
     f_file_size (file_at s' f) mod 2 ^ 64 = (f_file_size (file_at s f) + length d) mod 2 ^ 64 \<and>
     (\<forall>g. g \<noteq> f \<longrightarrow> f_extents (file_at s' g) = f_extents (file_at s g) \<and> f_file_size (file_at s' g) = f_file_size (file_at s g)) \<and>
     (\<forall>g. f_is_sparse (file_at s' g) = f_is_sparse (file_at s g)) \<and>
     (\<forall>fs. f \<in> fs \<longrightarrow> accounted fs s \<longrightarrow> accounted fs s')"

lemma wrote_good: "wrote E cont minv f d s s' \<Longrightarrow> good E s' \<and> minv s'"
  by (simp add: wrote_def)

lemma safe_file_bytes:
  assumes "\<forall>e. safe s e \<longrightarrow> safe s' e \<and>
      bytes_at (cont (be s')) (e_start e) (e_length e) = bytes_at (cont (be s)) (e_start e) (e_length e)"
    and "\<forall>e \<in> set es. safe s e"
  shows "file_bytes (cont (be s')) es = file_bytes (cont (be s)) es"
  using assms(2) by (induction es) (auto simp: assms(1))

lemma wrote_bytes:
  assumes "wrote E cont minv f d s s'" "\<forall>e \<in> set (f_extents (file_at s f)). safe s e"
  shows "file_bytes (cont (be s')) (f_extents (file_at s' f)) = file_bytes (cont (be s)) (f_extents (file_at s f)) @ d \<and>
    (\<forall>e \<in> set (f_extents (file_at s' f)). safe s' e)"
proof -
  obtain es where es: "f_extents (file_at s' f) = f_extents (file_at s f) @ es" "\<forall>e \<in> set es. safe s' e"
    "file_bytes (cont (be s')) es = d" using assms(1) unfolding wrote_def by blast
  have keep: "\<forall>e. safe s e \<longrightarrow> safe s' e \<and>
      bytes_at (cont (be s')) (e_start e) (e_length e) = bytes_at (cont (be s)) (e_start e) (e_length e)"
    using assms(1) unfolding wrote_def by blast
  then show ?thesis using safe_file_bytes [OF keep assms(2)] es assms(2) by auto
qed

lemma wrote_trans:
  assumes a: "wrote E cont minv f d s s1" and b: "wrote E cont minv f d' s1 s2"
  shows "wrote E cont minv f (d @ d') s s2"
proof -
  obtain es where es: "f_extents (file_at s1 f) = f_extents (file_at s f) @ es" "\<forall>e \<in> set es. safe s1 e"
    "file_bytes (cont (be s1)) es = d" using a unfolding wrote_def by blast
  obtain es' where es': "f_extents (file_at s2 f) = f_extents (file_at s1 f) @ es'" "\<forall>e \<in> set es'. safe s2 e"
    "file_bytes (cont (be s2)) es' = d'" using b unfolding wrote_def by blast
  have keep: "\<forall>e. safe s1 e \<longrightarrow> safe s2 e \<and>
      bytes_at (cont (be s2)) (e_start e) (e_length e) = bytes_at (cont (be s1)) (e_start e) (e_length e)"
    using b unfolding wrote_def by blast
  have "file_bytes (cont (be s2)) (es @ es') = d @ d'"
    using safe_file_bytes [OF keep es(2)] es(3) es'(3) by simp
  moreover have "\<forall>e \<in> set (es @ es'). safe s2 e" using keep es(2) es'(2) by auto
  ultimately have "\<exists>es. f_extents (file_at s2 f) = f_extents (file_at s f) @ es \<and> (\<forall>e \<in> set es. safe s2 e) \<and>
      file_bytes (cont (be s2)) es = d @ d'"
    using es(1) es'(1) by (intro exI [of _ "es @ es'"]) simp
  moreover have "f_file_size (file_at s2 f) mod 2 ^ 64 = (f_file_size (file_at s f) + length (d @ d')) mod 2 ^ 64"
  proof -
    have "f_file_size (file_at s2 f) mod 2 ^ 64 = (f_file_size (file_at s1 f) mod 2 ^ 64 + length d') mod 2 ^ 64"
      using b by (simp add: wrote_def mod_simps)
    also have "\<dots> = ((f_file_size (file_at s f) + length d) mod 2 ^ 64 + length d') mod 2 ^ 64"
      using a by (simp add: wrote_def)
    finally show ?thesis by (simp add: mod_simps add.assoc)
  qed
  ultimately show ?thesis using a b unfolding wrote_def by auto
qed

text \<open>Steps that write nothing.\<close>

lemma blank_sel [simp]: "f_extents (blank x) = f_extents x" "f_file_size (blank x) = f_file_size x"
    "f_active_zone (blank x) = f_active_zone x" "f_extent_start (blank x) = f_extent_start x" "f_is_sparse (blank x) = f_is_sparse x"
  by (simp_all add: blank_def)

lemma sync_blank_sel [simp]: "f_extents (sync_blank x) = f_extents x" "f_file_size (sync_blank x) = f_file_size x"
    "f_active_zone (sync_blank x) = f_active_zone x" "f_extent_start (sync_blank x) = f_extent_start x" "f_is_sparse (sync_blank x) = f_is_sparse x"
  by (simp_all add: sync_blank_def)

lemma blank_eqD: "blank x = blank y \<Longrightarrow> f_extents x = f_extents y \<and> f_file_size x = f_file_size y \<and>
    f_active_zone x = f_active_zone y \<and> f_extent_start x = f_extent_start y \<and> f_is_sparse x = f_is_sparse y"
  by (metis blank_sel)

lemma sync_blank_eqD: "sync_blank x = sync_blank y \<Longrightarrow> f_extents x = f_extents y \<and> f_file_size x = f_file_size y \<and>
    f_active_zone x = f_active_zone y \<and> f_extent_start x = f_extent_start y \<and> f_is_sparse x = f_is_sparse y"
  by (metis sync_blank_sel)

lemma wrote_nothing:
  assumes "good E s'" "minv s'" "io_zones s' = io_zones s" "token_balance s' = token_balance s"
    and "\<And>z. z \<in> set (io_zones s) \<Longrightarrow> z_start (zone_at s' z) = z_start (zone_at s z) \<and> z_wp (zone_at s z) \<le> z_wp (zone_at s' z)"
    and "\<And>z. z_used_capacity (zone_at s' z) = z_used_capacity (zone_at s z)"
    and "\<And>e. safe s e \<Longrightarrow> bytes_at (cont (be s')) (e_start e) (e_length e) = bytes_at (cont (be s)) (e_start e) (e_length e)"
    and "\<And>g. f_extents (file_at s' g) = f_extents (file_at s g) \<and> f_file_size (file_at s' g) = f_file_size (file_at s g) \<and>
      f_is_sparse (file_at s' g) = f_is_sparse (file_at s g)"
  shows "wrote E cont minv f [] s s'"
proof -
  have "safe s e \<Longrightarrow> safe s' e" for e
    using assms(3) assms(5) [of "e_zone e"] by (auto simp: safe_def)
  then show ?thesis using assms by (auto simp: wrote_def accounted_def)
qed

text \<open>A file that is being written: it holds a zone, and its next extent starts at the write pointer.\<close>

definition writing :: "fid \<Rightarrow> zid \<Rightarrow> ('b, 'm) zbd_scheme \<Rightarrow> bool" where
  "writing f z s \<longleftrightarrow> f_active_zone (file_at s f) = Some z \<and> z \<in> set (io_zones s) \<and> z_busy (zone_at s z) \<and>
     f_extent_start (file_at s f) = z_wp (zone_at s z)"

definition ready :: "fid \<Rightarrow> ('b, 'm) zbd_scheme \<Rightarrow> bool" where
  "ready f s \<longleftrightarrow> (\<forall>z. f_active_zone (file_at s f) = Some z \<longrightarrow> writing f z s)"

lemma writing_ready: "writing f z s \<Longrightarrow> ready f s"
  by (simp add: ready_def writing_def)

context metadata_writer
begin

lemma wrote_taken:
  assumes "good E s" "minv s" "taken E cont a n 0 s s'"
  shows "wrote E cont minv f [] s s'"
proof (rule wrote_nothing)
  have start: "z_start (zone_at s' z) = z_start (zone_at s z)" for z using assms(3) by (simp add: taken_def)
  have "set (io_zones s) \<inter> set (meta_zones s) = {}" using assms(1) by (simp add: good_def apart_def)
  then have "meta_frame s s'" using assms(3) start unfolding meta_frame_def taken_def by auto
  then show "minv s'" using inv_frame assms(2) by blast
  have "apart E s' = apart E s" using assms(3) by (intro apart_cong) (simp_all add: taken_def)
  then show "good E s'" using assms(1,3) by (simp add: good_def taken_def used_ok_def)
  show "f_extents (file_at s' g) = f_extents (file_at s g) \<and> f_file_size (file_at s' g) = f_file_size (file_at s g) \<and>
        f_is_sparse (file_at s' g) = f_is_sparse (file_at s g)" for g
    using assms(3) blank_eqD [of "file_at s' g" "file_at s g"] by (simp add: taken_def)
qed (use assms(3) in \<open>simp_all add: taken_def\<close>)

lemma wrote_persist:
  assumes "good E s" "minv s" "persist f s = Some (st, s')"
  shows "wrote E cont minv f [] s s'" "writing f z s \<Longrightarrow> writing f z s'"
proof -
  have fr: "io_frame E cont s s'" "minv s'" using persist_frame [OF assms(2,1,3)] by auto
  have files: "sync_blank (file_at s' g) = sync_blank (file_at s g)" for g using fr(1) by (simp add: io_frame_def)
  have zones: "z \<in> set (io_zones s) \<Longrightarrow> zone_at s' z = zone_at s z" for z using fr(1) by (simp add: io_frame_def)
  show "wrote E cont minv f [] s s'"
  proof (rule wrote_nothing)
    have "dev_inv E s'" using fr(1) assms(1) zones by (simp add: io_frame_def good_def dev_inv_def IsUsed_def)
    moreover have "apart E s' = apart E s" using fr(1) by (intro apart_cong) (simp_all add: io_frame_def)
    ultimately show "good E s'" using assms(1) fr(1) by (simp add: good_def io_frame_def used_ok_def)
    have "active_count s' = active_count s" using fr(1) zones by (intro active_count_cong) (simp_all add: io_frame_def)
    then show "token_balance s' = token_balance s" using fr(1) by (simp add: token_balance_def io_frame_def)
    show "f_extents (file_at s' g) = f_extents (file_at s g) \<and> f_file_size (file_at s' g) = f_file_size (file_at s g) \<and>
        f_is_sparse (file_at s' g) = f_is_sparse (file_at s g)" for g
      using sync_blank_eqD [OF files [of g]] by simp
    show "bytes_at (cont (be s')) (e_start e) (e_length e) = bytes_at (cont (be s)) (e_start e) (e_length e)" if "safe s e" for e
      using io_frame_safe [OF assms(1) fr(1) that] .
  qed (use fr in \<open>simp_all add: io_frame_def\<close>)
  show "writing f z s'" if "writing f z s"
    using that fr(1) zones sync_blank_eqD [OF files [of f]] by (simp add: writing_def io_frame_def)
qed

lemma wrote_file:
  assumes "good E s" "minv s" "f_extents (h (file_at s f)) = f_extents (file_at s f)" "f_file_size (h (file_at s f)) = f_file_size (file_at s f)"
    "f_is_sparse (h (file_at s f)) = f_is_sparse (file_at s f)"
  shows "wrote E cont minv g [] s (file_upd f h s)"
proof (rule wrote_nothing)
  have "meta_frame s (file_upd f h s)" by (simp add: meta_frame_def)
  then show "minv (file_upd f h s)" using inv_frame assms(2) by blast
  show "good E (file_upd f h s)" using assms(1) by (simp add: good_def dev_inv_def apart_def used_ok_def)
qed (use assms in \<open>auto simp: token_balance_def active_count_def\<close>)

lemma allocate_wrote:
  assumes "std_algorithms E" "good E s" "minv s" "AllocateNewZone E persist f s = Some (st, s')"
  shows "wrote E cont minv f [] s s' \<and> (st = OK \<longrightarrow> (\<exists>z. writing f z s'))"
proof -
  obtain st1 out s1 where a: "AllocateIOZone E (f_lifetime (file_at s f)) (f_io_type (file_at s f)) f s = Some ((st1, out), s1)"
    using assms(4) by (auto simp: AllocateNewZone_def split: Option.bind_splits)
  have t: "taken E cont out (of_bool (out \<noteq> None)) 0 s s1" using allocate_taken [OF assms(1) a] assms(2) by (simp add: good_def)
  have w1: "wrote E cont minv f [] s s1" by (rule wrote_taken [OF assms(2,3) t])
  show ?thesis
  proof (cases "st1 = OK \<and> out \<noteq> None")
    case False
    then have "s' = s1 \<and> st \<noteq> OK" using assms(4) a by (auto simp: AllocateNewZone_def split: if_splits option.splits)
    then show ?thesis using w1 by simp
  next
    case True
    then obtain z where z: "out = Some z" by blast
    let ?h = "\<lambda>x. x\<lparr>f_active_zone := Some z, f_extent_start := z_wp (zone_at s1 z), f_extent_filepos := f_file_size x\<rparr>"
    have p: "persist f (file_upd f ?h s1) = Some (st, s')"
      using assms(4) a z True by (simp add: AllocateNewZone_def SetActiveZone_def)
    have w2: "wrote E cont minv f [] s1 (file_upd f ?h s1)"
      using wrote_good [OF w1] by (intro wrote_file) simp_all
    have on: "writing f z (file_upd f ?h s1)" using t z by (simp add: writing_def taken_def)
    note w3 = wrote_persist [OF _ _ p]
    show ?thesis using wrote_good [OF w2] w3 on wrote_trans [OF w1 wrote_trans [OF w2]] by auto
  qed
qed

lemma close_full_wrote:
  assumes "good E s" "minv s" "writing f z s" "z_capacity (zone_at s z) = 0" "CloseActiveZone E f s = (st, s')"
  shows "st = OK" "wrote E cont minv g [] s s'"
proof -
  let ?Z = "(zone_at s)(z := (zone_at s z)\<lparr>z_busy := False\<rparr>)"
  have z: "f_active_zone (file_at s f) = Some z" "z \<in> set (io_zones s)" "z_busy (zone_at s z)" using assms(3) by (simp_all add: writing_def)
  have eq: "st = OK \<and> s' = s\<lparr>zone_at := ?Z, file_at := (file_at s)(f := (file_at s f)\<lparr>f_active_zone := None\<rparr>),
      open_io_zones := open_io_zones s - 1, active_io_zones := active_io_zones s - 1\<rparr>"
    using assms(4,5) z by (simp add: CloseActiveZone_def Zone_Close_def IsFull_def ReleaseActiveZone_def Release_def
        PutOpenIOZoneToken_def PutActiveIOZoneToken_def)
  then show "st = OK" by simp
  have s': "zone_at s' = ?Z" "io_zones s' = io_zones s" "meta_zones s' = meta_zones s" "zbd.more s' = zbd.more s" "be s' = be s"
    "zone_start_to_pointer s' = zone_start_to_pointer s" "active_io_zones s' = active_io_zones s - 1" "bytes_written s' = bytes_written s"
    "file_at s' = (file_at s)(f := (file_at s f)\<lparr>f_active_zone := None\<rparr>)" using eq by simp_all
  show "wrote E cont minv g [] s s'"
  proof (rule wrote_nothing)
    have "z \<notin> set (meta_zones s)" using assms(1) z(2) by (auto simp: good_def apart_def)
    then have "meta_frame s s'" by (auto simp: meta_frame_def s')
    then show "minv s'" using inv_frame assms(2) by blast
    have "apart E s' = apart E s" by (rule apart_cong) (simp_all add: s')
    then show "good E s'" using assms(1) by (auto simp: good_def s' dev_inv_def used_ok_def zone_wf_def IsUsed_def IsEmpty_def)
    have "active_count s' = active_count (s\<lparr>zone_at := ?Z\<rparr>)" by (rule active_count_cong) (simp_all add: s')
    also have "\<dots> = active_count s - 1" using z assms(4) by (simp add: active_count_upd counted_def IsFull_def)
    finally show "token_balance s' = token_balance s" by (simp add: token_balance_def s')
  qed (auto simp: s')
qed

lemma next_zone_wrote:
  assumes "std_algorithms E" "good E s" "minv s" "writing f z s" "z_capacity (zone_at s z) = 0" "next_zone E persist f n s = Some (st, s')"
  shows "wrote E cont minv f [] s s' \<and> (st = OK \<longrightarrow> (\<exists>z. writing f z s'))"
proof -
  obtain st1 s1 where c: "CloseActiveZone E f s = (st1, s1)" by fastforce
  note w1 = close_full_wrote [OF assms(2-5) c]
  let ?s = "file_upd f (\<lambda>x. x\<lparr>f_alloc_size := n\<rparr>) s1"
  have w2: "wrote E cont minv f [] s1 ?s" using wrote_good [OF w1(2)] by (intro wrote_file) simp_all
  have "AllocateNewZone E persist f ?s = Some (st, s')" using assms(6) c w1(1) by (simp add: next_zone_def)
  note a = allocate_wrote [OF assms(1) _ _ this]
  show ?thesis using a wrote_good [OF w2] wrote_trans [OF w1(2) wrote_trans [OF w2]] by auto
qed

text \<open>An append to a zone writes above every extent.\<close>

lemma safe_outside:
  assumes "good E s" "z \<in> set (io_zones s)" "safe s e" "n \<le> z_capacity (zone_at s z)"
  shows "e_start e + e_length e \<le> z_wp (zone_at s z) \<or> z_wp (zone_at s z) + n \<le> e_start e"
proof (cases "e_zone e = z")
  case True
  then show ?thesis using assms(3) by (simp add: safe_def)
next
  case False
  let ?y = "e_zone e"
  have e: "?y \<in> set (io_zones s)" "z_start (zone_at s ?y) \<le> e_start e" "e_start e + e_length e \<le> z_wp (zone_at s ?y)"
    using assms(3) by (auto simp: safe_def)
  have "zone_wf E (zone_at s z)" "zone_wf E (zone_at s ?y)" using assms(1,2) e(1) by (simp_all add: good_def dev_inv_def)
  then have "z_start (zone_at s z) \<le> z_wp (zone_at s z)" "z_wp (zone_at s z) + n \<le> z_start (zone_at s z) + zone_sz E"
    "z_wp (zone_at s ?y) \<le> z_start (zone_at s ?y) + zone_sz E"
    using zone_wf_capacity assms(4) by (force simp: zone_wf_def)+
  moreover have "z_start (zone_at s z) + zone_sz E \<le> z_start (zone_at s ?y) \<or> z_start (zone_at s ?y) + zone_sz E \<le> z_start (zone_at s z)"
    using assms(1,2) e(1) False by (simp add: good_def apart_def)
  ultimately show ?thesis using e by linarith
qed

lemma advanced_wrote:
  assumes "good E s" "minv s" "writing f z s" "k \<le> n" "n \<le> z_capacity (zone_at s z)"
    and "\<And>a. a < z_wp (zone_at s z) \<or> z_wp (zone_at s z) + n \<le> a \<Longrightarrow> cont b a = cont (be s) a"
  shows "wrote E cont minv g [] s (advanced z k b s)"
proof (rule wrote_nothing)
  let ?s = "advanced z k b s"
  have z: "z \<in> set (io_zones s)" "z_busy (zone_at s z)" using assms(3) by (simp_all add: writing_def)
  have same: "io_zones ?s = io_zones s" "meta_zones ?s = meta_zones s" "zbd.more ?s = zbd.more s" "file_at ?s = file_at s"
    "zone_start_to_pointer ?s = zone_start_to_pointer s" "active_io_zones ?s = active_io_zones s" "bytes_written ?s < 2 ^ 64"
    by (simp_all add: advanced_def)
  have "z \<notin> set (meta_zones s)" using assms(1) z(1) by (auto simp: good_def apart_def)
  then have "meta_frame s ?s" by (auto simp: meta_frame_def same zone_at_advanced)
  then show "minv ?s" using inv_frame assms(2) by blast
  have "dev_inv E ?s"
    using assms(1,4,5) zone_wf_advance [of E "zone_at s z" k] z(1)
    by (auto simp: good_def dev_inv_def same zone_at_advanced IsUsed_def IsEmpty_def zone_wf_def)
  moreover have "apart E ?s = apart E s" by (rule apart_cong) (simp_all add: same zone_at_advanced)
  moreover have "used_ok ?s" using assms(1) by (simp add: good_def used_ok_def zone_at_advanced)
  ultimately show "good E ?s" using assms(1) same(7) by (simp add: good_def)
  have "active_count ?s = active_count s" using z by (intro active_count_cong) (simp_all add: same zone_at_advanced counted_def)
  then show "token_balance ?s = token_balance s" by (simp add: token_balance_def same)
  show "bytes_at (cont (be ?s)) (e_start e) (e_length e) = bytes_at (cont (be s)) (e_start e) (e_length e)" if "safe s e" for e
    using safe_outside [OF assms(1) z(1) that assms(5)] assms(6) by (intro bytes_at_cong) auto
qed (auto simp: advanced_def)

lemma note_write_wrote:
  assumes "good E s" "minv s" "f_active_zone (file_at s f) = Some z" "z_busy (zone_at s z)"
    and "safe s \<lparr>e_start = f_extent_start (file_at s f) + h, e_length = length d, e_zone = z, e_level = f_level (file_at s f)\<rparr>"
    and "bytes_at (cont (be s)) (f_extent_start (file_at s f) + h) (length d) = d"
  shows "wrote E cont minv f d s (note_write f z h (length d) s)" "writing f z (note_write f z h (length d) s)"
proof -
  let ?x = "file_at s f" let ?s = "note_write f z h (length d) s"
  define e where "e = \<lparr>e_start = f_extent_start ?x + h, e_length = length d, e_zone = z, e_level = f_level ?x\<rparr>"
  have e: "safe s e" using assms(5) by (simp add: e_def)
  then have z: "z \<in> set (io_zones s)" by (simp add: safe_def e_def)
  then have wf: "zone_wf E (zone_at s z)" using assms(1) by (simp add: good_def dev_inv_def)
  then have "add64 (f_extent_start ?x) h = f_extent_start ?x + h"
    using e by (intro add64_small) (auto simp: safe_def e_def zone_wf_def)
  then have s: "zone_at ?s = charge z (length d) (zone_at s)" "f_extents (file_at ?s f) = f_extents ?x @ [e]"
    "f_file_size (file_at ?s f) = add64 (f_file_size ?x) (length d)" "f_active_zone (file_at ?s f) = f_active_zone ?x"
    "f_extent_start (file_at ?s f) = z_wp (zone_at s z)" "\<And>g. g \<noteq> f \<Longrightarrow> file_at ?s g = file_at s g"
    "io_zones ?s = io_zones s" "meta_zones ?s = meta_zones s" "zbd.more ?s = zbd.more s" "be ?s = be s"
    "zone_start_to_pointer ?s = zone_start_to_pointer s" "active_io_zones ?s = active_io_zones s" "bytes_written ?s = bytes_written s"
    "\<And>g. f_is_sparse (file_at ?s g) = f_is_sparse (file_at s g)"
    by (simp_all add: note_write_def add_extent_def Let_def e_def)
  have ch: "z_start (zone_at ?s y) = z_start (zone_at s y)" "z_wp (zone_at ?s y) = z_wp (zone_at s y)" "z_busy (zone_at ?s y) = z_busy (zone_at s y)"
    "z_capacity (zone_at ?s y) = z_capacity (zone_at s y)" "z_max_capacity (zone_at ?s y) = z_max_capacity (zone_at s y)" for y
    by (simp_all add: s charge_def)
  show "writing f z ?s" using assms(3,4) z by (simp add: writing_def s ch) (simp add: charge_def)
  have "IsUsed (zone_at ?s y) \<longrightarrow> \<not> IsEmpty (zone_at ?s y)" if "y \<in> set (io_zones s)" for y
  proof (cases "y = z \<and> d \<noteq> []")
    case True
    then have "0 < length d" by simp
    then show ?thesis using e True by (auto simp: IsEmpty_def ch safe_def e_def simp del: length_greater_0_conv)
  next
    case False
    then have "zone_at ?s y = zone_at s y" using assms(1) by (auto simp: s charge_def add64_def good_def used_ok_def)
    then show ?thesis using assms(1) that by (simp add: good_def dev_inv_def)
  qed
  moreover have "y \<in> set (io_zones s)" if "IsUsed (zone_at ?s y)" "y \<in> ran (zone_start_to_pointer s)" for y
    using that assms(1) z by (cases "y = z") (auto simp: s charge_def good_def dev_inv_def)
  ultimately have "dev_inv E ?s" using assms(1) by (auto simp: good_def dev_inv_def s(7,11) zone_wf_def ch)
  moreover have "apart E ?s = apart E s" by (rule apart_cong) (simp_all add: s(7,8) ch)
  moreover have "used_ok ?s" using assms(1) by (simp add: good_def used_ok_def s charge_def add64_def)
  ultimately have g: "good E ?s" using assms(1) by (simp add: good_def s(13))
  have "z \<notin> set (meta_zones s)" using assms(1) z by (auto simp: good_def apart_def)
  then have "meta_frame s ?s" by (auto simp: meta_frame_def s charge_def)
  then have m: "minv ?s" using inv_frame assms(2) by blast
  have "active_count ?s = active_count s" by (rule active_count_cong) (simp_all add: s(7) counted_def ch IsEmpty_def IsFull_def)
  then have b: "token_balance ?s = token_balance s" by (simp add: token_balance_def s(12))
  have sf: "safe ?s y = safe s y" for y by (simp add: safe_def s(7) ch)
  have "accounted fs ?s" if "f \<in> fs" "accounted fs s" for fs
  proof (rule accounted_cong)
    show "accounted fs (s\<lparr>zone_at := fold (\<lambda>e. charge (e_zone e) (e_length e)) [e] (zone_at s), file_at := (file_at s)(f := file_at ?s f)\<rparr>)"
      by (rule charged_accounted [OF that(2,1)]) (simp add: s)
  qed (auto simp: s e_def)
  then show "wrote E cont minv f d s ?s"
    using g m b e assms(6) by (auto simp: wrote_def s sf e_def add64_def)
qed

lemma wrote_refl: "good E s \<Longrightarrow> minv s \<Longrightarrow> wrote E cont minv f [] s s"
  by (rule wrote_nothing) simp_all

text \<open>One round: the data goes between a header and padding.\<close>

lemma append_wrote:
  assumes "good E s" "minv s" "writing f z s" "Zone_Append E z (hdr @ d @ pad) s = Some (st, s1)"
  shows "st \<noteq> OK \<Longrightarrow> wrote E cont minv f [] s s1"
    "st = OK \<Longrightarrow> wrote E cont minv f d s (note_write f z (length hdr) (length d) s1) \<and>
      writing f z (note_write f z (length hdr) (length d) s1)"
proof -
  let ?D = "hdr @ d @ pad" let ?wp = "z_wp (zone_at s z)"
  have z: "z \<in> set (io_zones s)" "z_busy (zone_at s z)" "f_active_zone (file_at s f) = Some z"
    "f_extent_start (file_at s f) = ?wp" using assms(3) by (simp_all add: writing_def)
  have wf: "zone_wf E (zone_at s z)" "bytes_written s < 2 ^ 64" using assms(1) z(1) by (simp_all add: good_def dev_inv_def)
  show "wrote E cont minv f [] s s1" if "st \<noteq> OK"
  proof (cases "z_capacity (zone_at s z) < length ?D")
    case True
    then show ?thesis using assms(4) wrote_refl [OF assms(1,2)] by (auto simp: Zone_Append_def)
  next
    case False
    from append_loop_returns [OF wf(1) _ wf(2), of ?D] False that assms(4) obtain k b where
      r: "s1 = advanced z k b s" "k < length ?D" "\<And>a. a < ?wp + k \<or> ?wp + length ?D \<le> a \<Longrightarrow>
        cont b a = overwrite ?wp (take k ?D) (cont (be s)) a" by (auto simp: Zone_Append_def)
    have "cont b a = cont (be s) a" if "a < ?wp \<or> ?wp + length ?D \<le> a" for a
      using r(2) r(3) [of a] that by (auto simp: overwrite_def)
    then show ?thesis unfolding r(1) using False r(2) by (intro advanced_wrote [OF assms(1-3), where n = "length ?D"]) auto
  qed
  show "wrote E cont minv f d s (note_write f z (length hdr) (length d) s1) \<and>
      writing f z (note_write f z (length hdr) (length d) s1)" if "st = OK"
  proof -
    have cap: "\<not> z_capacity (zone_at s z) < length ?D" using assms(4) that by (auto simp: Zone_Append_def split: if_splits)
    from append_loop_returns [OF wf(1) _ wf(2), of ?D] cap that assms(4) obtain b where
      r: "s1 = advanced z (length ?D) b s" "cont b = overwrite ?wp ?D (cont (be s))" by (auto simp: Zone_Append_def)
    have w: "wrote E cont minv f [] s s1" unfolding r(1) using cap
      by (intro advanced_wrote [OF assms(1-3), where n = "length ?D"]) (auto simp: r(2) overwrite_def)
    have f: "f_active_zone (file_at s1 f) = Some z" "f_extent_start (file_at s1 f) = ?wp" "z_busy (zone_at s1 z)"
      "z_wp (zone_at s1 z) = ?wp + length ?D" "z_start (zone_at s1 z) = z_start (zone_at s z)" "io_zones s1 = io_zones s"
      using z by (simp_all add: r(1) advanced_def)
    have "bytes_at (cont (be s1)) (?wp + length hdr) (length d) = d"
      by (rule nth_equalityI) (auto simp: r overwrite_def nth_append add.assoc)
    moreover have "safe s1 \<lparr>e_start = ?wp + length hdr, e_length = length d, e_zone = z, e_level = f_level (file_at s1 f)\<rparr>"
      using z(1) wf(1) by (simp add: safe_def f zone_wf_def)
    ultimately have n: "wrote E cont minv f d s1 (note_write f z (length hdr) (length d) s1)" "writing f z (note_write f z (length hdr) (length d) s1)"
      using note_write_wrote [of s1 f z "length hdr" d] wrote_good [OF w] f by simp_all
    show ?thesis using wrote_trans [OF w n(1)] n(2) by simp
  qed
qed

text \<open>After a round the loop goes on in the same zone, or in the next one when the zone is full.\<close>

lemma round_wrote:
  assumes "std_algorithms E" "wrote E cont minv f d s s2" "writing f z s2"
    and "(if z_capacity (zone_at s2 z) \<noteq> 0 then loop s2 else Option.bind (next_zone E persist f n s2) (\<lambda>(st, s).
            if st \<noteq> OK then Some (st, s) else loop s)) = Some r"
    and "\<And>s3. wrote E cont minv f d s s3 \<Longrightarrow> loop s3 = Some r \<Longrightarrow> \<exists>z. writing f z s3 \<Longrightarrow> P"
    and "wrote E cont minv f d s (snd r) \<Longrightarrow> fst r \<noteq> OK \<Longrightarrow> P"
  shows P
proof (cases "z_capacity (zone_at s2 z) = 0")
  case False
  then show ?thesis using assms(2-5) by auto
next
  case full: True
  obtain st3 s3 where n: "next_zone E persist f n s2 = Some (st3, s3)"
    using assms(4) full by (auto split: Option.bind_splits)
  note w = next_zone_wrote [OF assms(1) _ _ assms(3) full n]
  have w3: "wrote E cont minv f d s s3" using w wrote_good [OF assms(2)] wrote_trans [OF assms(2), of "[]"] by simp
  show ?thesis
  proof (cases "st3 = OK")
    case True
    then show ?thesis using w wrote_good [OF assms(2)] assms(4) full n by (intro assms(5) [OF w3]) auto
  next
    case False
    then have "r = (st3, s3)" using assms(4) full n by simp
    then show ?thesis using w3 False by (intro assms(6)) auto
  qed
qed

lemma buffered_wrote:
  assumes "std_algorithms E" "buffered_loop E persist f data s = Some r" "good E s" "minv s" "ready f s" "data \<noteq> [] \<longrightarrow> (\<exists>z. writing f z s)"
  shows "\<exists>k. wrote E cont minv f (take k data) s (snd r) \<and> (fst r = OK \<longrightarrow> length data \<le> k \<and> ready f (snd r))"
proof -
  define Q where "Q f data s r \<longleftrightarrow> good E s \<longrightarrow> minv s \<longrightarrow> ready f s \<longrightarrow> (data \<noteq> [] \<longrightarrow> (\<exists>z. writing f z s)) \<longrightarrow>
    (\<exists>k. wrote E cont minv f (take k data) s (snd r) \<and> (fst r = OK \<longrightarrow> length data \<le> k \<and> ready f (snd r)))"
    for f data and s :: "('b, 'm) zbd_scheme" and r :: "status \<times> ('b, 'm) zbd_scheme"
  have "E = E \<longrightarrow> persist = persist \<longrightarrow> Q f data s r"
  proof (rule buffered_loop.raw_induct [where P = "\<lambda>E' p f data s r. E' = E \<longrightarrow> p = persist \<longrightarrow> Q f data s r", OF _ assms(2)], goal_cases)
    case (1 loop E' p f data s r)
    show ?case unfolding Q_def
    proof (intro impI)
      assume eqs: "E' = E" "p = persist" and g: "good E s" "minv s" and rd: "ready f s" and w: "data \<noteq> [] \<longrightarrow> (\<exists>z. writing f z s)"
      note IH = 1(1) [unfolded eqs Q_def] and run = 1(2) [unfolded eqs]
      show "\<exists>k. wrote E cont minv f (take k data) s (snd r) \<and> (fst r = OK \<longrightarrow> length data \<le> k \<and> ready f (snd r))"
      proof (cases "data = []")
        case True
        then show ?thesis using run wrote_refl [OF g] rd by auto
      next
        case ne: False
        then obtain z where z: "writing f z s" using w by blast
        define wr where "wr = min (length data) (z_capacity (zone_at s z))"
        let ?d = "take wr data"
        have len: "length ?d = wr" by (simp add: wr_def)
        obtain st1 s1 where a: "Zone_Append E z ([] @ ?d @ replicate (pad_size E wr) (CHR 0x00)) s = Some (st1, s1)"
          using run ne z by (auto simp: writing_def wr_def Let_def split: Option.bind_splits)
        define s2 where "s2 = note_write f z 0 wr s1"
        have body: "st1 \<noteq> OK \<longrightarrow> r = (st1, s1)" "st1 = OK \<longrightarrow> (if z_capacity (zone_at s2 z) \<noteq> 0 then loop E persist f (drop wr data) s2
            else Option.bind (next_zone E persist f (length (drop wr data)) s2) (\<lambda>(st, s).
              if st \<noteq> OK then Some (st, s) else loop E persist f (drop wr data) s)) = Some r"
          unfolding s2_def using run ne z a by - (rule impI, simp add: writing_def wr_def [symmetric] Let_def split del: if_split)+
        show ?thesis
        proof (cases "st1 = OK")
          case False
          then show ?thesis using append_wrote(1) [OF g z a] body by (intro exI [of _ 0]) simp
        next
          case True
          have w1: "wrote E cont minv f ?d s s2" "writing f z s2"
            using append_wrote(2) [OF g z a True, unfolded len] by (simp_all add: s2_def)
          show ?thesis
          proof (rule round_wrote [OF assms(1) w1 mp [OF body(2) True]])
            fix s3 assume s3: "wrote E cont minv f ?d s s3" "loop E persist f (drop wr data) s3 = Some r" "\<exists>z. writing f z s3"
            obtain k where k: "wrote E cont minv f (take k (drop wr data)) s3 (snd r)" "fst r = OK \<longrightarrow> length (drop wr data) \<le> k \<and> ready f (snd r)"
              using IH [OF s3(2)] wrote_good [OF s3(1)] s3(3) writing_ready by blast
            show ?thesis using wrote_trans [OF s3(1) k(1)] k(2) by (intro exI [of _ "wr + k"]) (auto simp: take_add)
          qed auto
        qed
      qed
    qed
  qed
  then show ?thesis using assms(3-6) by (simp add: Q_def)
qed

text \<open>An append that fits into the active zone with room to spare needs no other zone and returns.\<close>

lemma buffered_returns:
  assumes "good E s" "writing f z s" "length data + pad_size E (length data) < z_capacity (zone_at s z)"
  shows "\<exists>r. buffered_loop E persist f data s = Some r"
proof (cases "data = []")
  case True
  then show ?thesis by (simp add: buffered_loop.simps)
next
  case False
  let ?D = "data @ replicate (pad_size E (length data)) (CHR 0x00)"
  have "zone_wf E (zone_at s z)" "bytes_written s < 2 ^ 64" using assms(1,2) by (simp_all add: good_def dev_inv_def writing_def)
  then obtain st k b where a: "append_loop E z ?D s = Some (st, advanced z k b s)" "k \<le> length ?D"
    using append_loop_returns [of s z ?D] assms(3) by auto
  then have "z_capacity (zone_at (note_write f z 0 (length data) (advanced z k b s)) z) \<noteq> 0"
    using assms(3) by (simp add: note_write_def Let_def add_extent_def advanced_def charge_def)
  then show ?thesis using a assms(2,3) False
    by (subst buffered_loop.simps, auto simp: writing_def Zone_Append_def Let_def min_def buffered_loop.simps [where data = "[]"])
qed

lemma with_active_wrote:
  assumes "std_algorithms E" "good E s" "minv s" "with_active_zone E persist f n s = Some (st, s')"
    and "ready f s"
  shows "wrote E cont minv f [] s s' \<and> (st = OK \<longrightarrow> (\<exists>z. writing f z s'))"
proof -
  let ?s = "file_upd f (\<lambda>x. x\<lparr>f_alloc_size := n\<rparr>) s"
  have w: "wrote E cont minv f [] s ?s" using assms(2,3) by (intro wrote_file) simp_all
  show ?thesis
  proof (cases "f_active_zone (file_at s f)")
    case None
    then have "AllocateNewZone E persist f ?s = Some (st, s')" using assms(4) by (simp add: with_active_zone_def)
    then show ?thesis using allocate_wrote [OF assms(1)] wrote_good [OF w] wrote_trans [OF w, of "[]"] by auto
  next
    case (Some z)
    then have "st = OK \<and> s' = ?s" "writing f z ?s" using assms(4,5) by (auto simp: with_active_zone_def writing_def ready_def)
    then show ?thesis using w by auto
  qed
qed

lemma BufferedAppend_wrote:
  assumes "std_algorithms E" "good E s" "minv s" "ready f s" "BufferedAppend E persist f data s = Some (st, s')"
  shows "\<exists>k. wrote E cont minv f (take k data) s s' \<and> (st = OK \<longrightarrow> length data \<le> k \<and> ready f s')"
proof -
  obtain st1 s1 where a: "with_active_zone E persist f (length data) s = Some (st1, s1)"
    using assms(5) by (auto simp: BufferedAppend_def split: Option.bind_splits)
  note w1 = with_active_wrote [OF assms(1-3) a assms(4)]
  show ?thesis
  proof (cases "st1 = OK")
    case False
    then have "s' = s1 \<and> st \<noteq> OK" using assms(5) a by (auto simp: BufferedAppend_def)
    then show ?thesis using w1 by (intro exI [of _ 0]) simp
  next
    case True
    then have b: "buffered_loop E persist f data s1 = Some (st, s')" using assms(5) a by (simp add: BufferedAppend_def)
    have g: "good E s1" "minv s1" "wrote E cont minv f [] s s1" "ready f s1" using w1 wrote_good writing_ready True by blast+
    show ?thesis using buffered_wrote [OF assms(1) b g(1,2,4)] w1 True wrote_trans [OF g(3)] by auto
  qed
qed

end

section \<open>Property\<close>

text \<open>A small device, with a file that writes to zone 3.\<close>

definition append_dev :: "(nat \<Rightarrow> char) zbdlib zbd" where
  "append_dev = mem_dev\<lparr>zone_at := (zone_at mem_dev)(3 := (zone_at mem_dev 3)\<lparr>z_busy := True\<rparr>),
     file_at := (\<lambda>_. (new_file 7)\<lparr>f_active_zone := Some 3, f_extent_start := 48, f_linkfiles := [''f'']\<rparr>)\<rparr>"

lemma append_dev_facts: "good mem_env append_dev" "writing f 3 append_dev" "accounted {f} append_dev"
  "f_extents (file_at append_dev f) = []" "z_capacity (zone_at append_dev 3) = 16" "length ''abc'' + pad_size mem_env (length ''abc'') < 16"
proof -
  have sz: "zone_sz mem_env = 16" "block_sz mem_env = 4" by (simp_all add: mem_env_def zbdlib_env_def mem_info_def)
  have z: "zone_at append_dev z = (plain_zone (16 * z) 0 WLTH_NOT_SET)\<lparr>z_busy := z = 3\<rparr>" for z
    by (simp add: append_dev_def mem_dev_eval plain_zone_def)
  have io: "io_zones append_dev = [3, 4, 5, 6]" "meta_zones append_dev = [0, 1, 2]"
    by (simp_all add: append_dev_def mem_dev_eval)
  have wf: "zone_wf mem_env (zone_at append_dev z) \<and> \<not> IsUsed (zone_at append_dev z)" if "z \<le> 6" for z
    using that by (simp add: zone_wf_def IsUsed_def z sz plain_zone_def)
  have nu: "\<not> IsUsed (zone_at append_dev z)" for z by (simp add: IsUsed_def z plain_zone_def)
  have "dev_inv mem_env append_dev" using wf by (simp add: dev_inv_def io sz nu)
  moreover have "z_start (zone_at append_dev x) + 16 \<le> z_start (zone_at append_dev y) \<or>
      z_start (zone_at append_dev y) + 16 \<le> z_start (zone_at append_dev x)" if "x \<noteq> y" for x y
    using that by (simp add: z plain_zone_def) linarith
  then have "apart mem_env append_dev" unfolding apart_def sz by (intro conjI ballI impI) (simp_all only: io, simp)
  ultimately show "good mem_env append_dev"
    by (simp add: good_def used_ok_def z plain_zone_def) (simp add: append_dev_def mem_dev_eval)
  show "writing f 3 append_dev" "accounted {f} append_dev" "f_extents (file_at append_dev f) = []" "z_capacity (zone_at append_dev 3) = 16"
    by (simp_all add: writing_def z io plain_zone_def accounted_def) (simp_all add: append_dev_def new_file_def)
  have l: "length ''abc'' = 3" by simp
  show "length ''abc'' + pad_size mem_env (length ''abc'') < 16" unfolding l by (simp add: pad_size_def sz)
qed

lemma trivial_writer: "metadata_writer mem_env mem_cont (\<lambda>f s. Some (OK, s)) (\<lambda>_. True)"
  by unfold_locales (auto simp: io_frame_def good_def)

text \<open>
  C23. A buffered append adds a prefix of the data to the file, all of it if it reports success,
  whatever zones it filled, closed and allocated on the way. The bytes the device stores for every
  extent written before are unchanged, other files are untouched, the tokens stay balanced and the
  zones are charged exactly. If the data fits into the active zone with room to spare, it returns.
\<close>

theorem buffered_append_correct:
  assumes "metadata_writer E cont persist minv" "std_algorithms E" "good E s" "minv s" "f \<in> fs" "accounted fs s"
    and "ready f s" "\<forall>e \<in> set (f_extents (file_at s f)). safe s e"
  shows "(\<forall>z. f_active_zone (file_at s f) = Some z \<longrightarrow> length data + pad_size E (length data) < z_capacity (zone_at s z) \<longrightarrow>
      (\<exists>res. BufferedAppend E persist f data s = Some res)) \<and>
    (\<forall>st s'. BufferedAppend E persist f data s = Some (st, s') \<longrightarrow> (\<exists>k.
      file_bytes (cont (be s')) (f_extents (file_at s' f)) = file_bytes (cont (be s)) (f_extents (file_at s f)) @ take k data \<and>
      (st = OK \<longrightarrow> length data \<le> k) \<and> (\<forall>e \<in> set (f_extents (file_at s' f)). safe s' e) \<and>
      (\<forall>e. safe s e \<longrightarrow> bytes_at (cont (be s')) (e_start e) (e_length e) = bytes_at (cont (be s)) (e_start e) (e_length e)) \<and>
      (\<forall>g. g \<noteq> f \<longrightarrow> f_extents (file_at s' g) = f_extents (file_at s g)) \<and>
      good E s' \<and> active_io_zones s' - active_count s' = active_io_zones s - active_count s \<and> accounted fs s'))"
proof (intro conjI allI impI)
  fix z assume "f_active_zone (file_at s f) = Some z" "length data + pad_size E (length data) < z_capacity (zone_at s z)"
  moreover let ?s = "file_upd f (\<lambda>x. x\<lparr>f_alloc_size := length data\<rparr>) s"
  have "wrote E cont minv f [] s ?s" using assms(3,4) by (intro metadata_writer.wrote_file [OF assms(1)]) simp_all
  then have "good E ?s" by (simp add: wrote_good)
  ultimately show "\<exists>res. BufferedAppend E persist f data s = Some res"
    using metadata_writer.buffered_returns [OF assms(1), of ?s f z data] assms(7)
    by (simp add: BufferedAppend_def with_active_zone_def writing_def ready_def)
next
  fix st s' assume run: "BufferedAppend E persist f data s = Some (st, s')"
  have "\<exists>k. wrote E cont minv f (take k data) s s' \<and> (st = OK \<longrightarrow> length data \<le> k)"
    using metadata_writer.BufferedAppend_wrote [OF assms(1-4,7) run] by blast
  then obtain k where w: "wrote E cont minv f (take k data) s s'" and k: "st = OK \<longrightarrow> length data \<le> k" by blast
  then show "\<exists>k. file_bytes (cont (be s')) (f_extents (file_at s' f)) = file_bytes (cont (be s)) (f_extents (file_at s f)) @ take k data \<and>
      (st = OK \<longrightarrow> length data \<le> k) \<and> (\<forall>e \<in> set (f_extents (file_at s' f)). safe s' e) \<and>
      (\<forall>e. safe s e \<longrightarrow> bytes_at (cont (be s')) (e_start e) (e_length e) = bytes_at (cont (be s)) (e_start e) (e_length e)) \<and>
      (\<forall>g. g \<noteq> f \<longrightarrow> f_extents (file_at s' g) = f_extents (file_at s g)) \<and>
      good E s' \<and> active_io_zones s' - active_count s' = active_io_zones s - active_count s \<and> accounted fs s'"
    using wrote_bytes [OF w assms(8)] w assms(5,6) by (intro exI [of _ k]) (simp add: wrote_def token_balance_def)
qed

theorem buffered_append_correct_witness:
  "\<exists>st s' k. BufferedAppend mem_env (\<lambda>f s. Some (OK, s)) 1 ''abc'' append_dev = Some (st, s') \<and>
     file_bytes (mem_cont (be s')) (f_extents (file_at s' 1)) = take k ''abc'' \<and> (st = OK \<longrightarrow> 3 \<le> k) \<and> accounted {1} s'"
proof -
  have act: "f_active_zone (file_at append_dev 1) = Some 3" using append_dev_facts(2) by (simp add: writing_def)
  have w: "ready 1 append_dev" using append_dev_facts(2) by (rule writing_ready)
  have sf: "\<forall>e \<in> set (f_extents (file_at append_dev 1)). safe append_dev e" "1 \<in> {1 :: fid}" by (simp_all add: append_dev_facts(4))
  note res = buffered_append_correct [OF trivial_writer mem_std.std_algorithms_axioms append_dev_facts(1) TrueI sf(2) append_dev_facts(3) w sf(1),
    where data = "''abc''"]
  obtain st s' where run: "BufferedAppend mem_env (\<lambda>f s. Some (OK, s)) 1 ''abc'' append_dev = Some (st, s')"
    using mp [OF mp [OF spec [OF conjunct1 [OF res], of 3] act]] append_dev_facts(6) unfolding append_dev_facts(5) by (metis surj_pair)
  have l: "length ''abc'' = 3" by simp
  from mp [OF spec [OF spec [OF conjunct2 [OF res]]] run] obtain k where
    "file_bytes (mem_cont (be s')) (f_extents (file_at s' 1)) = file_bytes (mem_cont (be append_dev)) (f_extents (file_at append_dev 1)) @ take k ''abc''"
    "st = OK \<longrightarrow> 3 \<le> k" "accounted {1} s'" unfolding l by blast
  then show ?thesis using run unfolding append_dev_facts(4) file_bytes_simps(1) append_Nil by blast
qed

end
