(* ===== verification/FileHandles.thy ===== *)
theory FileHandles
  imports FileAppend FileMeta
begin

text \<open>
  The file objects RocksDB works with (\<open>io_zenfs.cc\<close>, \<open>io_zenfs.h\<close>): writable files with their buffer,
  sequential and random access files, and what reaches the device when a buffered file is synced.
\<close>

type_synonym ('b, 'm) writer = "fid \<Rightarrow> ('b, 'm) zbd_scheme \<Rightarrow> (status \<times> ('b, 'm) zbd_scheme) option"

section \<open>Writable files\<close>

text \<open>
  \<open>w_buffer\<close> is the part of the buffer in use, its length is \<open>buffer_pos\<close>. The buffers of all writable
  files are counted by the static members in \<open>buffer_pool\<close>. Waiting for a buffer that only another
  thread could free does not return. Memory is always available.
\<close>

record wfile =
  w_file :: fid
  w_buffered :: bool
  w_buffer :: string
  w_buffer_sz :: nat
  w_wp :: nat
  w_open :: bool

record buffer_pool =
  max_buffer_count :: nat
  curr_buffer_count :: nat

definition INT32_MAX :: nat where "INT32_MAX = 2 ^ 31 - 1"

definition new_ZonedWritableFile :: "'b env \<Rightarrow> bool \<Rightarrow> fid \<Rightarrow> buffer_pool \<Rightarrow> ('b, 'm) zbd_scheme \<Rightarrow> (wfile \<times> buffer_pool) option" where
  "new_ZonedWritableFile E buffered f p s =
    (let mb = cast32 (buffer_size_megabytes (zenfs_parameters s) * 1024 * 1024);
         p = (if max_buffer_count p = INT32_MAX then p\<lparr>max_buffer_count := buffer_count_max (zenfs_parameters s)\<rparr> else p);
         sparse_sz = cast32 (mb + block_sz E);
         w = \<lparr>w_file = f, w_buffered = buffered, w_buffer = [],
              w_buffer_sz = (if f_is_sparse (file_at s f) then sub64 (sub64 sparse_sz SPARSE_HEADER_SIZE) (block_sz E) else mb),
              w_wp = f_file_size (file_at s f), w_open = True\<rparr> in
     if \<not> buffered then Some (w\<lparr>w_buffer_sz := 0\<rparr>, p)
     else if curr_buffer_count p < max_buffer_count p then Some (w, p\<lparr>curr_buffer_count := curr_buffer_count p + 1\<rparr>)
     else None)"

definition WF_Truncate :: "nat \<Rightarrow> wfile \<Rightarrow> ('b, 'm) zbd_scheme \<Rightarrow> status \<times> ('b, 'm) zbd_scheme" where
  "WF_Truncate n w s = (OK, file_upd (w_file w) (\<lambda>x. x\<lparr>f_file_size := n\<rparr>) s)"

definition FlushBuffer :: "'b env \<Rightarrow> ('b, 'm) writer \<Rightarrow> wfile \<Rightarrow> ('b, 'm) zbd_scheme \<Rightarrow> ((status \<times> wfile) \<times> ('b, 'm) zbd_scheme) option" where
  "FlushBuffer E persist w s = (if w_buffer w = [] then Some ((OK, w), s)
     else Option.bind (if f_is_sparse (file_at s (w_file w)) then SparseAppend E persist (w_file w) (w_buffer w) s
         else BufferedAppend E persist (w_file w) (w_buffer w) s) (\<lambda>(st, s).
       if st \<noteq> OK then Some ((st, w), s)
       else Some ((OK, w\<lparr>w_wp := add64 (w_wp w) (length (w_buffer w)), w_buffer := []\<rparr>), s)))"

definition DataSync :: "'b env \<Rightarrow> ('b, 'm) writer \<Rightarrow> wfile \<Rightarrow> ('b, 'm) zbd_scheme \<Rightarrow> ((status \<times> wfile) \<times> ('b, 'm) zbd_scheme) option" where
  "DataSync E persist w s = (if w_buffered w
     then Option.bind (FlushBuffer E persist w s) (\<lambda>((st, w), s).
       if st \<noteq> OK then Some ((st, w), s)
       else if \<not> f_is_sparse (file_at s (w_file w)) then Option.bind (persist (w_file w) s) (\<lambda>(st, s). Some ((st, w), s))
       else Some ((OK, w), s))
     else Some ((OK, w), PushExtent (w_file w) s))"

definition Fsync :: "'b env \<Rightarrow> ('b, 'm) writer \<Rightarrow> wfile \<Rightarrow> ('b, 'm) zbd_scheme \<Rightarrow> ((status \<times> wfile) \<times> ('b, 'm) zbd_scheme) option" where
  "Fsync E persist w s = Option.bind (DataSync E persist w s) (\<lambda>((st, w), s).
     if st \<noteq> OK then Some ((st, w), s)
     else if w_buffered w \<and> \<not> f_is_sparse (file_at s (w_file w)) then Some ((OK, w), s)
     else Option.bind (persist (w_file w) s) (\<lambda>(st, s). Some ((st, w), s)))"

definition Sync :: "'b env \<Rightarrow> ('b, 'm) writer \<Rightarrow> wfile \<Rightarrow> ('b, 'm) zbd_scheme \<Rightarrow> ((status \<times> wfile) \<times> ('b, 'm) zbd_scheme) option" where
  "Sync E persist w s = DataSync E persist w s"

definition RangeSync :: "'b env \<Rightarrow> ('b, 'm) writer \<Rightarrow> nat \<Rightarrow> nat \<Rightarrow> wfile \<Rightarrow> ('b, 'm) zbd_scheme \<Rightarrow>
    ((status \<times> wfile) \<times> ('b, 'm) zbd_scheme) option" where
  "RangeSync E persist offset n w s = (if w_wp w < add64 offset n then DataSync E persist w s else Some ((OK, w), s))"

definition CloseInternal :: "'b env \<Rightarrow> ('b, 'm) writer \<Rightarrow> wfile \<Rightarrow> ('b, 'm) zbd_scheme \<Rightarrow> ((status \<times> wfile) \<times> ('b, 'm) zbd_scheme) option" where
  "CloseInternal E persist w s = (if \<not> w_open w then Some ((OK, w), s)
     else Option.bind (DataSync E persist w s) (\<lambda>((st, w), s).
       if st \<noteq> OK then Some ((st, w), s)
       else Option.bind (CloseWR E persist (w_file w) s) (\<lambda>(st, s).
         if st \<noteq> OK then Some ((st, w), s) else Some ((OK, w\<lparr>w_open := False\<rparr>), s))))"

definition delete_ZonedWritableFile :: "'b env \<Rightarrow> ('b, 'm) writer \<Rightarrow> wfile \<Rightarrow> buffer_pool \<Rightarrow> ('b, 'm) zbd_scheme \<Rightarrow>
    (buffer_pool \<times> ('b, 'm) zbd_scheme) option" where
  "delete_ZonedWritableFile E persist w p s = Option.bind (CloseInternal E persist w s) (\<lambda>((st, w), s).
     let p = (if w_buffered w \<and> 0 < curr_buffer_count p then p\<lparr>curr_buffer_count := curr_buffer_count p - 1\<rparr> else p)
     in Some (p, if st \<noteq> OK then SetZoneDeferredStatus st s else s))"

text \<open>Sizes are converted to 32 bits. A buffer of size zero would never take any data.\<close>

partial_function (option) buffered_write_loop :: "'b env \<Rightarrow> ('b, 'm) writer \<Rightarrow> string \<Rightarrow> wfile \<Rightarrow> ('b, 'm) zbd_scheme \<Rightarrow>
    ((status \<times> wfile) \<times> ('b, 'm) zbd_scheme) option" where
  "buffered_write_loop E persist data w s = (if data = [] then Some ((OK, w), s)
     else let left = cast32 (sub64 (w_buffer_sz w) (length (w_buffer w))) in
       Option.bind (if left = 0 then FlushBuffer E persist w s else Some ((OK, w), s)) (\<lambda>((st, w), s).
         if st \<noteq> OK then Some ((st, w), s)
         else let left = (if left = 0 then cast32 (w_buffer_sz w) else left); to_buffer = min (length data) left
           in buffered_write_loop E persist (drop to_buffer data) (w\<lparr>w_buffer := w_buffer w @ take to_buffer data\<rparr>) s))"

definition BufferedWrite :: "'b env \<Rightarrow> ('b, 'm) writer \<Rightarrow> string \<Rightarrow> wfile \<Rightarrow> ('b, 'm) zbd_scheme \<Rightarrow>
    ((status \<times> wfile) \<times> ('b, 'm) zbd_scheme) option" where
  "BufferedWrite E persist data w s = buffered_write_loop E persist (take (cast32 (length data)) data) w s"

definition WF_Append :: "'b env \<Rightarrow> ('b, 'm) writer \<Rightarrow> string \<Rightarrow> wfile \<Rightarrow> ('b, 'm) zbd_scheme \<Rightarrow>
    ((status \<times> wfile) \<times> ('b, 'm) zbd_scheme) option" where
  "WF_Append E persist data w s = (if w_buffered w then BufferedWrite E persist data w s
     else Option.bind (ZoneFile_Append E persist (w_file w) data s) (\<lambda>(st, s).
       Some ((st, if st = OK then w\<lparr>w_wp := add64 (w_wp w) (length data)\<rparr> else w), s)))"

definition PositionedAppend :: "'b env \<Rightarrow> ('b, 'm) writer \<Rightarrow> string \<Rightarrow> nat \<Rightarrow> wfile \<Rightarrow> ('b, 'm) zbd_scheme \<Rightarrow>
    ((status \<times> wfile) \<times> ('b, 'm) zbd_scheme) option" where
  "PositionedAppend E persist data offset w s = (if offset \<noteq> w_wp w then Some ((IOError, w), s)
     else WF_Append E persist data w s)"

section \<open>Sequential and random access files\<close>

record seqfile =
  sq_file :: fid
  sq_rp :: nat
  sq_direct :: bool

definition new_ZonedSequentialFile :: "fid \<Rightarrow> bool \<Rightarrow> ('b, 'm) zbd_scheme \<Rightarrow> seqfile" where
  "new_ZonedSequentialFile f use_direct_reads s =
    \<lparr>sq_file = f, sq_rp = 0, sq_direct = (use_direct_reads \<and> \<not> f_is_sparse (file_at s f))\<rparr>"

definition Seq_Read :: "'b env \<Rightarrow> nat \<Rightarrow> seqfile \<Rightarrow> ('b, 'm) zbd_scheme \<Rightarrow> ((status \<times> string) \<times> seqfile \<times> ('b, 'm) zbd_scheme) option" where
  "Seq_Read E n q s = Option.bind (PositionedRead E (sq_file q) (sq_rp q) n (sq_direct q) s) (\<lambda>((st, out), s).
     Some ((st, out), if st = OK then q\<lparr>sq_rp := add64 (sq_rp q) (length out)\<rparr> else q, s))"

definition Seq_Skip :: "nat \<Rightarrow> seqfile \<Rightarrow> ('b, 'm) zbd_scheme \<Rightarrow> status \<times> seqfile" where
  "Seq_Skip n q s = (if f_file_size (file_at s (sq_file q)) \<le> add64 (sq_rp q) n then (InvalidArgument, q)
     else (OK, q\<lparr>sq_rp := add64 (sq_rp q) n\<rparr>))"

definition Seq_PositionedRead :: "'b env \<Rightarrow> nat \<Rightarrow> nat \<Rightarrow> seqfile \<Rightarrow> ('b, 'm) zbd_scheme \<Rightarrow>
    ((status \<times> string) \<times> ('b, 'm) zbd_scheme) option" where
  "Seq_PositionedRead E offset n q s = PositionedRead E (sq_file q) offset n (sq_direct q) s"

record rafile =
  ra_file :: fid
  ra_direct :: bool

definition new_ZonedRandomAccessFile :: "fid \<Rightarrow> bool \<Rightarrow> ('b, 'm) zbd_scheme \<Rightarrow> rafile" where
  "new_ZonedRandomAccessFile f use_direct_reads s =
    \<lparr>ra_file = f, ra_direct = (use_direct_reads \<and> \<not> f_is_sparse (file_at s f))\<rparr>"

definition RA_Read :: "'b env \<Rightarrow> nat \<Rightarrow> nat \<Rightarrow> rafile \<Rightarrow> ('b, 'm) zbd_scheme \<Rightarrow> ((status \<times> string) \<times> ('b, 'm) zbd_scheme) option" where
  "RA_Read E offset n r s = PositionedRead E (ra_file r) offset n (ra_direct r) s"

section \<open>What a buffered file holds\<close>

context metadata_writer
begin

lemma flush_wrote:
  assumes "std_algorithms E" "good E s" "minv s" "ready (w_file w) s" "\<not> f_is_sparse (file_at s (w_file w))"
    and "FlushBuffer E persist w s = Some ((st, w'), s')"
  shows "\<exists>d. wrote E cont minv (w_file w) d s s' \<and> w_file w' = w_file w \<and> w_buffered w' = w_buffered w \<and>
    (st = OK \<longrightarrow> d = w_buffer w \<and> w_buffer w' = [] \<and> ready (w_file w) s')"
proof (cases "w_buffer w = []")
  case True
  then show ?thesis using assms wrote_refl [OF assms(2,3)] by (auto simp: FlushBuffer_def)
next
  case False
  obtain s1 st1 where a: "BufferedAppend E persist (w_file w) (w_buffer w) s = Some (st1, s1)"
    using assms(5,6) False by (auto simp: FlushBuffer_def split: Option.bind_splits)
  have r: "s' = s1" "st = st1" "w' = (if st1 = OK then w\<lparr>w_wp := add64 (w_wp w) (length (w_buffer w)), w_buffer := []\<rparr> else w)"
    using assms(5,6) False a by (auto simp: FlushBuffer_def split: if_splits)
  then show ?thesis using BufferedAppend_wrote [OF assms(1-4) a] by auto
qed

lemma buffered_write_wrote:
  assumes "std_algorithms E" "buffered_write_loop E persist data w s = Some r"
    and "good E s" "minv s" "ready (w_file w) s" "\<not> f_is_sparse (file_at s (w_file w))"
  shows "\<exists>d. wrote E cont minv (w_file w) d s (snd r) \<and>
    (fst (fst r) = OK \<longrightarrow> d @ w_buffer (snd (fst r)) = w_buffer w @ data \<and> ready (w_file w) (snd r))"
proof -
  define Q where "Q data w s r \<longleftrightarrow> good E s \<longrightarrow> minv s \<longrightarrow> ready (w_file w) s \<longrightarrow> \<not> f_is_sparse (file_at s (w_file w)) \<longrightarrow>
    (\<exists>d. wrote E cont minv (w_file w) d s (snd r) \<and>
      (fst (fst r) = OK \<longrightarrow> d @ w_buffer (snd (fst r)) = w_buffer w @ data \<and> ready (w_file w) (snd r)))"
    for data and w :: wfile and s :: "('b, 'm) zbd_scheme" and r :: "(status \<times> wfile) \<times> ('b, 'm) zbd_scheme"
  have "E = E \<longrightarrow> persist = persist \<longrightarrow> Q data w s r"
  proof (rule buffered_write_loop.raw_induct [where P = "\<lambda>E' p data w s r. E' = E \<longrightarrow> p = persist \<longrightarrow> Q data w s r", OF _ assms(2)], goal_cases)
    case (1 loop E' p data w s r)
    show ?case unfolding Q_def
    proof (intro impI)
      assume eqs: "E' = E" "p = persist" and g: "good E s" "minv s" "ready (w_file w) s" "\<not> f_is_sparse (file_at s (w_file w))"
      note IH = 1(1) [unfolded eqs Q_def] and run = 1(2) [unfolded eqs]
      show "\<exists>d. wrote E cont minv (w_file w) d s (snd r) \<and>
          (fst (fst r) = OK \<longrightarrow> d @ w_buffer (snd (fst r)) = w_buffer w @ data \<and> ready (w_file w) (snd r))"
      proof (cases "data = []")
        case True
        then show ?thesis using run wrote_refl [OF g(1,2)] g by auto
      next
        case False
        define left where "left = cast32 (sub64 (w_buffer_sz w) (length (w_buffer w)))"
        obtain st1 w1 s1 where a: "(if left = 0 then FlushBuffer E persist w s else Some ((OK, w), s)) = Some ((st1, w1), s1)"
          using run False by (auto simp: left_def Let_def split: Option.bind_splits if_splits)
        have "\<exists>d. wrote E cont minv (w_file w) d s s1 \<and> w_file w1 = w_file w \<and>
            (st1 = OK \<longrightarrow> d @ w_buffer w1 = w_buffer w \<and> ready (w_file w) s1)"
        proof (cases "left = 0")
          case True
          then show ?thesis using flush_wrote [OF assms(1) g] a by auto
        next
          case False
          then show ?thesis using a wrote_refl [OF g(1,2)] g(3) by auto
        qed
        then obtain d where d: "wrote E cont minv (w_file w) d s s1" "w_file w1 = w_file w"
          "st1 = OK \<longrightarrow> d @ w_buffer w1 = w_buffer w \<and> ready (w_file w) s1" by blast
        define k where "k = min (length data) (if left = 0 then cast32 (w_buffer_sz w1) else left)"
        have body: "st1 \<noteq> OK \<longrightarrow> r = ((st1, w1), s1)"
          "st1 = OK \<longrightarrow> loop E persist (drop k data) (w1\<lparr>w_buffer := w_buffer w1 @ take k data\<rparr>) s1 = Some r"
          using run False a unfolding left_def k_def by - (rule impI, simp add: Let_def split del: if_split)+
        show ?thesis
        proof (cases "st1 = OK")
          case False
          then show ?thesis using body d by auto
        next
          case True
          have "\<not> f_is_sparse (file_at s1 (w_file w))" using d(1) g(4) by (simp add: wrote_def)
          then obtain d' where d': "wrote E cont minv (w_file w) d' s1 (snd r)"
            "fst (fst r) = OK \<longrightarrow> d' @ w_buffer (snd (fst r)) = w_buffer w1 @ take k data @ drop k data \<and> ready (w_file w) (snd r)"
            using IH [OF mp [OF body(2) True]] wrote_good [OF d(1)] d(2,3) True by auto
          then show ?thesis using wrote_trans [OF d(1) d'(1)] d(3) True by (intro exI [of _ "d @ d'"]) auto
        qed
      qed
    qed
  qed
  then show ?thesis using assms(3-6) by (simp add: Q_def)
qed

lemma sync_wrote:
  assumes "std_algorithms E" "good E s" "minv s" "ready (w_file w) s" "\<not> f_is_sparse (file_at s (w_file w))" "w_buffered w"
    and "DataSync E persist w s = Some ((st, w'), s')"
  shows "\<exists>d. wrote E cont minv (w_file w) d s s' \<and> (st = OK \<longrightarrow> d = w_buffer w \<and> w_buffer w' = [])"
proof -
  obtain st1 w1 s1 where a: "FlushBuffer E persist w s = Some ((st1, w1), s1)"
    using assms(6,7) by (auto simp: DataSync_def split: Option.bind_splits)
  obtain d where d: "wrote E cont minv (w_file w) d s s1" "w_file w1 = w_file w"
    "st1 = OK \<longrightarrow> d = w_buffer w \<and> w_buffer w1 = [] \<and> ready (w_file w) s1"
    using flush_wrote [OF assms(1-5) a] by blast
  have sp: "\<not> f_is_sparse (file_at s1 (w_file w))" using d(1) assms(5) by (simp add: wrote_def)
  show ?thesis
  proof (cases "st1 = OK")
    case False
    then show ?thesis using assms(6,7) a d by (auto simp: DataSync_def)
  next
    case True
    then have p: "persist (w_file w) s1 = Some (st, s')" and w: "w' = w1"
      using assms(6,7) a d(2) sp by (auto simp: DataSync_def split: Option.bind_splits)
    have "wrote E cont minv (w_file w) [] s1 s'" using wrote_persist(1) wrote_good [OF d(1)] p by blast
    then show ?thesis using wrote_trans [OF d(1)] d(3) True w by force
  qed
qed

end

lemma buffered_write_room:
  assumes "length (w_buffer w) + length data \<le> w_buffer_sz w" "w_buffer_sz w < 2 ^ 32"
  shows "BufferedWrite E persist data w s = Some ((OK, w\<lparr>w_buffer := w_buffer w @ data\<rparr>), s)"
proof (cases "data = []")
  case True
  then show ?thesis by (simp add: BufferedWrite_def buffered_write_loop.simps)
next
  case False
  then have l: "cast32 (length data) = length data" "cast32 (sub64 (w_buffer_sz w) (length (w_buffer w))) = w_buffer_sz w - length (w_buffer w)"
    "w_buffer_sz w - length (w_buffer w) \<noteq> 0"
    using assms False by (simp_all add: cast32_small sub64_le) (simp flip: length_greater_0_conv)
  show ?thesis using False assms l unfolding BufferedWrite_def
    by (subst buffered_write_loop.simps) (simp add: Let_def min_def buffered_write_loop.simps [where data = "[]"])
qed

text \<open>
  C24. Appending to a buffered file adds the data to what the file and its buffer hold, and returns at
  once while the buffer has room. A successful sync leaves the buffer empty and everything that was
  appended in the extents of the file, readable from the device. In either case all extents written
  before keep their bytes.
\<close>

theorem buffered_file_contents:
  assumes "metadata_writer E cont persist minv" "std_algorithms E" "good E s" "minv s" "ready (w_file w) s"
    and "w_buffered w" "\<not> f_is_sparse (file_at s (w_file w))" "length data < 2 ^ 32"
    and "\<forall>e \<in> set (f_extents (file_at s (w_file w))). safe s e"
  shows "(length (w_buffer w) + length data \<le> w_buffer_sz w \<longrightarrow> w_buffer_sz w < 2 ^ 32 \<longrightarrow>
      WF_Append E persist data w s = Some ((OK, w\<lparr>w_buffer := w_buffer w @ data\<rparr>), s)) \<and>
    (\<forall>st w' s'. WF_Append E persist data w s = Some ((st, w'), s') \<longrightarrow>
      (st = OK \<longrightarrow> file_bytes (cont (be s')) (f_extents (file_at s' (w_file w))) @ w_buffer w' =
         file_bytes (cont (be s)) (f_extents (file_at s (w_file w))) @ w_buffer w @ data) \<and>
      (\<forall>e. safe s e \<longrightarrow> bytes_at (cont (be s')) (e_start e) (e_length e) = bytes_at (cont (be s)) (e_start e) (e_length e))) \<and>
    (\<forall>st w' s'. Sync E persist w s = Some ((st, w'), s') \<longrightarrow>
      (st = OK \<longrightarrow> w_buffer w' = [] \<and> file_bytes (cont (be s')) (f_extents (file_at s' (w_file w))) =
         file_bytes (cont (be s)) (f_extents (file_at s (w_file w))) @ w_buffer w) \<and>
      (\<forall>e. safe s e \<longrightarrow> bytes_at (cont (be s')) (e_start e) (e_length e) = bytes_at (cont (be s)) (e_start e) (e_length e)))"
proof (intro conjI allI impI, goal_cases)
  case 1
  then show ?case using assms(6) buffered_write_room by (simp add: WF_Append_def)
next
  case (2 st w' s')
  then show ?case using metadata_writer.buffered_write_wrote [OF assms(1,2) _ assms(3-5,7)] wrote_bytes [OF _ assms(9)] assms(6,8)
    by (fastforce simp: WF_Append_def BufferedWrite_def cast32_small)
next
  case (3 st w' s')
  then show ?case using metadata_writer.buffered_write_wrote [OF assms(1,2) _ assms(3-5,7)] assms(6,8)
    by (fastforce simp: WF_Append_def BufferedWrite_def cast32_small wrote_def)
next
  case (4 st w' s')
  then show ?case using metadata_writer.sync_wrote [OF assms(1-5,7,6)] by (auto simp: Sync_def)
next
  case (5 st w' s')
  then show ?case using metadata_writer.sync_wrote [OF assms(1-5,7,6)] wrote_bytes [OF _ assms(9)] by (fastforce simp: Sync_def)
next
  case (6 st w' s')
  then show ?case using metadata_writer.sync_wrote [OF assms(1-5,7,6)] by (fastforce simp: Sync_def wrote_def)
qed

definition sample_wfile :: wfile where
  "sample_wfile = \<lparr>w_file = 1, w_buffered = True, w_buffer = ''ab'', w_buffer_sz = 1024, w_wp = 0, w_open = True\<rparr>"

theorem buffered_file_contents_witness:
  "\<exists>w s. WF_Append mem_env (\<lambda>f s. Some (OK, s)) ''c'' sample_wfile append_dev = Some ((OK, w), s) \<and> w_buffer w = ''abc'' \<and>
     (\<forall>st w' s'. Sync mem_env (\<lambda>f s. Some (OK, s)) sample_wfile append_dev = Some ((st, w'), s') \<longrightarrow>
        st = OK \<longrightarrow> file_bytes (mem_cont (be s')) (f_extents (file_at s' 1)) = ''ab'')"
proof -
  have w: "w_file sample_wfile = 1" "w_buffered sample_wfile" "w_buffer sample_wfile = ''ab''" "w_buffer_sz sample_wfile = 1024"
    by (simp_all add: sample_wfile_def)
  have sp: "\<not> f_is_sparse (file_at append_dev (w_file sample_wfile))" by (simp add: append_dev_def new_file_def)
  have sf: "\<forall>e \<in> set (f_extents (file_at append_dev (w_file sample_wfile))). safe append_dev e" by (simp add: append_dev_facts(4))
  have len: "length ''c'' < 2 ^ 32" by simp
  note res = buffered_file_contents [OF trivial_writer mem_std.std_algorithms_axioms append_dev_facts(1) TrueI
      writing_ready [OF append_dev_facts(2)] w(2) sp len sf]
  have "WF_Append mem_env (\<lambda>f s. Some (OK, s)) ''c'' sample_wfile append_dev =
      Some ((OK, sample_wfile\<lparr>w_buffer := w_buffer sample_wfile @ ''c''\<rparr>), append_dev)"
    using conjunct1 [OF res] by (simp add: w)
  moreover have "\<forall>st w' s'. Sync mem_env (\<lambda>f s. Some (OK, s)) sample_wfile append_dev = Some ((st, w'), s') \<longrightarrow>
      st = OK \<longrightarrow> file_bytes (mem_cont (be s')) (f_extents (file_at s' 1)) = ''ab''"
    using conjunct2 [OF conjunct2 [OF res]] by (simp add: w append_dev_facts(4))
  ultimately show ?thesis by (auto simp: w)
qed

end
