(* ===== verification/MetaLog.thy ===== *)
theory MetaLog
  imports FileAppend
begin

unbundle bit_operations_syntax

text \<open>
  The metadata log (\<open>ZenMetaLog\<close>) and the superblock of \<open>fs_zenfs.cc\<close>. The log fills one metadata zone
  with records, each a checksum, a length and the data, padded to the block size.
\<close>

section \<open>Checksums\<close>

text \<open>
  \<open>crc\<close> is \<open>crc32c::Extend\<close>, which \<open>crc32c.cc\<close> picks at program start among implementations for different
  instruction sets; only that it returns 32 bits is used.
\<close>

type_synonym crc32c = "nat \<Rightarrow> string \<Rightarrow> nat"

definition kMaskDelta :: nat where "kMaskDelta = 0xa282ead8"

definition Mask :: "nat \<Rightarrow> nat" where
  "Mask crc = cast32 ((drop_bit 15 crc OR cast32 (push_bit 17 crc)) + kMaskDelta)"

definition Unmask :: "nat \<Rightarrow> nat" where
  "Unmask masked = (let rot = cast32 (masked + (2 ^ 32 - kMaskDelta)) in drop_bit 17 rot OR cast32 (push_bit 15 rot))"

section \<open>The log\<close>

text \<open>
  A log is a value: its zone and the position of the next read. A constructor starts at the start of
  the zone, the destructor clears the busy flag of the zone.
\<close>

record metalog =
  ml_zone :: zid
  ml_read_pos :: nat

definition zMetaHeaderSize :: nat where "zMetaHeaderSize = 8"

definition new_ZenMetaLog :: "zid \<Rightarrow> ('b, 'm) zbd_scheme \<Rightarrow> metalog" where
  "new_ZenMetaLog z s = \<lparr>ml_zone = z, ml_read_pos = z_start (zone_at s z)\<rparr>"

definition delete_ZenMetaLog :: "metalog \<Rightarrow> ('b, 'm) zbd_scheme \<Rightarrow> ('b, 'm) zbd_scheme" where
  "delete_ZenMetaLog l s = snd (Release (ml_zone l) s)"

definition record_sum :: "crc32c \<Rightarrow> nat \<Rightarrow> string \<Rightarrow> nat" where
  "record_sum crc record_sz data = crc (crc 0 (EncodeFixed32 True record_sz)) data"

text \<open>The size passed to \<open>Zone::Append\<close> is converted to 32 bits.\<close>

definition record_buffer :: "'b env \<Rightarrow> crc32c \<Rightarrow> string \<Rightarrow> string" where
  "record_buffer E crc slice =
    (let record_sz = cast32 (length slice); phys_sz = record_sz + zMetaHeaderSize;
         phys_sz = (if phys_sz mod block_sz E \<noteq> 0 then phys_sz + (block_sz E - phys_sz mod block_sz E) else phys_sz);
         data = take record_sz slice;
         buffer = EncodeFixed32 True (Mask (record_sum crc record_sz data)) @ EncodeFixed32 True record_sz @ data
     in take (cast32 phys_sz) (buffer @ replicate (phys_sz - length buffer) (CHR 0x00)))"

definition AddRecord :: "'b env \<Rightarrow> crc32c \<Rightarrow> metalog \<Rightarrow> string \<Rightarrow> ('b, 'm) zbd_scheme \<Rightarrow> (status \<times> ('b, 'm) zbd_scheme) option" where
  "AddRecord E crc l slice s = Zone_Append E (ml_zone l) (record_buffer E crc slice) s"

text \<open>A read that returns nothing is repeated for ever.\<close>

partial_function (option) log_read_loop :: "'b env \<Rightarrow> nat \<Rightarrow> string \<Rightarrow> nat \<Rightarrow> ('b, 'm) zbd_scheme \<Rightarrow>
    ((status \<times> string) \<times> nat \<times> ('b, 'm) zbd_scheme) option" where
  "log_read_loop E to_read buf pos s = (if length buf < to_read
     then Option.bind (ZBD_Read E pos (to_read - length buf) False s) (\<lambda>(r, s).
       case r of None \<Rightarrow> Some ((IOError, buf), pos, s)
       | Some d \<Rightarrow> log_read_loop E to_read (buf @ d) (add64 pos (length d)) s)
     else Some ((OK, buf), pos, s))"

definition MetaLog_Read :: "'b env \<Rightarrow> metalog \<Rightarrow> nat \<Rightarrow> ('b, 'm) zbd_scheme \<Rightarrow>
    ((status \<times> string) \<times> metalog \<times> ('b, 'm) zbd_scheme) option" where
  "MetaLog_Read E l n s = (let z = zone_at s (ml_zone l) in
     if z_wp z \<le> ml_read_pos l then Some ((OK, []), l, s)
     else if add64 (z_start z) (z_max_capacity z) < add64 (ml_read_pos l) n then Some ((IOError, []), l, s)
     else Option.bind (log_read_loop E n [] (ml_read_pos l) s) (\<lambda>(r, pos, s). Some (r, l\<lparr>ml_read_pos := pos\<rparr>, s)))"

definition ReadRecord :: "'b env \<Rightarrow> crc32c \<Rightarrow> metalog \<Rightarrow> ('b, 'm) zbd_scheme \<Rightarrow>
    ((status \<times> string) \<times> metalog \<times> ('b, 'm) zbd_scheme) option" where
  "ReadRecord E crc l s = Option.bind (MetaLog_Read E l zMetaHeaderSize s) (\<lambda>((st, header), l, s).
     if st \<noteq> OK then Some ((st, []), l, s)
     else if header = [] then Some ((OK, []), l, s)
     else let record_crc = DecodeFixed32 True header; record_sz = DecodeFixed32 True (drop 4 header) in
       Option.bind (MetaLog_Read E l record_sz s) (\<lambda>((st, record), l, s).
         if st \<noteq> OK then Some ((st, record), l, s)
         else if record_sum crc record_sz record \<noteq> Unmask record_crc then Some ((IOError, record), l, s)
         else Some ((OK, record), l\<lparr>ml_read_pos := (if ml_read_pos l mod block_sz E \<noteq> 0
           then add64 (ml_read_pos l) (block_sz E - ml_read_pos l mod block_sz E) else ml_read_pos l)\<rparr>, s)))"

section \<open>The superblock\<close>

text \<open>The character arrays have their full length, unused bytes are zero.\<close>

record superblock =
  sb_magic :: nat
  sb_uuid :: string
  sb_sequence :: nat
  sb_version :: nat
  sb_flags :: nat
  sb_block_size :: nat
  sb_zone_size :: nat
  sb_nr_zones :: nat
  sb_aux_fs_path :: string
  sb_finish_treshold :: nat
  sb_zenfs_version :: string
  sb_reserved :: string

definition sb_MAGIC :: nat where "sb_MAGIC = 0x5a454e46"
definition ENCODED_SIZE :: nat where "ENCODED_SIZE = 512"
definition CURRENT_SUPERBLOCK_VERSION :: nat where "CURRENT_SUPERBLOCK_VERSION = 2"
definition FLAGS_ENABLE_GC :: nat where "FLAGS_ENABLE_GC = 1"

definition c_str :: "string \<Rightarrow> string" where
  "c_str x = takeWhile (\<lambda>c. c \<noteq> CHR 0x00) x"

definition strncpy :: "string \<Rightarrow> nat \<Rightarrow> string" where
  "strncpy x n = take n (c_str x @ replicate n (CHR 0x00))"

text \<open>\<open>uuid\<close> comes from \<open>Env::GenerateUniqueId\<close>, \<open>version\<close> is generated by the build.\<close>

definition new_Superblock :: "'b env \<Rightarrow> string \<Rightarrow> string \<Rightarrow> string \<Rightarrow> nat \<Rightarrow> bool \<Rightarrow> superblock" where
  "new_Superblock E uuid version aux_fs_path threshold enable_gc = \<lparr>
     sb_magic = sb_MAGIC,
     sb_uuid = take 36 uuid @ replicate (37 - length (take 36 uuid)) (CHR 0x00),
     sb_sequence = 0, sb_version = CURRENT_SUPERBLOCK_VERSION,
     sb_flags = (if enable_gc then FLAGS_ENABLE_GC else 0),
     sb_block_size = block_sz E, sb_zone_size = cast32 (zone_sz E div block_sz E), sb_nr_zones = nr_zones E,
     sb_aux_fs_path = strncpy aux_fs_path 255 @ [CHR 0x00], sb_finish_treshold = threshold,
     sb_zenfs_version = strncpy version 63 @ [CHR 0x00], sb_reserved = replicate 123 (CHR 0x00)\<rparr>"

definition Superblock_EncodeTo :: "superblock \<Rightarrow> string \<times> superblock" where
  "Superblock_EncodeTo b = (let b = b\<lparr>sb_sequence := cast32 (sb_sequence b + 1)\<rparr>;
     out = PutFixed32 [] (sb_magic b) @ sb_uuid b;
     out = foldl PutFixed32 out [sb_sequence b, sb_version b, sb_flags b, sb_block_size b, sb_zone_size b, sb_nr_zones b,
             sb_finish_treshold b]
     in (out @ sb_aux_fs_path b @ sb_zenfs_version b @ sb_reserved b, b))"

definition Superblock_DecodeFrom :: "string \<Rightarrow> superblock \<Rightarrow> status \<times> superblock" where
  "Superblock_DecodeFrom input b = (if length input \<noteq> ENCODED_SIZE then (Corruption, b)
     else let f = (\<lambda>i. DecodeFixed32 True (drop i input));
         b = \<lparr>sb_magic = f 0, sb_uuid = take 37 (drop 4 input), sb_sequence = f 41, sb_version = f 45, sb_flags = f 49,
              sb_block_size = f 53, sb_zone_size = f 57, sb_nr_zones = f 61,
              sb_aux_fs_path = take 256 (drop 69 input), sb_finish_treshold = f 65, sb_zenfs_version = take 64 (drop 325 input),
              sb_reserved = take 123 (drop 389 input)\<rparr> in
       if sb_magic b \<noteq> sb_MAGIC then (Corruption, b)
       else if sb_version b \<noteq> CURRENT_SUPERBLOCK_VERSION then (Corruption, b)
       else (OK, b))"

text \<open>The block size of a device is positive.\<close>

definition CompatibleWith :: "'b env \<Rightarrow> superblock \<Rightarrow> status" where
  "CompatibleWith E b = (if sb_block_size b \<noteq> block_sz E then Corruption
     else if sb_zone_size b \<noteq> zone_sz E div sb_block_size b then Corruption
     else if nr_zones E < sb_nr_zones b then Corruption else OK)"

definition GetAuxFsPath :: "superblock \<Rightarrow> string" where
  "GetAuxFsPath b = c_str (sb_aux_fs_path b)"

definition IsGCEnabled :: "superblock \<Rightarrow> bool" where
  "IsGCEnabled b \<longleftrightarrow> sb_flags b AND FLAGS_ENABLE_GC \<noteq> 0"

section \<open>Checksums can be unmasked\<close>

lemma or_shift_mod: "a < 2 ^ n \<Longrightarrow> a OR cast32 (push_bit n b) = a + 2 ^ n * (b mod 2 ^ (32 - n))" if "n \<le> 32" for a b :: nat
proof -
  assume a: "a < 2 ^ n"
  have "cast32 (push_bit n b) = push_bit n (b mod 2 ^ (32 - n))"
    using mult_mod_right [of "2 ^ n" b "2 ^ (32 - n)"] that
    by (simp add: cast32_def push_bit_eq_mult mult.commute flip: power_add)
  then show ?thesis using or_shift [OF a] by simp
qed

lemma Unmask_Mask: "c < 2 ^ 32 \<Longrightarrow> Unmask (Mask c) = c"
proof -
  assume c: "c < 2 ^ 32"
  define r where "r = c div 2 ^ 15 + 2 ^ 17 * (c mod 2 ^ 15)"
  have hi: "c div 2 ^ 15 < 2 ^ 17" using c by simp
  then have "Mask c = cast32 (r + kMaskDelta)"
    using or_shift_mod [of 17 "c div 2 ^ 15" c] by (simp add: Mask_def r_def drop_bit_eq_div)
  moreover have r: "r < 2 ^ 32" using hi unfolding r_def by simp
  ultimately have "cast32 (Mask c + (2 ^ 32 - kMaskDelta)) = r"
    by (simp add: cast32_def kMaskDelta_def mod_simps)
  moreover have "r div 2 ^ 17 = c mod 2 ^ 15" "r mod 2 ^ 17 = c div 2 ^ 15" using hi by (simp_all add: r_def)
  moreover have "(c mod 2 ^ 15) OR cast32 (push_bit 15 r) = c mod 2 ^ 15 + 2 ^ 15 * (r mod 2 ^ 17)"
    using or_shift_mod [of 15 "c mod 2 ^ 15" r] by simp
  ultimately show ?thesis by (simp add: Unmask_def Let_def drop_bit_eq_div)
qed

section \<open>Records in the log\<close>

lemma pad_size_mod:
  assumes "0 < block_sz E"
  shows "(n + pad_size E n) mod block_sz E = 0"
proof -
  have "n mod block_sz E + (block_sz E - n mod block_sz E) = block_sz E" using assms by simp
  then have "(n + (block_sz E - n mod block_sz E)) mod block_sz E = 0"
    using mod_add_left_eq [of n "block_sz E" "block_sz E - n mod block_sz E"] by simp
  then show ?thesis by (simp add: pad_size_def)
qed

lemma pad_size_less: "0 < block_sz E \<Longrightarrow> pad_size E n < block_sz E"
  by (simp add: pad_size_def)

definition record_ok :: "'b env \<Rightarrow> string \<Rightarrow> bool" where
  "record_ok E r \<longleftrightarrow> length r + zMetaHeaderSize + block_sz E < 2 ^ 32"

lemma record_buffer_eq:
  assumes "0 < block_sz E" "record_ok E r"
  shows "record_buffer E crc r = EncodeFixed32 True (Mask (record_sum crc (length r) r)) @ EncodeFixed32 True (length r) @ r @
    replicate (pad_size E (length r + zMetaHeaderSize)) (CHR 0x00)"
proof -
  let ?n = "length r + zMetaHeaderSize"
  have c: "cast32 (length r) = length r" using assms(2) by (simp add: record_ok_def cast32_small)
  have p: "(if ?n mod block_sz E \<noteq> 0 then ?n + (block_sz E - ?n mod block_sz E) else ?n) = ?n + pad_size E ?n"
    by (simp add: pad_size_def)
  have "cast32 (?n + pad_size E ?n) = ?n + pad_size E ?n"
    using assms(2) pad_size_less [OF assms(1), of ?n] by (intro cast32_small) (simp add: record_ok_def)
  then show ?thesis unfolding record_buffer_def Let_def c p by (simp add: zMetaHeaderSize_def EncodeFixed32_eq)
qed

lemma length_record_buffer:
  assumes "0 < block_sz E" "record_ok E r"
  shows "length (record_buffer E crc r) = length r + zMetaHeaderSize + pad_size E (length r + zMetaHeaderSize)"
  by (simp add: record_buffer_eq [OF assms] EncodeFixed32_eq zMetaHeaderSize_def)

lemma next_record_pos:
  assumes "0 < block_sz E" "record_ok E r" "p mod block_sz E = 0" "p + length (record_buffer E crc r) < 2 ^ 64"
  defines "q \<equiv> p + zMetaHeaderSize + length r"
  shows "(if q mod block_sz E \<noteq> 0 then add64 q (block_sz E - q mod block_sz E) else q) = p + length (record_buffer E crc r)"
    "(p + length (record_buffer E crc r)) mod block_sz E = 0"
proof -
  note lD = length_record_buffer [OF assms(1,2), of crc]
  have q: "q mod block_sz E = (length r + zMetaHeaderSize) mod block_sz E"
    using assms(3) mod_add_left_eq [of p "block_sz E" "length r + zMetaHeaderSize"] by (simp add: q_def ac_simps)
  then show "(if q mod block_sz E \<noteq> 0 then add64 q (block_sz E - q mod block_sz E) else q) = p + length (record_buffer E crc r)"
    using assms(4) by (cases "q mod block_sz E = 0") (simp_all add: lD add64_small pad_size_def q_def)
  show "(p + length (record_buffer E crc r)) mod block_sz E = 0"
    using pad_size_mod [OF assms(1), of "length r + zMetaHeaderSize"] assms(3) lD mod_add_left_eq [of p "block_sz E" "length (record_buffer E crc r)"]
    by simp
qed

lemma decode_encoded_fixed32: "DecodeFixed32 True (EncodeFixed32 True v @ x) = v mod 2 ^ 32"
  by (simp add: DecodeFixed32_eq EncodeFixed32_eq le_value_le_bytes)

text \<open>\<open>log_holds\<close>: between the read position of the log and the write pointer of its zone lie exactly the given records.\<close>

definition log_bytes :: "'b env \<Rightarrow> crc32c \<Rightarrow> string list \<Rightarrow> string" where
  "log_bytes E crc rs = concat (map (record_buffer E crc) rs)"

definition log_holds :: "'b env \<Rightarrow> crc32c \<Rightarrow> ('b \<Rightarrow> nat \<Rightarrow> char) \<Rightarrow> metalog \<Rightarrow> string list \<Rightarrow> ('b, 'm) zbd_scheme \<Rightarrow> bool" where
  "log_holds E crc cont l rs s \<longleftrightarrow> (let z = zone_at s (ml_zone l); p = ml_read_pos l in
     0 < block_sz E \<and> p mod block_sz E = 0 \<and> zone_wf E z \<and> z_start z \<le> p \<and> z_wp z \<le> z_start z + z_max_capacity z \<and>
     z_wp z = p + length (log_bytes E crc rs) \<and> bytes_at (cont (be s)) p (length (log_bytes E crc rs)) = log_bytes E crc rs \<and>
     list_all (record_ok E) rs)"

context zoned_backend
begin

lemma add_record_holds:
  assumes "log_holds E crc cont l rs s" "record_ok E r" "bytes_written s < 2 ^ 64"
  shows "\<exists>st s'. AddRecord E crc l r s = Some (st, s') \<and> (st = OK \<longrightarrow> log_holds E crc cont l (rs @ [r]) s') \<and> (st = NoSpace \<longrightarrow> s' = s)"
proof -
  let ?z = "ml_zone l" let ?wp = "z_wp (zone_at s ?z)" let ?d = "record_buffer E crc r"
  have h: "0 < block_sz E" "ml_read_pos l mod block_sz E = 0" "zone_wf E (zone_at s ?z)" "z_start (zone_at s ?z) \<le> ml_read_pos l"
    "?wp = ml_read_pos l + length (log_bytes E crc rs)" "list_all (record_ok E) rs"
    "bytes_at (cont (be s)) (ml_read_pos l) (length (log_bytes E crc rs)) = log_bytes E crc rs"
    using assms(1) by (simp_all add: log_holds_def Let_def)
  show ?thesis
  proof (cases "z_capacity (zone_at s ?z) < length ?d")
    case True
    then show ?thesis by (simp add: AddRecord_def Zone_Append_def)
  next
    case False
    have ne: "0 < length ?d" by (simp add: length_record_buffer [OF h(1) assms(2)] zMetaHeaderSize_def)
    obtain st k b where a: "append_loop E ?z ?d s = Some (st, advanced ?z k b s)" "k \<le> length ?d"
      and post: "st = OK \<and> k = length ?d \<and> cont b = overwrite ?wp ?d (cont (be s)) \<or> st = IOError"
      using append_loop_returns [OF h(3) _ assms(3), of ?d] False by auto
    have "log_holds E crc cont l (rs @ [r]) (advanced ?z k b s)" if "st = OK"
    proof -
      have k: "k = length ?d" "cont b = overwrite ?wp ?d (cont (be s))" using post that by auto
      have "zone_wf E (zone_at (advanced ?z k b s) ?z)" using h(3) False k(1) by (simp add: zone_at_advanced zone_wf_advance)
      moreover have "?wp + z_capacity (zone_at s ?z) = z_start (zone_at s ?z) + z_max_capacity (zone_at s ?z)"
        using h(3) False ne by (simp add: zone_wf_def)
      moreover have "bytes_at (cont b) (ml_read_pos l) (length (log_bytes E crc rs) + length ?d) = log_bytes E crc rs @ ?d"
        unfolding bytes_at_append k(2) h(5)
        using bytes_at_overwrite_disjoint [of "ml_read_pos l" "length (log_bytes E crc rs)" ?wp ?d "cont (be s)"] h(5,7) by simp
      ultimately show ?thesis using h(1,2,4-6) assms(2) False k(1)
        by (simp add: log_holds_def Let_def zone_at_advanced log_bytes_def)
    qed
    then show ?thesis using a post False by (auto simp: AddRecord_def Zone_Append_def)
  qed
qed

lemma log_read_ok:
  assumes "responsive E" "pos + n < 2 ^ 64"
  shows "\<exists>b. cont b = cont (be s) \<and> (\<not> readable E \<and> log_read_loop E n [] pos s = Some ((IOError, []), pos, s\<lparr>be := b\<rparr>) \<or>
    log_read_loop E n [] pos s = Some ((OK, bytes_at (cont (be s)) pos n), pos + n, s\<lparr>be := b\<rparr>))"
proof (cases "n = 0")
  case True
  then show ?thesis by (intro exI [of _ "be s"]) (simp add: log_read_loop.simps)
next
  case False
  then obtain b where b: "cont b = cont (be s)" "ZBD_Read E pos n False s = Some (None, s\<lparr>be := b\<rparr>) \<or>
    ZBD_Read E pos n False s = Some (Some (bytes_at (cont (be s)) pos n), s\<lparr>be := b\<rparr>)"
    using ZBD_Read_ok [OF assms, of s False] by auto
  then show ?thesis using False assms(2) ZBD_Read_readable [of E pos n False s "s\<lparr>be := b\<rparr>"]
    by (intro exI [of _ b]) (auto simp: log_read_loop.simps [of E n "[]"] log_read_loop.simps [of E n "bytes_at _ _ n"] add64_small)
qed

lemma MetaLog_Read_ok:
  assumes "responsive E" "zone_wf E (zone_at s (ml_zone l))" "ml_read_pos l + n \<le> z_wp (zone_at s (ml_zone l))"
    and "z_wp (zone_at s (ml_zone l)) \<le> z_start (zone_at s (ml_zone l)) + z_max_capacity (zone_at s (ml_zone l))"
  shows "\<exists>b. cont b = cont (be s) \<and> (\<not> readable E \<and> MetaLog_Read E l n s = Some ((IOError, []), l, s\<lparr>be := b\<rparr>) \<or>
    MetaLog_Read E l n s = Some ((OK, bytes_at (cont (be s)) (ml_read_pos l) n), l\<lparr>ml_read_pos := ml_read_pos l + n\<rparr>, s\<lparr>be := b\<rparr>))"
proof (cases "z_wp (zone_at s (ml_zone l)) \<le> ml_read_pos l")
  case True
  then have "n = 0" using assms(3) by simp
  then show ?thesis using True by (intro exI [of _ "be s"]) (simp add: MetaLog_Read_def Let_def)
next
  case False
  let ?z = "zone_at s (ml_zone l)"
  have lim: "z_start ?z + z_max_capacity ?z < 2 ^ 64" "ml_read_pos l + n < 2 ^ 64"
    using assms(2-4) by (auto simp: zone_wf_def)
  then have "\<not> add64 (z_start ?z) (z_max_capacity ?z) < add64 (ml_read_pos l) n"
    using assms(3,4) by (simp add: add64_small)
  then show ?thesis using log_read_ok [OF assms(1) lim(2), of s] False by (auto simp: MetaLog_Read_def Let_def)
qed

lemma read_record_holds:
  assumes "responsive E" "\<And>c d. crc c d < 2 ^ 32" "log_holds E crc cont l (r # rs) s"
  shows "\<exists>b l' out. cont b = cont (be s) \<and> (\<not> readable E \<and> ReadRecord E crc l s = Some ((IOError, out), l', s\<lparr>be := b\<rparr>) \<or>
    ReadRecord E crc l s = Some ((OK, r), l', s\<lparr>be := b\<rparr>) \<and> ml_zone l' = ml_zone l \<and> log_holds E crc cont l' rs (s\<lparr>be := b\<rparr>))"
proof -
  let ?z = "zone_at s (ml_zone l)" let ?p = "ml_read_pos l" let ?D = "record_buffer E crc r" let ?m = "cont (be s)" let ?n = "length r"
  have h: "0 < block_sz E" "?p mod block_sz E = 0" "zone_wf E ?z" "z_start ?z \<le> ?p" "z_wp ?z \<le> z_start ?z + z_max_capacity ?z"
    "z_wp ?z = ?p + length ?D + length (log_bytes E crc rs)" "list_all (record_ok E) rs" "record_ok E r"
    "bytes_at ?m ?p (length ?D + length (log_bytes E crc rs)) = ?D @ log_bytes E crc rs"
    using assms(3) by (simp_all add: log_holds_def Let_def log_bytes_def)
  note D = record_buffer_eq [OF h(1,8), of crc] and lD = length_record_buffer [OF h(1,8), of crc]
  have m: "bytes_at ?m ?p (length ?D) = ?D" "bytes_at ?m (?p + length ?D) (length (log_bytes E crc rs)) = log_bytes E crc rs"
    using h(9) by (simp_all add: bytes_at_append)
  have hd: "bytes_at ?m ?p zMetaHeaderSize = EncodeFixed32 True (Mask (record_sum crc ?n r)) @ EncodeFixed32 True ?n"
    using arg_cong [OF m(1), of "take zMetaHeaderSize"] lD by (simp add: D EncodeFixed32_eq zMetaHeaderSize_def)
  have bd: "bytes_at ?m (?p + zMetaHeaderSize) ?n = r"
    using arg_cong [OF m(1), of "\<lambda>x. take ?n (drop zMetaHeaderSize x)"] lD by (simp add: D EncodeFixed32_eq zMetaHeaderSize_def)
  have n32: "?n mod 2 ^ 32 = ?n" using h(8) by (simp add: record_ok_def)
  have sum: "record_sum crc ?n r < 2 ^ 32" "Mask (record_sum crc ?n r) mod 2 ^ 32 = Mask (record_sum crc ?n r)"
    using assms(2) by (simp_all add: record_sum_def Mask_def cast32_def)
  obtain b1 where b1: "cont b1 = ?m" "\<not> readable E \<and> MetaLog_Read E l zMetaHeaderSize s = Some ((IOError, []), l, s\<lparr>be := b1\<rparr>) \<or>
    MetaLog_Read E l zMetaHeaderSize s = Some ((OK, bytes_at ?m ?p zMetaHeaderSize), l\<lparr>ml_read_pos := ?p + zMetaHeaderSize\<rparr>, s\<lparr>be := b1\<rparr>)"
    using MetaLog_Read_ok [OF assms(1) h(3), of zMetaHeaderSize] h(5,6) lD by auto
  let ?l1 = "l\<lparr>ml_read_pos := ?p + zMetaHeaderSize\<rparr>"
  obtain b2 where b2: "cont b2 = ?m" "\<not> readable E \<and> MetaLog_Read E ?l1 ?n (s\<lparr>be := b1\<rparr>) = Some ((IOError, []), ?l1, s\<lparr>be := b2\<rparr>) \<or>
    MetaLog_Read E ?l1 ?n (s\<lparr>be := b1\<rparr>) = Some ((OK, r), ?l1\<lparr>ml_read_pos := ?p + zMetaHeaderSize + ?n\<rparr>, s\<lparr>be := b2\<rparr>)"
    using MetaLog_Read_ok [OF assms(1), of "s\<lparr>be := b1\<rparr>" ?l1 ?n] h(3,5,6) lD b1(1) bd by auto
  have "?p + length ?D < 2 ^ 64" using h(3,5,6) by (auto simp: zone_wf_def)
  note pos = next_record_pos [OF h(1,8,2) this]
  have "log_holds E crc cont (l\<lparr>ml_read_pos := ?p + length ?D\<rparr>) rs (s\<lparr>be := b2\<rparr>)"
    using h pos(2) m(2) b2(1) by (simp add: log_holds_def Let_def)
  moreover define hdr where "hdr = bytes_at ?m ?p zMetaHeaderSize"
  have hdr: "hdr \<noteq> []" "DecodeFixed32 True hdr = Mask (record_sum crc ?n r)" "DecodeFixed32 True (drop 4 hdr) = ?n"
    using decode_encoded_fixed32 [of ?n "[]"] n32 sum(2)
    by (simp_all add: hdr_def hd decode_encoded_fixed32) (simp_all add: EncodeFixed32_eq flip: length_greater_0_conv)
  moreover from b1(2) consider "\<not> readable E" "MetaLog_Read E l zMetaHeaderSize s = Some ((IOError, []), l, s\<lparr>be := b1\<rparr>)"
    | "\<not> readable E" "MetaLog_Read E l zMetaHeaderSize s = Some ((OK, hdr), ?l1, s\<lparr>be := b1\<rparr>)"
      "MetaLog_Read E ?l1 ?n (s\<lparr>be := b1\<rparr>) = Some ((IOError, []), ?l1, s\<lparr>be := b2\<rparr>)"
    | "MetaLog_Read E l zMetaHeaderSize s = Some ((OK, hdr), ?l1, s\<lparr>be := b1\<rparr>)"
      "MetaLog_Read E ?l1 ?n (s\<lparr>be := b1\<rparr>) = Some ((OK, r), ?l1\<lparr>ml_read_pos := ?p + zMetaHeaderSize + ?n\<rparr>, s\<lparr>be := b2\<rparr>)"
    using b2(2) unfolding hdr_def by blast
  then have "\<not> readable E \<and> ReadRecord E crc l s = Some ((IOError, []), l, s\<lparr>be := b1\<rparr>) \<or>
      \<not> readable E \<and> ReadRecord E crc l s = Some ((IOError, []), ?l1, s\<lparr>be := b2\<rparr>) \<or>
      ReadRecord E crc l s = Some ((OK, r), l\<lparr>ml_read_pos := ?p + length ?D\<rparr>, s\<lparr>be := b2\<rparr>)"
  proof cases
    case 3
    then show ?thesis using pos(1) by (simp add: ReadRecord_def hdr Unmask_Mask [OF sum(1)] Let_def cong: if_cong)
  qed (simp_all add: ReadRecord_def hdr)
  ultimately show ?thesis using b1(1) b2(1) by fastforce
qed

end

section \<open>Properties\<close>

text \<open>
  C25. The metadata log is a queue of records. \<open>AddRecord\<close> returns; on success the log holds one record
  more at its end, without room for it nothing changes. \<open>ReadRecord\<close> returns; unless the device fails,
  it delivers the first record and leaves a log that holds the others, or delivers nothing at the end
  of the log. No read changes the contents of the device.
\<close>

theorem meta_log_queue:
  assumes "zoned_backend E cont" "responsive E" "\<And>c d. crc c d < 2 ^ 32" "log_holds E crc cont l rs s" "bytes_written s < 2 ^ 64" "record_ok E r"
  shows "(\<exists>st s'. AddRecord E crc l r s = Some (st, s') \<and> (st = OK \<longrightarrow> log_holds E crc cont l (rs @ [r]) s') \<and> (st = NoSpace \<longrightarrow> s' = s)) \<and>
    (\<exists>st out l' b. ReadRecord E crc l s = Some ((st, out), l', s\<lparr>be := b\<rparr>) \<and> cont b = cont (be s) \<and>
       (\<not> readable E \<and> st = IOError \<or> st = OK \<and> ml_zone l' = ml_zone l \<and> log_holds E crc cont l' (tl rs) (s\<lparr>be := b\<rparr>) \<and>
          out = (case rs of [] \<Rightarrow> [] | x # _ \<Rightarrow> x)))"
proof (intro conjI)
  show "\<exists>st s'. AddRecord E crc l r s = Some (st, s') \<and> (st = OK \<longrightarrow> log_holds E crc cont l (rs @ [r]) s') \<and> (st = NoSpace \<longrightarrow> s' = s)"
    using zoned_backend.add_record_holds [OF assms(1,4,6,5)] .
  show "\<exists>st out l' b. ReadRecord E crc l s = Some ((st, out), l', s\<lparr>be := b\<rparr>) \<and> cont b = cont (be s) \<and>
       (\<not> readable E \<and> st = IOError \<or> st = OK \<and> ml_zone l' = ml_zone l \<and> log_holds E crc cont l' (tl rs) (s\<lparr>be := b\<rparr>) \<and>
          out = (case rs of [] \<Rightarrow> [] | x # _ \<Rightarrow> x))"
  proof (cases rs)
    case Nil
    then have "ReadRecord E crc l s = Some ((OK, []), l, s\<lparr>be := be s\<rparr>)"
      using assms(4) by (simp add: ReadRecord_def MetaLog_Read_def log_holds_def Let_def log_bytes_def)
    then show ?thesis using Nil assms(4) by (intro exI [of _ OK] exI [of _ "[]"] exI [of _ l] exI [of _ "be s"]) simp
  next
    case (Cons x xs)
    then obtain b l' out where b: "cont b = cont (be s)" "\<not> readable E \<and> ReadRecord E crc l s = Some ((IOError, out), l', s\<lparr>be := b\<rparr>) \<or>
      ReadRecord E crc l s = Some ((OK, x), l', s\<lparr>be := b\<rparr>) \<and> ml_zone l' = ml_zone l \<and> log_holds E crc cont l' xs (s\<lparr>be := b\<rparr>)"
      using zoned_backend.read_record_holds [OF assms(1,2), of crc l x xs s, OF assms(3)] assms(4) by blast
    show ?thesis unfolding Cons list.case list.sel using b by blast
  qed
qed

definition sample_crc :: crc32c where
  "sample_crc c d = (c + sum_list (map of_char d)) mod 2 ^ 32"

theorem meta_log_queue_witness:
  "\<exists>st s' b. AddRecord mem_env sample_crc (new_ZenMetaLog 0 mem_dev) ''abcd'' mem_dev = Some (st, s') \<and>
     (st = OK \<longrightarrow> log_holds mem_env sample_crc mem_cont (new_ZenMetaLog 0 mem_dev) [''abcd''] s') \<and>
     (\<exists>st out l'. ReadRecord mem_env sample_crc (new_ZenMetaLog 0 mem_dev) mem_dev = Some ((st, out), l', mem_dev\<lparr>be := b\<rparr>) \<and>
        (st = IOError \<or> out = []))"
proof -
  have sz: "zone_sz mem_env = 16" "block_sz mem_env = 4" by (simp_all add: mem_env_def zbdlib_env_def mem_info_def)
  have "log_holds mem_env sample_crc mem_cont (new_ZenMetaLog 0 mem_dev) [] mem_dev"
    by (simp add: log_holds_def Let_def log_bytes_def new_ZenMetaLog_def mem_dev_eval zone_wf_def sz sub64_def)
  moreover have "\<And>c d. sample_crc c d < 2 ^ 32" by (simp add: sample_crc_def)
  moreover have "bytes_written mem_dev < 2 ^ 64" "record_ok mem_env ''abcd''"
    by (simp_all add: mem_dev_eval record_ok_def zMetaHeaderSize_def sz)
  ultimately show ?thesis using meta_log_queue [OF mem.zoned_backend_axioms mem_responsive, of sample_crc "new_ZenMetaLog 0 mem_dev" "[]" mem_dev "''abcd''"]
    unfolding append_Nil list.case by blast
qed

definition superblock_ok :: "superblock \<Rightarrow> bool" where
  "superblock_ok b \<longleftrightarrow> sb_magic b = sb_MAGIC \<and> sb_version b = CURRENT_SUPERBLOCK_VERSION \<and> length (sb_uuid b) = 37 \<and>
     length (sb_aux_fs_path b) = 256 \<and> length (sb_zenfs_version b) = 64 \<and> length (sb_reserved b) = 123 \<and>
     sb_flags b < 2 ^ 32 \<and> sb_block_size b < 2 ^ 32 \<and> sb_zone_size b < 2 ^ 32 \<and> sb_nr_zones b < 2 ^ 32 \<and> sb_finish_treshold b < 2 ^ 32"

lemma superblock_encode_length: "superblock_ok b \<Longrightarrow> length (fst (Superblock_EncodeTo b)) = ENCODED_SIZE"
  by (simp add: Superblock_EncodeTo_def Let_def superblock_ok_def PutFixed32_def EncodeFixed32_eq ENCODED_SIZE_def)

lemma superblock_decode_encoded:
  assumes "superblock_ok b" "Superblock_EncodeTo b = (out, b')"
  shows "Superblock_DecodeFrom out b0 = (OK, b')" "b' = b\<lparr>sb_sequence := cast32 (sb_sequence b + 1)\<rparr>"
proof -
  show b': "b' = b\<lparr>sb_sequence := cast32 (sb_sequence b + 1)\<rparr>" using assms(2) by (auto simp: Superblock_EncodeTo_def Let_def)
  have seq: "sb_sequence b' < 2 ^ 32" by (simp add: b' cast32_def)
  let ?e = "EncodeFixed32 True"
  have out: "out = ?e (sb_magic b') @ sb_uuid b' @ ?e (sb_sequence b') @ ?e (sb_version b') @ ?e (sb_flags b') @ ?e (sb_block_size b') @
    ?e (sb_zone_size b') @ ?e (sb_nr_zones b') @ ?e (sb_finish_treshold b') @ sb_aux_fs_path b' @ sb_zenfs_version b' @ sb_reserved b'"
    using assms(2) by (auto simp: Superblock_EncodeTo_def Let_def PutFixed32_def)
  have b: "superblock_ok b'" using assms(1) by (simp add: b' superblock_ok_def)
  have len: "length out = ENCODED_SIZE" using superblock_encode_length [OF assms(1)] assms(2) by simp
  have le: "length (?e v) = 4" for v by (simp add: EncodeFixed32_eq)
  have dec: "DecodeFixed32 True (?e v @ x) = v" if "v < 2 ^ 32" for v x
    using that by (simp add: decode_encoded_fixed32)
  have at: "drop 4 out = sb_uuid b' @ drop 41 out" "drop 69 out = sb_aux_fs_path b' @ sb_zenfs_version b' @ sb_reserved b'"
    "drop 41 out = ?e (sb_sequence b') @ drop 45 out" "drop 45 out = ?e (sb_version b') @ drop 49 out"
    "drop 49 out = ?e (sb_flags b') @ drop 53 out" "drop 53 out = ?e (sb_block_size b') @ drop 57 out"
    "drop 57 out = ?e (sb_zone_size b') @ drop 61 out" "drop 61 out = ?e (sb_nr_zones b') @ drop 65 out"
    "drop 65 out = ?e (sb_finish_treshold b') @ drop 69 out"
    "drop 325 out = sb_zenfs_version b' @ sb_reserved b'" "drop 389 out = sb_reserved b'" "out = ?e (sb_magic b') @ drop 4 out"
    using b by (simp_all add: out le superblock_ok_def)
  have small: "sb_magic b' < 2 ^ 32" "sb_version b' < 2 ^ 32"
    using b by (simp_all add: superblock_ok_def sb_MAGIC_def CURRENT_SUPERBLOCK_VERSION_def)
  have f: "DecodeFixed32 True (drop 41 out) = sb_sequence b'" "DecodeFixed32 True (drop 45 out) = sb_version b'"
    "DecodeFixed32 True (drop 49 out) = sb_flags b'" "DecodeFixed32 True (drop 53 out) = sb_block_size b'"
    "DecodeFixed32 True (drop 57 out) = sb_zone_size b'" "DecodeFixed32 True (drop 61 out) = sb_nr_zones b'"
    "DecodeFixed32 True (drop 65 out) = sb_finish_treshold b'"
    unfolding at(3-9) using b seq small by (simp_all add: dec superblock_ok_def)
  have m: "DecodeFixed32 True (drop 0 out) = sb_magic b'" using dec [OF small(1), of "drop 4 out"] at(12) by simp
  have a: "take 37 (drop 4 out) = sb_uuid b'" "take 256 (drop 69 out) = sb_aux_fs_path b'"
    "take 64 (drop 325 out) = sb_zenfs_version b'" "take 123 (drop 389 out) = sb_reserved b'"
    unfolding at(1,2,10,11) using b by (simp_all add: superblock_ok_def)
  show "Superblock_DecodeFrom out b0 = (OK, b')"
    using b len unfolding Superblock_DecodeFrom_def Let_def f m a by (simp add: superblock_ok_def)
qed

lemma length_strncpy: "length (strncpy x n) = n"
  by (simp add: strncpy_def)

lemma new_superblock_ok:
  assumes "block_sz E < 2 ^ 32" "nr_zones E < 2 ^ 32" "t < 2 ^ 32"
  shows "superblock_ok (new_Superblock E uuid version path t gc)"
  using assms by (simp add: superblock_ok_def new_Superblock_def length_strncpy FLAGS_ENABLE_GC_def cast32_def)

text \<open>
  C26. A superblock survives being written and read back: encoding yields 512 bytes with the sequence
  number advanced, and decoding them gives exactly the superblock encoded. A superblock made for a
  device is of this kind and compatible with the device.
\<close>

theorem superblock_roundtrip:
  assumes "superblock_ok b" "block_sz E < 2 ^ 32" "nr_zones E < 2 ^ 32" "zone_sz E div block_sz E < 2 ^ 32" "t < 2 ^ 32"
  shows "(\<exists>out. Superblock_EncodeTo b = (out, b\<lparr>sb_sequence := cast32 (sb_sequence b + 1)\<rparr>) \<and> length out = ENCODED_SIZE \<and>
      Superblock_DecodeFrom out b0 = (OK, b\<lparr>sb_sequence := cast32 (sb_sequence b + 1)\<rparr>)) \<and>
    superblock_ok (new_Superblock E uuid version path t gc) \<and> CompatibleWith E (new_Superblock E uuid version path t gc) = OK"
proof -
  obtain out b' where e: "Superblock_EncodeTo b = (out, b')" by fastforce
  moreover have "CompatibleWith E (new_Superblock E uuid version path t gc) = OK"
    using assms(4) by (simp add: CompatibleWith_def new_Superblock_def cast32_small)
  ultimately show ?thesis
    using superblock_decode_encoded [OF assms(1) e] superblock_encode_length [OF assms(1)] new_superblock_ok [OF assms(2,3,5)] by auto
qed

theorem superblock_roundtrip_witness:
  "\<exists>out b. Superblock_EncodeTo (new_Superblock mem_env ''u'' ''2.1'' ''/aux'' 10 True) = (out, b) \<and> sb_sequence b = 1 \<and>
     Superblock_DecodeFrom out b = (OK, b)"
proof -
  have E: "zone_sz mem_env = 16" "block_sz mem_env = 4" "nr_zones mem_env = 40" by (simp_all add: mem_env_def zbdlib_env_def mem_info_def)
  define b where "b = new_Superblock mem_env ''u'' ''2.1'' ''/aux'' 10 True"
  have b: "superblock_ok b" "sb_sequence b = 0" unfolding b_def by (rule new_superblock_ok) (simp_all add: E new_Superblock_def)
  define b' where "b' = b\<lparr>sb_sequence := cast32 (sb_sequence b + 1)\<rparr>"
  have "sb_sequence b' = 1" by (simp add: b'_def b cast32_def)
  moreover have "\<exists>out. Superblock_EncodeTo b = (out, b') \<and> Superblock_DecodeFrom out b' = (OK, b')"
    using superblock_roundtrip [OF b(1), of mem_env 10 b' "''u''" "''2.1''" "''/aux''" True] unfolding E b'_def by auto
  ultimately show ?thesis unfolding b_def [symmetric] by blast
qed

end
