(* ===== verification/Paths.thy ===== *)
theory Paths
  imports Prelude
begin

text \<open>
  Path names: the part of \<open>std::filesystem::path\<close> that \<open>fs_zenfs.cc\<close> uses, with POSIX path names, and
  \<open>FormatPathLexically\<close>, which makes the keys of the map of files.
\<close>

section \<open>Operations of \<open>std::filesystem::path\<close>\<close>

text \<open>\<open>segs\<close> splits at every slash, so a path with \<open>n\<close> slashes has \<open>n + 1\<close> segments, possibly empty.\<close>

fun segs :: "string \<Rightarrow> string list" where
  "segs [] = [[]]"
| "segs (c # cs) = (if c = CHR ''/'' then [] # segs cs else (c # hd (segs cs)) # tl (segs cs))"

definition path_names :: "string \<Rightarrow> string list" where
  "path_names p = filter (\<lambda>x. x \<noteq> []) (segs p)"

definition is_absolute :: "string \<Rightarrow> bool" where
  "is_absolute p \<longleftrightarrow> p \<noteq> [] \<and> hd p = CHR ''/''"

fun join :: "string list \<Rightarrow> string" where
  "join [] = []"
| "join [x] = x"
| "join (x # y # xs) = x @ ''/'' @ join (y # xs)"

text \<open>
  The normal form of a path: dots vanish, a name followed by dot-dot vanishes with it, dot-dot at the
  root vanishes. What follows a name that is left keeps its slash. The stack of names is reversed.
\<close>

definition normal_step :: "bool \<Rightarrow> string list \<Rightarrow> string \<Rightarrow> string list" where
  "normal_step absolute st n = (if n = ''.'' then st
     else if n = ''..'' then (case st of [] \<Rightarrow> if absolute then [] else [''..''] | x # xs \<Rightarrow> if x = ''..'' then ''..'' # st else xs)
     else n # st)"

definition normal_names :: "string \<Rightarrow> string list" where
  "normal_names p = rev (foldl (normal_step (is_absolute p)) [] (path_names p))"

definition lexically_normal :: "string \<Rightarrow> string" where
  "lexically_normal p = (if p = [] then [] else
     let ns = normal_names p;
         slash = (ns \<noteq> [] \<and> last ns \<noteq> ''..'' \<and> last (segs p) \<in> {[], ''.'', ''..''});
         r = (if is_absolute p then ''/'' else []) @ join ns @ (if slash then ''/'' else [])
     in if r = [] then ''.'' else r)"

definition path_append :: "string \<Rightarrow> string \<Rightarrow> string" where
  "path_append p q = (if is_absolute q \<or> p = [] then q else if last p = CHR ''/'' then p @ q else p @ ''/'' @ q)"

text \<open>The parent of a path: without its last name and the slashes before it, except the root.\<close>

definition parent_path :: "string \<Rightarrow> string" where
  "parent_path p = (let q = rev (dropWhile (\<lambda>c. c \<noteq> CHR ''/'') (rev p)); r = rev (dropWhile (\<lambda>c. c = CHR ''/'') (rev q))
     in if r = [] \<and> is_absolute p then ''/'' else r)"

section \<open>Names of files\<close>

definition FormatPathLexically :: "string \<Rightarrow> string" where
  "FormatPathLexically p = path_append ''/'' (lexically_normal p)"

definition ends_with :: "string \<Rightarrow> string \<Rightarrow> bool" where
  "ends_with v ending \<longleftrightarrow> (if length v < length ending then False else take (length ending) (rev v) = rev ending)"

definition path_as_string_with_separator_at_end :: "string \<Rightarrow> string" where
  "path_as_string_with_separator_at_end p = lexically_normal (path_append p [])"

definition string_starts_with :: "string \<Rightarrow> string \<Rightarrow> bool" where
  "string_starts_with x needle \<longleftrightarrow> take (length needle) x = needle"

section \<open>Normal forms\<close>

definition plain_name :: "string \<Rightarrow> bool" where
  "plain_name x \<longleftrightarrow> x \<noteq> [] \<and> CHR ''/'' \<notin> set x"

definition clean_name :: "string \<Rightarrow> bool" where
  "clean_name x \<longleftrightarrow> plain_name x \<and> x \<noteq> ''.'' \<and> x \<noteq> ''..''"

lemma segs_ne [simp]: "segs p \<noteq> []"
  by (cases p) auto

lemma segs_no_slash: "x \<in> set (segs p) \<Longrightarrow> CHR ''/'' \<notin> set x"
proof (induction p arbitrary: x)
  case (Cons c cs)
  then show ?case by (cases "segs cs") (auto split: if_splits)
qed simp

lemma segs_plain: "CHR ''/'' \<notin> set x \<Longrightarrow> segs (x @ p) = (x @ hd (segs p)) # tl (segs p)"
  by (induction x) auto

lemma segs_join:
  "list_all plain_name ns \<Longrightarrow> ns \<noteq> [] \<Longrightarrow> segs (join ns) = ns \<and> segs (join ns @ ''/'') = ns @ [[]]"
proof (induction ns rule: join.induct)
  case (2 x)
  then show ?case using segs_plain [of x "[]"] segs_plain [of x "''/''"] by (simp add: plain_name_def)
next
  case (3 x y xs)
  then show ?case using segs_plain [of x "''/'' @ join (y # xs)"] segs_plain [of x "''/'' @ join (y # xs) @ ''/''"]
    by (simp add: plain_name_def)
qed simp

lemma normal_step_clean:
  assumes "list_all clean_name st" "plain_name n"
  shows "list_all clean_name (normal_step True st n)"
  using assms unfolding normal_step_def by (cases st) (simp_all add: clean_name_def)

lemma normal_fold_clean:
  "list_all plain_name ns \<Longrightarrow> list_all clean_name st \<Longrightarrow>
   list_all clean_name (foldl (normal_step True) st ns)"
  by (induction ns arbitrary: st) (simp_all add: normal_step_clean)

lemma normal_fold_id:
  "list_all clean_name ns \<Longrightarrow> foldl (normal_step absolute) st ns = rev ns @ st"
  by (induction ns arbitrary: st) (simp_all add: normal_step_def clean_name_def)

lemma path_names_plain: "list_all plain_name (path_names p)"
  using segs_no_slash by (auto simp: path_names_def list_all_iff plain_name_def)

lemma normal_names_clean: "is_absolute p \<Longrightarrow> list_all clean_name (normal_names p)"
  using normal_fold_clean [OF path_names_plain, of "[]" p] by (simp add: normal_names_def)

text \<open>The normal form of an absolute path is the path of its clean names.\<close>

definition clean_path :: "string list \<Rightarrow> bool \<Rightarrow> string" where
  "clean_path ns slash = ''/'' @ join ns @ (if slash \<and> ns \<noteq> [] then ''/'' else [])"

lemma lexically_normal_clean:
  assumes "is_absolute p"
  obtains ns slash where "lexically_normal p = clean_path ns slash" "list_all clean_name ns"
proof
  have ne: "p \<noteq> []" using assms by (simp add: is_absolute_def)
  have "last (normal_names p) \<noteq> ''..''" if "normal_names p \<noteq> []"
    using normal_names_clean [OF assms] last_in_set [OF that] by (simp add: list_all_iff clean_name_def)
  then show "lexically_normal p = clean_path (normal_names p) (last (segs p) \<in> {[], ''.'', ''..''})"
    using assms ne unfolding lexically_normal_def clean_path_def Let_def by (cases "normal_names p = []") simp_all
qed (rule normal_names_clean [OF assms])

lemma lexically_normal_clean_path:
  assumes "list_all clean_name ns"
  shows "lexically_normal (clean_path ns slash) = clean_path ns slash"
proof -
  have abs: "is_absolute (clean_path ns slash)" by (simp add: clean_path_def is_absolute_def)
  have pl: "list_all plain_name ns" using assms by (simp add: list_all_iff clean_name_def)
  have sg: "segs (clean_path ns slash) = [] # (if ns = [] then [[]] else ns @ (if slash then [[]] else []))"
    using segs_join [OF pl] by (simp add: clean_path_def)
  have "path_names (clean_path ns slash) = ns"
    using pl by (simp add: path_names_def sg list_all_iff plain_name_def)
  then have n: "normal_names (clean_path ns slash) = ns"
    using normal_fold_id [OF assms, of True "[]"] abs by (simp add: normal_names_def)
  show ?thesis
  proof (cases "ns = []")
    case True
    then show ?thesis using n abs by (simp add: lexically_normal_def Let_def) (simp add: clean_path_def)
  next
    case False
    then have l: "clean_name (last ns)" using assms last_in_set by (auto simp: list_all_iff)
    have "last (segs (clean_path ns slash)) = (if slash then [] else last ns)" using False by (simp add: sg)
    then show ?thesis using n abs l False unfolding lexically_normal_def Let_def n
      by (simp add: clean_path_def clean_name_def plain_name_def)
  qed
qed

lemma FormatPath_absolute:
  assumes "is_absolute p"
  shows "FormatPathLexically p = lexically_normal p" "FormatPathLexically (FormatPathLexically p) = FormatPathLexically p"
proof -
  obtain ns slash where n: "lexically_normal p = clean_path ns slash" "list_all clean_name ns"
    using lexically_normal_clean [OF assms] by blast
  have "is_absolute (clean_path ns slash)" by (simp add: clean_path_def is_absolute_def)
  then show "FormatPathLexically p = lexically_normal p" "FormatPathLexically (FormatPathLexically p) = FormatPathLexically p"
    using n lexically_normal_clean_path [OF n(2)] by (simp_all add: FormatPathLexically_def path_append_def)
qed

text \<open>
  C27. Formatting a path name always yields an absolute one, and formatting an absolute path name
  again changes nothing: a key of the map of files stands for itself.
\<close>

theorem format_path_idempotent:
  "is_absolute (FormatPathLexically p) \<and>
   (is_absolute p \<longrightarrow> FormatPathLexically (FormatPathLexically p) = FormatPathLexically p \<and> FormatPathLexically p = lexically_normal p)"
  using FormatPath_absolute by (auto simp: FormatPathLexically_def path_append_def is_absolute_def)

theorem format_path_idempotent_witness:
  "FormatPathLexically ''/a//./b'' = ''/a/b'' \<and>
   FormatPathLexically (FormatPathLexically ''/a//./b'') = ''/a/b''"
proof -
  have "FormatPathLexically ''/a//./b'' = ''/a/b''" by code_simp
  moreover have "is_absolute ''/a//./b''" by (simp add: is_absolute_def)
  ultimately show ?thesis using format_path_idempotent [of "''/a//./b''"] by argo
qed

end
