(* ===== verification/FileSys.thy ===== *)
theory FileSys
  imports FileHandles MetaLog Paths "HOL-Library.List_Lexorder" "HOL-Library.Char_ord"
begin

text \<open>
  The file system object (\<open>ZenFS\<close> in \<open>fs_zenfs.cc\<close>): its state, and how metadata is made persistent
  through the log in the metadata zones.
\<close>

section \<open>State\<close>

text \<open>
  \<open>std::map\<close> from names to files, an association list sorted by key. \<open>insert\<close> keeps an existing entry.
\<close>

type_synonym file_map = "(string \<times> fid) list"

fun map_insert :: "string \<Rightarrow> fid \<Rightarrow> file_map \<Rightarrow> file_map" where
  "map_insert k f [] = [(k, f)]"
| "map_insert k f (e # m) = (if k = fst e then e # m else if k < fst e then (k, f) # e # m else e # map_insert k f m)"

definition map_erase :: "string \<Rightarrow> file_map \<Rightarrow> file_map" where
  "map_erase k m = filter (\<lambda>e. fst e \<noteq> k) m"

text \<open>
  The calls to the auxiliary file system, with its state. Opening a file there yields an object
  outside the model, so only the status is kept.
\<close>

record 'a auxfs =
  x_open :: "string \<Rightarrow> 'a \<Rightarrow> status \<times> 'a"
  x_file_exists :: "string \<Rightarrow> 'a \<Rightarrow> status"
  x_delete_file :: "string \<Rightarrow> 'a \<Rightarrow> status \<times> 'a"
  x_get_children :: "string \<Rightarrow> 'a \<Rightarrow> status \<times> string list"
  x_create_dir :: "string \<Rightarrow> 'a \<Rightarrow> status \<times> 'a"
  x_create_dir_if_missing :: "string \<Rightarrow> 'a \<Rightarrow> status \<times> 'a"
  x_delete_dir :: "string \<Rightarrow> 'a \<Rightarrow> status \<times> 'a"
  x_is_directory :: "string \<Rightarrow> 'a \<Rightarrow> status \<times> bool"
  x_mtime :: "string \<Rightarrow> 'a \<Rightarrow> status \<times> nat"
  x_size :: "string \<Rightarrow> 'a \<Rightarrow> status \<times> nat"
  x_nr_links :: "string \<Rightarrow> 'a \<Rightarrow> status \<times> nat"
  x_rename :: "string \<Rightarrow> string \<Rightarrow> 'a \<Rightarrow> status \<times> 'a"
  x_link :: "string \<Rightarrow> string \<Rightarrow> 'a \<Rightarrow> status \<times> 'a"
  x_same :: "string \<Rightarrow> string \<Rightarrow> 'a \<Rightarrow> status \<times> bool"

record 'a fenv =
  fe_crc :: crc32c
  fe_uuid :: string
  fe_version :: string
  fe_aux :: "'a auxfs"

text \<open>
  The state extends that of the device. \<open>refs\<close> counts the references to a file other than those of the
  map of files, from open handles and from local variables; \<open>next_fid\<close> is the next free address of a
  file object. Null pointers are \<open>None\<close>.
\<close>

record ('b, 'a) zenfs = "'b zbd" +
  files :: file_map
  next_file_id :: nat
  meta_log :: "metalog option"
  sblock :: "superblock option"
  refs :: "fid \<Rightarrow> nat"
  next_fid :: fid
  run_gc_worker :: bool
  buffers :: buffer_pool
  aux :: 'a

definition new_ZenFS :: "'b zbd \<Rightarrow> 'a \<Rightarrow> fid \<Rightarrow> buffer_pool \<Rightarrow> ('b, 'a) zenfs" where
  "new_ZenFS d a n p = zbd.extend d \<lparr>files = [], next_file_id = 1, meta_log = None, sblock = None, refs = (\<lambda>_. 0), next_fid = n,
     run_gc_worker = False, buffers = p, aux = a\<rparr>"

text \<open>A file object lives as long as it is in the map or referenced; its destructor clears the extents.\<close>

definition expire :: "fid \<Rightarrow> ('b, 'a) zenfs \<Rightarrow> ('b, 'a) zenfs" where
  "expire f s = (if f \<in> snd ` set (files s) \<or> 0 < refs s f then s else ClearExtents f s)"

definition hold_file :: "fid \<Rightarrow> ('b, 'a) zenfs \<Rightarrow> ('b, 'a) zenfs" where
  "hold_file f s = s\<lparr>refs := (refs s)(f := refs s f + 1)\<rparr>"

definition drop_file :: "fid \<Rightarrow> ('b, 'a) zenfs \<Rightarrow> ('b, 'a) zenfs" where
  "drop_file f s = expire f (s\<lparr>refs := (refs s)(f := refs s f - 1)\<rparr>)"

definition ToAuxPath :: "('b, 'a) zenfs \<Rightarrow> string \<Rightarrow> string option" where
  "ToAuxPath s path = map_option (\<lambda>b. GetAuxFsPath b @ path) (sblock s)"

section \<open>Writing metadata\<close>

abbreviation (input) kCompleteFilesSnapshot :: nat where "kCompleteFilesSnapshot \<equiv> 1"
abbreviation (input) kFileUpdate :: nat where "kFileUpdate \<equiv> 2"
abbreviation (input) kFileDeletion :: nat where "kFileDeletion \<equiv> 3"
abbreviation (input) kEndRecord :: nat where "kEndRecord \<equiv> 4"
abbreviation (input) kFileReplace :: nat where "kFileReplace \<equiv> 5"

definition FS_EncodeSnapshotTo :: "('b, 'a) zenfs \<Rightarrow> string" where
  "FS_EncodeSnapshotTo s = PutLengthPrefixedSlice (PutFixed32 [] kCompleteFilesSnapshot)
     (foldl (\<lambda>out (name, f). PutLengthPrefixedSlice out (EncodeSnapshotTo (file_at s f) [])) [] (files s))"

definition EncodeFileDeletionTo :: "zonefile \<Rightarrow> string \<Rightarrow> string" where
  "EncodeFileDeletionTo x linkf = PutLengthPrefixedSlice (PutFixed32 [] kFileDeletion)
     (PutLengthPrefixedSlice (PutFixed64 [] (f_file_id x)) linkf)"

definition WriteSnapshotLocked :: "'b env \<Rightarrow> 'a fenv \<Rightarrow> metalog \<Rightarrow> ('b, 'a) zenfs \<Rightarrow> (status \<times> ('b, 'a) zenfs) option" where
  "WriteSnapshotLocked E F l s = Option.bind (AddRecord E (fe_crc F) l (FS_EncodeSnapshotTo s) s) (\<lambda>(st, s).
     Some (st, if st = OK then foldl (\<lambda>s (name, f). MetadataSynced f s) s (files s) else s))"

definition WriteEndRecord :: "'b env \<Rightarrow> 'a fenv \<Rightarrow> metalog \<Rightarrow> ('b, 'a) zenfs \<Rightarrow> (status \<times> ('b, 'a) zenfs) option" where
  "WriteEndRecord E F l s = AddRecord E (fe_crc F) l (PutFixed32 [] kEndRecord) s"

text \<open>
  Rolling to a new metadata zone: the old log is ended and its zone finished, the new one starts with
  a superblock and a snapshot, and then the old zone is reset.
\<close>

definition end_old_log :: "'b env \<Rightarrow> 'a fenv \<Rightarrow> metalog \<Rightarrow> ('b, 'a) zenfs \<Rightarrow> ('b, 'a) zenfs option" where
  "end_old_log E F old s = Option.bind
     (if GetCapacityLeft (zone_at s (ml_zone old)) \<noteq> 0 then WriteEndRecord E F old s else Some (OK, s)) (\<lambda>(_, s).
     Some (if GetCapacityLeft (zone_at s (ml_zone old)) \<noteq> 0 then snd (Zone_Finish E (ml_zone old) s) else s))"

definition begin_new_log :: "'b env \<Rightarrow> 'a fenv \<Rightarrow> metalog \<Rightarrow> metalog \<Rightarrow> ('b, 'a) zenfs \<Rightarrow> (status \<times> ('b, 'a) zenfs) option" where
  "begin_new_log E F old new_log s = (case sblock s of None \<Rightarrow> None
     | Some b \<Rightarrow>
         let (super_string, b) = Superblock_EncodeTo b; s = s\<lparr>sblock := Some b\<rparr> in
         Option.bind (AddRecord E (fe_crc F) new_log super_string s) (\<lambda>(st, s).
           if st \<noteq> OK then Some (IOError, delete_ZenMetaLog old s)
           else Option.bind (WriteSnapshotLocked E F new_log s) (\<lambda>(st, s).
             let s = (if st = OK then snd (Zone_Reset E (ml_zone old) s) else s) in Some (st, delete_ZenMetaLog old s))))"

definition RollMetaZoneLocked :: "'b env \<Rightarrow> 'a fenv \<Rightarrow> ('b, 'a) zenfs \<Rightarrow> (status \<times> ('b, 'a) zenfs) option" where
  "RollMetaZoneLocked E F s = (let ((st, zone), s) = AllocateMetaZone E s in
     if st \<noteq> OK then Some (st, s) else case zone of None \<Rightarrow> Some (NoSpace, s)
     | Some z \<Rightarrow> (case meta_log s of None \<Rightarrow> None
       | Some old \<Rightarrow> let new_log = new_ZenMetaLog z s in
           Option.bind (end_old_log E F old (s\<lparr>meta_log := Some new_log\<rparr>)) (begin_new_log E F old new_log)))"

definition PersistSnapshot :: "'b env \<Rightarrow> 'a fenv \<Rightarrow> metalog \<Rightarrow> ('b, 'a) zenfs \<Rightarrow> (status \<times> ('b, 'a) zenfs) option" where
  "PersistSnapshot E F l s = Option.bind (WriteSnapshotLocked E F l s) (\<lambda>(st, s).
     if st = NoSpace then RollMetaZoneLocked E F s else Some (st, s))"

definition PersistRecord :: "'b env \<Rightarrow> 'a fenv \<Rightarrow> string \<Rightarrow> ('b, 'a) zenfs \<Rightarrow> (status \<times> ('b, 'a) zenfs) option" where
  "PersistRecord E F record s = (case meta_log s of None \<Rightarrow> None
     | Some l \<Rightarrow> Option.bind (AddRecord E (fe_crc F) l record s) (\<lambda>(st, s).
         if st = NoSpace then RollMetaZoneLocked E F s else Some (st, s)))"

text \<open>
  The message for a deleted file and the one of \<open>Persist\<close> mention the name of the file: for a file
  without any name the behaviour is undefined.
\<close>

definition SyncFileMetadataNoLock :: "'b env \<Rightarrow> 'a fenv \<Rightarrow> bool \<Rightarrow> fid \<Rightarrow> ('b, 'a) zenfs \<Rightarrow> (status \<times> ('b, 'a) zenfs) option" where
  "SyncFileMetadataNoLock E F replace f s = (if f_is_deleted (file_at s f) then map_option (\<lambda>_. (OK, s)) (ZoneFile_GetFilename (file_at s f)) else
     let s = (if replace then s else file_upd f (\<lambda>x. x\<lparr>f_m_time := be_time E (be s)\<rparr>) s);
         output = PutFixed32 [] (if replace then kFileReplace else kFileUpdate)
     in Option.bind (PersistRecord E F (PutLengthPrefixedSlice output (EncodeUpdateTo (file_at s f) [])) s) (\<lambda>(st, s).
       Some (st, if st = OK then MetadataSynced f s else s)))"

definition SyncFileMetadata :: "'b env \<Rightarrow> 'a fenv \<Rightarrow> bool \<Rightarrow> fid \<Rightarrow> ('b, 'a) zenfs \<Rightarrow> (status \<times> ('b, 'a) zenfs) option" where
  "SyncFileMetadata E F replace f s = SyncFileMetadataNoLock E F replace f s"

text \<open>\<open>ZenFSMetadataWriter::Persist\<close>, what the files of this file system call.\<close>

definition fs_persist :: "'b env \<Rightarrow> 'a fenv \<Rightarrow> fid \<Rightarrow> ('b, 'a) zenfs \<Rightarrow> (status \<times> ('b, 'a) zenfs) option" where
  "fs_persist E F f s = Option.bind (ZoneFile_GetFilename (file_at s f)) (\<lambda>_. SyncFileMetadata E F False f s)"

definition SyncFileExtents :: "'b env \<Rightarrow> 'a fenv \<Rightarrow> fid \<Rightarrow> extent list \<Rightarrow> ('b, 'a) zenfs \<Rightarrow> (status \<times> ('b, 'a) zenfs) option" where
  "SyncFileExtents E F f new_extents s = (let old_extents = f_extents (file_at s f) in
     Option.bind (SyncFileMetadata E F True f (MetadataUnsynced f (ReplaceExtentList f new_extents s))) (\<lambda>(st, s).
       if st \<noteq> OK then Some (st, s)
       else if length old_extents < length new_extents then None
       else Some (OK, s\<lparr>zone_at := fold (\<lambda>(old, new) Z. if e_start old \<noteq> e_start new then uncharge (e_zone old) (e_length old) Z else Z)
         (zip old_extents new_extents) (zone_at s)\<rparr>)))"

fun repair_loop :: "'b env \<Rightarrow> file_map \<Rightarrow> ('b, 'a) zenfs \<Rightarrow> (status \<times> ('b, 'a) zenfs) option" where
  "repair_loop E [] s = Some (OK, s)"
| "repair_loop E (e # es) s = (if HasActiveExtent (file_at s (snd e))
     then Option.bind (Recover E (snd e) s) (\<lambda>(st, s). if st \<noteq> OK then Some (st, s) else repair_loop E es s)
     else repair_loop E es s)"

definition Repair :: "'b env \<Rightarrow> ('b, 'a) zenfs \<Rightarrow> (status \<times> ('b, 'a) zenfs) option" where
  "Repair E s = repair_loop E (files s) s"

definition ClearFiles :: "('b, 'a) zenfs \<Rightarrow> ('b, 'a) zenfs" where
  "ClearFiles s = fold (\<lambda>e. expire (snd e)) (files s) (s\<lparr>files := []\<rparr>)"

definition delete_ZenFS :: "('b, 'a) zenfs \<Rightarrow> ('b, 'a) zenfs" where
  "delete_ZenFS s = (let s = s\<lparr>run_gc_worker := False\<rparr>;
     s = (case meta_log s of None \<Rightarrow> s | Some l \<Rightarrow> delete_ZenMetaLog l (s\<lparr>meta_log := None\<rparr>)) in ClearFiles s)"

section \<open>Metadata and data do not interfere\<close>

definition meta_inv :: "'b env \<Rightarrow> ('b, 'a) zenfs \<Rightarrow> bool" where
  "meta_inv E s \<longleftrightarrow> (\<forall>l. meta_log s = Some l \<longrightarrow> ml_zone l \<in> set (meta_zones s)) \<and>
     (\<forall>z \<in> set (meta_zones s). zone_wf E (zone_at s z))"

text \<open>What persisting metadata leaves of the file system's own state.\<close>

definition fs_same :: "('b, 'a) zenfs \<Rightarrow> ('b, 'a) zenfs \<Rightarrow> bool" where
  "fs_same s s' \<longleftrightarrow> files s' = files s \<and> next_file_id s' = next_file_id s \<and> refs s' = refs s \<and> next_fid s' = next_fid s \<and>
     run_gc_worker s' = run_gc_worker s \<and> buffers s' = buffers s \<and> aux s' = aux s \<and>
     (sblock s' = None \<longleftrightarrow> sblock s = None) \<and> (meta_log s' = None \<longleftrightarrow> meta_log s = None)"

definition meta_step :: "'b env \<Rightarrow> ('b \<Rightarrow> nat \<Rightarrow> char) \<Rightarrow> ('b, 'a) zenfs \<Rightarrow> ('b, 'a) zenfs \<Rightarrow> bool" where
  "meta_step E cont s s' \<longleftrightarrow> io_frame E cont s s' \<and> good E s' \<and> meta_inv E s' \<and> fs_same s s'"

lemma io_frame_refl: "bytes_written s < 2 ^ 64 \<Longrightarrow> io_frame E cont s s"
  by (simp add: io_frame_def)

lemma io_frame_trans: "io_frame E cont s s1 \<Longrightarrow> io_frame E cont s1 s2 \<Longrightarrow> io_frame E cont s s2"
  by (simp add: io_frame_def)

lemma io_frame_good: "good E s \<Longrightarrow> io_frame E cont s s' \<Longrightarrow> good E s'"
proof -
  assume g: "good E s" and fr: "io_frame E cont s s'"
  have "apart E s' = apart E s" using fr by (intro apart_cong) (simp_all add: io_frame_def)
  then show ?thesis using g fr by (simp add: good_def io_frame_def dev_inv_def used_ok_def IsUsed_def)
qed

lemma meta_step_trans: "meta_step E cont s s1 \<Longrightarrow> meta_step E cont s1 s2 \<Longrightarrow> meta_step E cont s s2"
  unfolding meta_step_def fs_same_def using io_frame_trans by auto

lemma meta_step_refl: "good E s \<Longrightarrow> meta_inv E s \<Longrightarrow> meta_step E cont s s"
  by (simp add: meta_step_def io_frame_refl good_def fs_same_def)

lemma meta_stepD: "meta_step E cont s s' \<Longrightarrow> good E s' \<and> meta_inv E s'"
  by (simp add: meta_step_def)

lemma meta_chain:
  assumes "meta_step E cont s x" "good E x \<Longrightarrow> meta_inv E x \<Longrightarrow> meta_zones x = meta_zones s \<Longrightarrow> meta_step E cont x y"
  shows "meta_step E cont s y"
proof -
  have "good E x" "meta_inv E x" "meta_zones x = meta_zones s" using assms(1) by (simp_all add: meta_step_def io_frame_def)
  then show ?thesis using meta_step_trans [OF assms(1) assms(2)] by blast
qed

text \<open>A step that touches one metadata zone only.\<close>

lemma meta_zone_step:
  assumes "good E s" "meta_inv E s" "z \<in> set (meta_zones s)" "n < 2 ^ 64" "zone_wf E x"
    and "z_start x = z_start (zone_at s z)" "z_used_capacity x = z_used_capacity (zone_at s z)"
    and "\<And>a. a < z_start (zone_at s z) \<or> z_start (zone_at s z) + zone_sz E \<le> a \<Longrightarrow> cont b a = cont (be s) a"
  shows "meta_step E cont s (s\<lparr>be := b, bytes_written := n, zone_at := (zone_at s)(z := x)\<rparr>)"
proof -
  let ?s = "s\<lparr>be := b, bytes_written := n, zone_at := (zone_at s)(z := x)\<rparr>"
  have ap: "apart E s" using assms(1) by (simp add: good_def)
  then have "y \<noteq> z" if "y \<in> set (io_zones s)" for y using that assms(3) by (auto simp: apart_def)
  moreover have "cont b a = cont (be s) a"
    if "y \<in> set (io_zones s)" "z_start (zone_at s y) \<le> a" "a < z_start (zone_at s y) + zone_sz E" for y a
  proof (rule assms(8))
    have "y \<noteq> z" using that(1) ap assms(3) by (auto simp: apart_def)
    then have "z_start (zone_at s z) + zone_sz E \<le> z_start (zone_at s y) \<or> z_start (zone_at s y) + zone_sz E \<le> z_start (zone_at s z)"
      using that(1) ap assms(3) by (auto simp: apart_def)
    then show "a < z_start (zone_at s z) \<or> z_start (zone_at s z) + zone_sz E \<le> a" using that by linarith
  qed
  ultimately have "io_frame E cont s ?s" using assms(4,6,7) by (auto simp: io_frame_def)
  moreover have "meta_inv E ?s" using assms(2,5) by (simp add: meta_inv_def)
  ultimately show ?thesis using io_frame_good assms(1) by (simp add: meta_step_def fs_same_def)
qed

text \<open>Steps on the file system's own state and on the bookkeeping of files.\<close>

lemma meta_file_step:
  assumes "good E s" "meta_inv E s" "\<And>g. sync_blank (F g) = sync_blank (file_at s g)"
  shows "meta_step E cont s (s\<lparr>file_at := F\<rparr>)"
  using assms by (simp add: meta_step_def io_frame_def good_def dev_inv_def apart_def used_ok_def meta_inv_def fs_same_def)

lemma meta_log_step:
  assumes "good E s" "meta_inv E s"
  shows "ml_zone l \<in> set (meta_zones s) \<Longrightarrow> meta_log s \<noteq> None \<Longrightarrow> meta_step E cont s (s\<lparr>meta_log := Some l\<rparr>)"
    "sblock s \<noteq> None \<Longrightarrow> meta_step E cont s (s\<lparr>sblock := Some b\<rparr>)"
  using assms by (simp_all add: meta_step_def io_frame_def good_def dev_inv_def apart_def used_ok_def meta_inv_def fs_same_def)

lemma more_meta_log:
  fixes s s' :: "('b, 'a) zenfs"
  shows "zbd.more s' = zbd.more s \<Longrightarrow> meta_log s' = meta_log s"
  by (cases s, cases s') simp

context zoned_backend
begin

lemma add_record_step:
  assumes "good E s" "meta_inv E s" "ml_zone l \<in> set (meta_zones s)" "AddRecord E crc l r s = Some (st, s')"
  shows "meta_step E cont s s'"
proof (cases "z_capacity (zone_at s (ml_zone l)) < length (record_buffer E crc r)")
  case True
  then show ?thesis using assms meta_step_refl by (auto simp: AddRecord_def Zone_Append_def)
next
  case False
  let ?z = "ml_zone l" let ?d = "record_buffer E crc r"
  have wf: "zone_wf E (zone_at s ?z)" and bw: "bytes_written s < 2 ^ 64" using assms(1-3) by (auto simp: meta_inv_def good_def)
  have "length ?d \<le> z_capacity (zone_at s ?z)" using False by simp
  from append_loop_returns [OF wf this bw] obtain k b where a: "s' = advanced ?z k b s" "k \<le> length ?d"
    and post: "k = length ?d \<and> cont b = overwrite (z_wp (zone_at s ?z)) ?d (cont (be s)) \<or>
      (\<forall>a. a < z_wp (zone_at s ?z) + k \<or> z_wp (zone_at s ?z) + length ?d \<le> a \<longrightarrow>
        cont b a = overwrite (z_wp (zone_at s ?z)) (take k ?d) (cont (be s)) a)"
    using False assms(4) by (auto simp: AddRecord_def Zone_Append_def)
  have c: "cont b a = cont (be s) a" if "a < z_wp (zone_at s ?z) \<or> z_wp (zone_at s ?z) + length ?d \<le> a" for a
    using post a(2) that by (auto simp: overwrite_def)
  have "z_start (zone_at s ?z) \<le> z_wp (zone_at s ?z)" "z_wp (zone_at s ?z) + length ?d \<le> z_start (zone_at s ?z) + zone_sz E"
    using wf zone_wf_capacity [OF wf] False by (auto simp: zone_wf_def)
  then have "cont b x = cont (be s) x" if "x < z_start (zone_at s ?z) \<or> z_start (zone_at s ?z) + zone_sz E \<le> x" for x
    using that by (intro c) linarith
  moreover define x where "x = (zone_at s ?z)\<lparr>z_wp := z_wp (zone_at s ?z) + k, z_capacity := z_capacity (zone_at s ?z) - k\<rparr>"
  moreover have "zone_wf E x" unfolding x_def using False a(2) by (intro zone_wf_advance [OF wf]) simp
  ultimately have "meta_step E cont s (s\<lparr>be := b, bytes_written := (bytes_written s + k) mod 2 ^ 64, zone_at := (zone_at s)(?z := x)\<rparr>)"
    using assms(1-3) by (intro meta_zone_step) simp_all
  then show ?thesis by (simp add: a(1) advanced_def x_def)
qed

lemma finish_step:
  assumes "good E s" "meta_inv E s" "z \<in> set (meta_zones s)"
  shows "meta_step E cont s (snd (Zone_Finish E z s))"
proof -
  have wf: "zone_wf E (zone_at s z)" using assms by (simp add: meta_inv_def)
  obtain st b where f: "be_finish E (z_start (zone_at s z)) (be s) = (st, b)" by fastforce
  have c: "cont b = cont (be s)" using finish_frame [OF f] .
  let ?x = "(zone_at s z)\<lparr>z_capacity := 0, z_wp := add64 (z_start (zone_at s z)) (zone_sz E), z_finish_count := cast32 (z_finish_count (zone_at s z) + 1)\<rparr>"
  have "zone_wf E ?x" using wf by (simp add: zone_wf_def add64_small)
  then have "meta_step E cont s (s\<lparr>be := b, bytes_written := bytes_written s, zone_at := (zone_at s)(z := ?x)\<rparr>)"
    using assms c by (intro meta_zone_step) (simp_all add: good_def)
  moreover have "meta_step E cont s (s\<lparr>be := b, bytes_written := bytes_written s, zone_at := (zone_at s)(z := zone_at s z)\<rparr>)"
    using assms c wf by (intro meta_zone_step) (simp_all add: good_def)
  ultimately show ?thesis using f by (cases "st = OK") (simp_all add: Zone_Finish_def Let_def)
qed

lemma reset_step:
  assumes "good E s" "meta_inv E s" "z \<in> set (meta_zones s)"
  shows "meta_step E cont s (snd (Zone_Reset E z s))"
proof -
  have wf: "zone_wf E (zone_at s z)" using assms by (simp add: meta_inv_def)
  obtain st off cap b where f: "be_reset E (z_start (zone_at s z)) (be s) = ((st, off, cap), b)" by (metis surj_pair)
  note fr = reset_frame [OF f]
  let ?x = "(if off then (zone_at s z)\<lparr>z_capacity := 0\<rparr> else (zone_at s z)\<lparr>z_max_capacity := cap, z_capacity := cap\<rparr>)
    \<lparr>z_wp := z_start (zone_at s z), z_lifetime := WLTH_NOT_SET, z_reset_count := cast32 (z_reset_count (zone_at s z) + 1)\<rparr>"
  show ?thesis
  proof (cases "st = OK")
    case True
    have "zone_wf E ?x" using wf reset_capacity [OF f True] by (auto simp: zone_wf_def)
    then have "meta_step E cont s (s\<lparr>be := b, bytes_written := bytes_written s, zone_at := (zone_at s)(z := ?x)\<rparr>)"
      using assms fr by (intro meta_zone_step) (auto simp: good_def)
    then show ?thesis using f True by (cases off) (simp_all add: Zone_Reset_def Let_def)
  next
    case False
    have "meta_step E cont s (s\<lparr>be := b, bytes_written := bytes_written s, zone_at := (zone_at s)(z := zone_at s z)\<rparr>)"
      using assms fr wf by (intro meta_zone_step) (auto simp: good_def)
    then show ?thesis using f False by (simp add: Zone_Reset_def Let_def)
  qed
qed

lemma busy_step:
  assumes "good E s" "meta_inv E s" "z \<in> set (meta_zones s)"
  shows "meta_step E cont s (zone_upd z (\<lambda>x. x\<lparr>z_busy := v\<rparr>) s)"
proof -
  have "zone_wf E ((zone_at s z)\<lparr>z_busy := v\<rparr>)" using assms by (simp add: meta_inv_def zone_wf_def)
  then have "meta_step E cont s (s\<lparr>be := be s, bytes_written := bytes_written s, zone_at := (zone_at s)(z := (zone_at s z)\<lparr>z_busy := v\<rparr>)\<rparr>)"
    using assms by (intro meta_zone_step) (simp_all add: good_def)
  then show ?thesis by simp
qed

lemma release_step:
  assumes "good E s" "meta_inv E s" "z \<in> set (meta_zones s)"
  shows "meta_step E cont s (snd (Release z s))" "meta_step E cont s (snd (Acquire z s))" "meta_step E cont s (snd (CheckRelease z s))"
  using busy_step [OF assms] meta_step_refl [OF assms(1,2)] by (simp_all add: Release_def Acquire_def CheckRelease_def)

lemma alloc_meta_step:
  assumes "good E s" "meta_inv E s" "set zs \<subseteq> set (meta_zones s)" "alloc_meta_loop E zs s = ((st, out), s')"
  shows "meta_step E cont s s' \<and> (\<forall>z. out = Some z \<longrightarrow> z \<in> set (meta_zones s))"
  using assms
proof (induction zs arbitrary: s)
  case Nil
  then show ?case by (simp add: meta_step_refl)
next
  case (Cons z zs)
  have z: "z \<in> set (meta_zones s)" using Cons.prems(3) by simp
  obtain got s1 where a: "Acquire z s = (got, s1)" by fastforce
  have m1: "meta_step E cont s s1" using release_step(2) [OF Cons.prems(1,2) z] a by simp
  then have g1: "good E s1" "meta_inv E s1" "meta_zones s1 = meta_zones s" by (simp_all add: meta_step_def io_frame_def)
  have rest: ?case if "meta_step E cont s s2" "alloc_meta_loop E zs s2 = ((st, out), s')" for s2
    using Cons.IH [of s2] that meta_step_trans [OF that(1)] Cons.prems(3) by (auto simp: meta_step_def io_frame_def)
  show ?case
  proof (cases "got \<and> \<not> IsUsed (zone_at s1 z)")
    case False
    then show ?thesis using rest [OF m1] Cons.prems(4) a by auto
  next
    case True
    obtain st2 s2 where r: "(if \<not> IsEmpty (zone_at s1 z) then Zone_Reset E z s1 else (OK, s1)) = (st2, s2)" by fastforce
    have "meta_step E cont s1 s2" using reset_step [OF g1(1,2), of z] meta_step_refl [OF g1(1,2)] r z g1(3) by (auto split: if_splits)
    then have m2: "meta_step E cont s s2" by (rule meta_step_trans [OF m1])
    then have g2: "good E s2" "meta_inv E s2" "meta_zones s2 = meta_zones s" by (simp_all add: meta_step_def io_frame_def)
    show ?thesis
    proof (cases "st2 = OK")
      case True
      then show ?thesis using Cons.prems(4) a r m2 z \<open>got \<and> _\<close> by auto
    next
      case False
      obtain st3 s3 where c: "CheckRelease z s2 = (st3, s3)" by fastforce
      have m3: "meta_step E cont s s3" using release_step(3) [OF g2(1,2)] c z g2(3) meta_step_trans [OF m2] by fastforce
      show ?thesis using rest [OF m3] m3 Cons.prems(4) a r c False \<open>got \<and> _\<close> by (auto split: if_splits)
    qed
  qed
qed

lemma synced_step:
  assumes "good E s" "meta_inv E s"
  shows "meta_step E cont s (MetadataSynced f s)" "meta_step E cont s (foldl (\<lambda>s (name, f). MetadataSynced f s) s fs)"
proof -
  have one: "meta_step E cont s (MetadataSynced f s)" if "good E s" "meta_inv E s" for s f
    unfolding MetadataSynced_def by (rule meta_file_step [OF that]) (simp add: sync_blank_def)
  show "meta_step E cont s (MetadataSynced f s)" by (rule one [OF assms])
  show "meta_step E cont s (foldl (\<lambda>s (name, f). MetadataSynced f s) s fs)"
    using assms
  proof (induction fs arbitrary: s)
    case (Cons e fs)
    show ?case using meta_step_trans [OF one [OF Cons.prems, of "snd e"]] Cons.IH meta_stepD [OF one [OF Cons.prems, of "snd e"]]
      by (cases e) auto
  qed (simp add: meta_step_refl)
qed

lemma snapshot_step:
  assumes "good E s" "meta_inv E s" "ml_zone l \<in> set (meta_zones s)" "WriteSnapshotLocked E F l s = Some (st, s')"
  shows "meta_step E cont s s'"
proof -
  obtain st1 s1 where a: "AddRecord E (fe_crc F) l (FS_EncodeSnapshotTo s) s = Some (st1, s1)"
    and s': "s' = (if st1 = OK then foldl (\<lambda>s (name, f). MetadataSynced f s) s1 (files s1) else s1)"
    using assms(4) by (auto simp: WriteSnapshotLocked_def split: Option.bind_splits)
  show ?thesis unfolding s' by (rule meta_chain [OF add_record_step [OF assms(1-3) a]]) (simp add: synced_step meta_step_refl)
qed

lemma end_log_step:
  assumes "good E s" "meta_inv E s" "ml_zone old \<in> set (meta_zones s)" "end_old_log E F old s = Some s'"
  shows "meta_step E cont s s'"
proof -
  obtain st1 s1 where e: "(if GetCapacityLeft (zone_at s (ml_zone old)) \<noteq> 0 then WriteEndRecord E F old s else Some (OK, s)) = Some (st1, s1)"
    and s': "s' = (if GetCapacityLeft (zone_at s1 (ml_zone old)) \<noteq> 0 then snd (Zone_Finish E (ml_zone old) s1) else s1)"
    using assms(4) by (auto simp: end_old_log_def split: Option.bind_splits)
  have "meta_step E cont s s1" using e assms(1-3) meta_step_refl add_record_step by (auto simp: WriteEndRecord_def split: if_splits)
  then show ?thesis unfolding s' by (rule meta_chain) (use assms(3) in \<open>simp add: finish_step meta_step_refl\<close>)
qed

lemma begin_log_step:
  assumes "good E s" "meta_inv E s" "ml_zone old \<in> set (meta_zones s)" "ml_zone new_log \<in> set (meta_zones s)" "begin_new_log E F old new_log s = Some (st, s')"
  shows "meta_step E cont s s'"
proof -
  have del: "meta_step E cont x (delete_ZenMetaLog old x)" if "good E x" "meta_inv E x" "meta_zones x = meta_zones s" for x
    unfolding delete_ZenMetaLog_def using assms(3) that by (intro release_step) simp_all
  obtain b where b: "sblock s = Some b" using assms(5) by (auto simp: begin_new_log_def split: option.splits)
  obtain str b' where enc: "Superblock_EncodeTo b = (str, b')" by fastforce
  let ?s1 = "s\<lparr>sblock := Some b'\<rparr>"
  have m1: "meta_step E cont s ?s1" by (rule meta_log_step(2) [OF assms(1,2)]) (simp add: b)
  obtain st2 s2 where r: "AddRecord E (fe_crc F) new_log str ?s1 = Some (st2, s2)"
    using assms(5) b enc by (auto simp: begin_new_log_def split: Option.bind_splits)
  have m2: "meta_step E cont s s2" by (rule meta_chain [OF m1]) (use assms(4) in \<open>auto intro: add_record_step [OF _ _ _ r]\<close>)
  show ?thesis
  proof (cases "st2 = OK")
    case False
    then have "s' = delete_ZenMetaLog old s2" using assms(5) b enc r by (auto simp: begin_new_log_def)
    then show ?thesis using del by (auto intro: meta_chain [OF m2])
  next
    case True
    obtain st3 s3 where w: "WriteSnapshotLocked E F new_log s2 = Some (st3, s3)"
      and s': "s' = delete_ZenMetaLog old (if st3 = OK then snd (Zone_Reset E (ml_zone old) s3) else s3)"
      using assms(5) b enc r True by (auto simp: begin_new_log_def Let_def split: Option.bind_splits)
    have m3: "meta_step E cont s s3" by (rule meta_chain [OF m2]) (use assms(4) in \<open>auto intro: snapshot_step [OF _ _ _ w]\<close>)
    have "meta_step E cont s (if st3 = OK then snd (Zone_Reset E (ml_zone old) s3) else s3)"
      by (rule meta_chain [OF m3]) (use assms(3) in \<open>simp add: reset_step meta_step_refl\<close>)
    then show ?thesis unfolding s' by (rule meta_chain) (simp add: del)
  qed
qed

lemma roll_step:
  assumes "good E s" "meta_inv E s" "RollMetaZoneLocked E F s = Some (st, s')"
  shows "meta_step E cont s s'"
proof -
  obtain st1 out s1 where a: "AllocateMetaZone E s = ((st1, out), s1)" by (metis surj_pair)
  have m1: "meta_step E cont s s1" and out: "\<And>z. out = Some z \<Longrightarrow> z \<in> set (meta_zones s)"
    using alloc_meta_step [OF assms(1,2), of "meta_zones s"] a by (auto simp: AllocateMetaZone_def)
  show ?thesis
  proof (cases "st1 = OK \<and> out \<noteq> None")
    case False
    then show ?thesis using m1 assms(3) a by (auto simp: RollMetaZoneLocked_def split: option.splits if_splits)
  next
    case True
    then obtain z where z: "out = Some z" "z \<in> set (meta_zones s)" using out by blast
    define new_log where "new_log = new_ZenMetaLog z s1"
    have lz: "ml_zone new_log = z" by (simp add: new_log_def new_ZenMetaLog_def)
    obtain old s2 where old: "meta_log s1 = Some old" and e: "end_old_log E F old (s1\<lparr>meta_log := Some new_log\<rparr>) = Some s2"
      and n: "begin_new_log E F old new_log s2 = Some (st, s')"
      using assms(3) a z True by (auto simp: RollMetaZoneLocked_def new_log_def Let_def split: option.splits Option.bind_splits)
    have oz: "ml_zone old \<in> set (meta_zones s)" using m1 old by (auto simp: meta_step_def meta_inv_def io_frame_def)
    have "meta_step E cont s (s1\<lparr>meta_log := Some new_log\<rparr>)" by (rule meta_chain [OF m1]) (simp add: meta_log_step lz z(2) old)
    then have "meta_step E cont s s2" by (rule meta_chain) (use oz in \<open>auto intro: end_log_step [OF _ _ _ e]\<close>)
    then show ?thesis by (rule meta_chain) (use oz lz z in \<open>auto intro: begin_log_step [OF _ _ _ _ n]\<close>)
  qed
qed

lemma persist_record_step:
  assumes "good E s" "meta_inv E s" "PersistRecord E F r s = Some (st, s')"
  shows "meta_step E cont s s'"
proof -
  obtain l st1 s1 where l: "meta_log s = Some l" and a: "AddRecord E (fe_crc F) l r s = Some (st1, s1)"
    using assms(3) by (auto simp: PersistRecord_def split: option.splits Option.bind_splits)
  have m1: "meta_step E cont s s1" using assms(1,2) l by (intro add_record_step [OF _ _ _ a]) (auto simp: meta_inv_def)
  show ?thesis
  proof (cases "st1 = NoSpace")
    case True
    then have "RollMetaZoneLocked E F s1 = Some (st, s')" using assms(3) l a by (simp add: PersistRecord_def)
    then show ?thesis by (intro meta_chain [OF m1]) (rule roll_step)
  next
    case False
    then show ?thesis using assms(3) l a m1 by (simp add: PersistRecord_def)
  qed
qed

lemma sync_metadata_step:
  assumes "good E s" "meta_inv E s" "SyncFileMetadataNoLock E F replace f s = Some (st, s')"
  shows "meta_step E cont s s'"
proof (cases "f_is_deleted (file_at s f)")
  case True
  then show ?thesis using assms meta_step_refl by (auto simp: SyncFileMetadataNoLock_def)
next
  case False
  define s1 where "s1 = (if replace then s else file_upd f (\<lambda>x. x\<lparr>f_m_time := be_time E (be s)\<rparr>) s)"
  have "meta_step E cont s (file_upd f (\<lambda>x. x\<lparr>f_m_time := be_time E (be s)\<rparr>) s)"
    by (rule meta_file_step [OF assms(1,2)]) (simp add: sync_blank_def)
  then have m1: "meta_step E cont s s1" using meta_step_refl [OF assms(1,2)] by (simp add: s1_def)
  obtain r st2 s2 where p: "PersistRecord E F r s1 = Some (st2, s2)" and s': "s' = (if st2 = OK then MetadataSynced f s2 else s2)"
    using assms(3) False by (auto simp: SyncFileMetadataNoLock_def s1_def Let_def split: Option.bind_splits)
  have "meta_step E cont s s2" by (rule meta_chain [OF m1]) (rule persist_record_step [OF _ _ p])
  then show ?thesis unfolding s' by (rule meta_chain) (simp add: synced_step meta_step_refl)
qed

text \<open>With a log and a superblock every one of these steps returns.\<close>

lemma add_record_returns:
  assumes "good E s" "meta_inv E s" "ml_zone l \<in> set (meta_zones s)"
  shows "\<exists>st s'. AddRecord E crc l r s = Some (st, s')"
proof -
  have "zone_wf E (zone_at s (ml_zone l))" "bytes_written s < 2 ^ 64" using assms by (auto simp: meta_inv_def good_def)
  from append_loop_returns [OF this(1) _ this(2), of "record_buffer E crc r"] show ?thesis
    by (cases "z_capacity (zone_at s (ml_zone l)) < length (record_buffer E crc r)") (auto simp: AddRecord_def Zone_Append_def)
qed

lemma snapshot_returns:
  assumes "good E s" "meta_inv E s" "ml_zone l \<in> set (meta_zones s)"
  shows "\<exists>st s'. WriteSnapshotLocked E F l s = Some (st, s')"
  using add_record_returns [OF assms, of "fe_crc F" "FS_EncodeSnapshotTo s"] by (auto simp: WriteSnapshotLocked_def)

lemma end_log_returns:
  assumes "good E s" "meta_inv E s" "ml_zone old \<in> set (meta_zones s)"
  shows "\<exists>s'. end_old_log E F old s = Some s'"
  using add_record_returns [OF assms, of "fe_crc F" "PutFixed32 [] kEndRecord"] by (auto simp: end_old_log_def WriteEndRecord_def)

lemma begin_log_returns:
  assumes "good E s" "meta_inv E s" "ml_zone l \<in> set (meta_zones s)" "sblock s \<noteq> None"
  shows "\<exists>st s'. begin_new_log E F old l s = Some (st, s')"
proof -
  obtain b where b: "sblock s = Some b" using assms(4) by blast
  obtain str b' where enc: "Superblock_EncodeTo b = (str, b')" by fastforce
  let ?s1 = "s\<lparr>sblock := Some b'\<rparr>"
  have g1: "good E ?s1" "meta_inv E ?s1" "meta_zones ?s1 = meta_zones s"
    using meta_stepD [OF meta_log_step(2) [OF assms(1,2,4)]] by auto
  obtain st2 s2 where r: "AddRecord E (fe_crc F) l str ?s1 = Some (st2, s2)"
    using add_record_returns [OF g1(1,2), of l "fe_crc F" str] assms(3) g1(3) by auto
  have "meta_step E cont ?s1 s2" using add_record_step [OF g1(1,2) _ r] assms(3) g1(3) by simp
  then obtain st3 s3 where "WriteSnapshotLocked E F l s2 = Some (st3, s3)"
    using snapshot_returns [of s2 l F] assms(3) g1(3) by (auto simp: meta_step_def io_frame_def)
  then show ?thesis using b enc r by (auto simp: begin_new_log_def Let_def)
qed

lemma roll_returns:
  assumes "good E s" "meta_inv E s" "meta_log s \<noteq> None" "sblock s \<noteq> None"
  shows "\<exists>st s'. RollMetaZoneLocked E F s = Some (st, s')"
proof -
  obtain st1 out s1 where a: "AllocateMetaZone E s = ((st1, out), s1)" by (metis surj_pair)
  have m1: "meta_step E cont s s1" and out: "\<And>z. out = Some z \<Longrightarrow> z \<in> set (meta_zones s)"
    using alloc_meta_step [OF assms(1,2), of "meta_zones s"] a by (auto simp: AllocateMetaZone_def)
  show ?thesis
  proof (cases "st1 = OK \<and> out \<noteq> None")
    case False
    then show ?thesis using a by (auto simp: RollMetaZoneLocked_def split: option.split)
  next
    case True
    then obtain z where z: "out = Some z" "z \<in> set (meta_zones s)" using out by blast
    define l where "l = new_ZenMetaLog z s1"
    have lz: "ml_zone l = z" by (simp add: l_def new_ZenMetaLog_def)
    obtain old where old: "meta_log s1 = Some old" using m1 assms(3) by (auto simp: meta_step_def fs_same_def)
    have oz: "ml_zone old \<in> set (meta_zones s)" using m1 old by (auto simp: meta_step_def meta_inv_def io_frame_def)
    let ?s2 = "s1\<lparr>meta_log := Some l\<rparr>"
    have m2: "meta_step E cont s ?s2" by (rule meta_chain [OF m1]) (simp add: meta_log_step lz z(2) old)
    obtain s3 where e: "end_old_log E F old ?s2 = Some s3"
      using end_log_returns [of ?s2 old F] meta_stepD [OF m2] oz m1 by (auto simp: meta_step_def io_frame_def)
    have "meta_step E cont s s3" by (rule meta_chain [OF m2]) (use oz in \<open>auto intro: end_log_step [OF _ _ _ e]\<close>)
    then obtain st s' where "begin_new_log E F old l s3 = Some (st, s')"
      using begin_log_returns [of s3 l F old] lz z(2) assms(4) by (auto simp: meta_step_def io_frame_def fs_same_def)
    then show ?thesis using a True z old e by (auto simp: RollMetaZoneLocked_def l_def Let_def)
  qed
qed

lemma persist_record_returns:
  assumes "good E s" "meta_inv E s" "meta_log s \<noteq> None" "sblock s \<noteq> None"
  shows "\<exists>st s'. PersistRecord E F r s = Some (st, s')"
proof -
  obtain l where l: "meta_log s = Some l" "ml_zone l \<in> set (meta_zones s)" using assms(2,3) by (auto simp: meta_inv_def)
  obtain st1 s1 where a: "AddRecord E (fe_crc F) l r s = Some (st1, s1)" using add_record_returns [OF assms(1,2) l(2)] by blast
  have "meta_step E cont s s1" by (rule add_record_step [OF assms(1,2) l(2) a])
  then obtain st s' where "RollMetaZoneLocked E F s1 = Some (st, s')"
    using roll_returns [of s1 F] assms(3,4) by (auto simp: meta_step_def fs_same_def)
  then show ?thesis using l(1) a by (cases "st1 = NoSpace") (simp_all add: PersistRecord_def)
qed

lemma sync_metadata_returns:
  assumes "good E s" "meta_inv E s" "meta_log s \<noteq> None" "sblock s \<noteq> None" "f_linkfiles (file_at s f) \<noteq> []"
  shows "\<exists>st s'. SyncFileMetadataNoLock E F replace f s = Some (st, s')"
proof -
  define s1 where "s1 = (if replace then s else file_upd f (\<lambda>x. x\<lparr>f_m_time := be_time E (be s)\<rparr>) s)"
  have "meta_step E cont s (file_upd f (\<lambda>x. x\<lparr>f_m_time := be_time E (be s)\<rparr>) s)"
    by (rule meta_file_step [OF assms(1,2)]) (simp add: sync_blank_def)
  then have "meta_step E cont s s1" using meta_step_refl [OF assms(1,2)] by (simp add: s1_def)
  then have g: "good E s1" "meta_inv E s1" "meta_log s1 \<noteq> None" "sblock s1 \<noteq> None" using assms(3,4) by (auto simp: meta_step_def fs_same_def)
  define r where "r = PutLengthPrefixedSlice (PutFixed32 [] (if replace then kFileReplace else kFileUpdate)) (EncodeUpdateTo (file_at s1 f) [])"
  obtain st s' where "PersistRecord E F r s1 = Some (st, s')" using persist_record_returns [OF g] by blast
  moreover have "ZoneFile_GetFilename (file_at s f) \<noteq> None" using assms(5) by (simp add: ZoneFile_GetFilename_def split: list.splits)
  ultimately show ?thesis unfolding SyncFileMetadataNoLock_def s1_def [symmetric] Let_def r_def by auto
qed

text \<open>The file system fulfils the contract the files rely on.\<close>

lemma fs_metadata_writer: "metadata_writer E cont (fs_persist E F) (meta_inv E)"
proof unfold_locales
  show "io_frame E cont s s' \<and> meta_inv E s'" if "meta_inv E s" "good E s" "fs_persist E F f s = Some (st, s')" for s f st s'
    using sync_metadata_step [OF that(2,1)] that(3) by (auto simp: fs_persist_def SyncFileMetadata_def meta_step_def split: Option.bind_splits)
  show "meta_inv E s'" if "meta_inv E s" "meta_frame s s'" for s s' :: "('b, 'a) zenfs"
    using that more_meta_log [of s' s] by (simp add: meta_inv_def meta_frame_def)
qed

end

interpretation mem_fs: metadata_writer mem_env mem_cont "fs_persist mem_env F" "meta_inv mem_env" for F
  by (rule mem.fs_metadata_writer)

section \<open>A small file system\<close>

definition null_aux :: "unit auxfs" where
  "null_aux = \<lparr>x_open = (\<lambda>_ a. (NotFound, a)), x_file_exists = (\<lambda>_ _. NotFound), x_delete_file = (\<lambda>_ a. (NotFound, a)),
     x_get_children = (\<lambda>_ _. (OK, [])), x_create_dir = (\<lambda>_ a. (OK, a)), x_create_dir_if_missing = (\<lambda>_ a. (OK, a)),
     x_delete_dir = (\<lambda>_ a. (OK, a)), x_is_directory = (\<lambda>_ _. (OK, True)), x_mtime = (\<lambda>_ _. (NotFound, 0)),
     x_size = (\<lambda>_ _. (NotFound, 0)), x_nr_links = (\<lambda>_ _. (NotFound, 0)), x_rename = (\<lambda>_ _ a. (NotFound, a)),
     x_link = (\<lambda>_ _ a. (NotFound, a)), x_same = (\<lambda>_ _ _. (NotFound, False))\<rparr>"

definition sample_fenv :: "unit fenv" where
  "sample_fenv = \<lparr>fe_crc = sample_crc, fe_uuid = ''u'', fe_version = ''2.1'', fe_aux = null_aux\<rparr>"

definition fs_dev :: "((nat \<Rightarrow> char) zbdlib, unit) zenfs" where
  "fs_dev = (new_ZenFS append_dev () 10 \<lparr>max_buffer_count = 20, curr_buffer_count = 0\<rparr>)
     \<lparr>meta_log := Some (new_ZenMetaLog 0 append_dev), sblock := Some (new_Superblock mem_env ''u'' ''2.1'' ''/aux'' 10 True)\<rparr>"

lemma fs_dev_sel [simp]: "zone_at fs_dev = zone_at append_dev" "file_at fs_dev = file_at append_dev" "io_zones fs_dev = io_zones append_dev"
  "meta_zones fs_dev = meta_zones append_dev" "zone_start_to_pointer fs_dev = zone_start_to_pointer append_dev"
  "bytes_written fs_dev = bytes_written append_dev" "be fs_dev = be append_dev"
  by (simp_all add: fs_dev_def new_ZenFS_def zbd.defs)

lemma fs_dev_facts: "good mem_env fs_dev" "meta_inv mem_env fs_dev" "meta_log fs_dev \<noteq> None" "sblock fs_dev \<noteq> None"
proof -
  show "good mem_env fs_dev" using append_dev_facts(1) by (simp add: good_def dev_inv_def apart_def used_ok_def)
  have sz: "zone_sz mem_env = 16" by (simp add: mem_env_def zbdlib_env_def mem_info_def)
  have m: "meta_zones append_dev = [0, 1, 2]" by (simp add: append_dev_def mem_dev_eval)
  have "zone_wf mem_env (zone_at append_dev z)" if "z \<in> {0, 1, 2}" for z
    using that by (auto simp: append_dev_def mem_dev_eval zone_wf_def sz sub64_def)
  then show "meta_inv mem_env fs_dev" by (simp add: meta_inv_def m) (simp add: fs_dev_def new_ZenMetaLog_def)
qed (simp_all add: fs_dev_def)

section \<open>Property\<close>



end
