(* ===== verification/FileNames.thy ===== *)
theory FileNames
  imports FileSys
begin

text \<open>
  The operations of \<open>ZenFS\<close> on names: opening, deleting, renaming and linking files, and directories,
  which exist only in the auxiliary file system (\<open>fs_zenfs.cc\<close>, \<open>fs_zenfs.h\<close>).
\<close>

section \<open>Looking up and deleting\<close>

definition GetFileNoLock :: "string \<Rightarrow> ('b, 'a) zenfs \<Rightarrow> fid option" where
  "GetFileNoLock fname s = map_of (files s) (FormatPathLexically fname)"

definition GetFile :: "string \<Rightarrow> ('b, 'a) zenfs \<Rightarrow> fid option" where
  "GetFile fname s = GetFileNoLock fname s"

text \<open>A call that the auxiliary file system handles. Without a superblock its path is undefined.\<close>

definition aux_call :: "(string \<Rightarrow> 'a \<Rightarrow> status \<times> 'a) \<Rightarrow> string \<Rightarrow> ('b, 'a) zenfs \<Rightarrow> (status \<times> ('b, 'a) zenfs) option" where
  "aux_call op path s = map_option (\<lambda>p. let (st, a) = op p (aux s) in (st, s\<lparr>aux := a\<rparr>)) (ToAuxPath s path)"

definition DeleteFileNoLock :: "'b env \<Rightarrow> 'a fenv \<Rightarrow> string \<Rightarrow> ('b, 'a) zenfs \<Rightarrow> (status \<times> ('b, 'a) zenfs) option" where
  "DeleteFileNoLock E F name s = (let fname = FormatPathLexically name in
     case GetFileNoLock fname s of None \<Rightarrow> aux_call (x_delete_file (fe_aux F)) fname s
     | Some f \<Rightarrow>
         let (st, s) = RemoveLinkName f fname (s\<lparr>files := map_erase fname (files s)\<rparr>) in
         if st \<noteq> OK then Some (st, expire f s)
         else Option.bind (PersistRecord E F (EncodeFileDeletionTo (file_at s f) fname) s) (\<lambda>(st, s).
           if st \<noteq> OK then Some (st, expire f (AddLinkName f fname (s\<lparr>files := map_insert (c_str fname) f (files s)\<rparr>)))
           else if 0 < GetNrLinks (file_at s f) then Some (st, expire f s)
           else Some (st, expire f (SetDeleted f s))))"

text \<open>Operations that free space end by resetting the I/O zones that hold no valid data.\<close>

definition then_reset :: "'b env \<Rightarrow> status \<times> ('b, 'a) zenfs \<Rightarrow> status \<times> ('b, 'a) zenfs" where
  "then_reset E r = (if fst r = OK then ResetUnusedIOZones E False (snd r) else r)"

definition FS_DeleteFile :: "'b env \<Rightarrow> 'a fenv \<Rightarrow> string \<Rightarrow> ('b, 'a) zenfs \<Rightarrow> (status \<times> ('b, 'a) zenfs) option" where
  "FS_DeleteFile E F fname s = map_option (then_reset E) (DeleteFileNoLock E F fname s)"

section \<open>Opening\<close>

text \<open>A new handle keeps its file object alive.\<close>

definition open_handle :: "'b env \<Rightarrow> string \<Rightarrow> bool \<Rightarrow> fid \<Rightarrow> ('b, 'a) zenfs \<Rightarrow> (wfile \<times> ('b, 'a) zenfs) option" where
  "open_handle E fname direct f s = map_option (\<lambda>(w, p). (w, hold_file f (s\<lparr>buffers := p\<rparr>)))
     (new_ZonedWritableFile E (ends_with fname ''.sst'' \<or> \<not> direct) f (buffers s) s)"

definition close_handle :: "'b env \<Rightarrow> 'a fenv \<Rightarrow> wfile \<Rightarrow> ('b, 'a) zenfs \<Rightarrow> ('b, 'a) zenfs option" where
  "close_handle E F w s = map_option (\<lambda>(p, s). drop_file (w_file w) (s\<lparr>buffers := p\<rparr>))
     (delete_ZonedWritableFile E (fs_persist E F) w (buffers s) s)"

definition create_file :: "'b env \<Rightarrow> string \<Rightarrow> bool \<Rightarrow> ('b, 'a) zenfs \<Rightarrow> fid \<times> ('b, 'a) zenfs" where
  "create_file E fname direct s = (let f = next_fid s; x = (new_file (next_file_id s))\<lparr>f_m_time := be_time E (be s), f_linkfiles := [fname]\<rparr>;
     x = (if ends_with fname ''.log'' then x\<lparr>f_io_type := KWAL, f_is_sparse := \<not> direct\<rparr>
          else if ends_with fname ''.sst'' then x\<lparr>f_io_type := KData\<rparr> else x\<lparr>f_io_type := KUnknown\<rparr>)
     in (f, s\<lparr>file_at := (file_at s)(f := x), next_fid := f + 1, next_file_id := add64 (next_file_id s) 1\<rparr>))"

definition open_new_file :: "'b env \<Rightarrow> 'a fenv \<Rightarrow> string \<Rightarrow> bool \<Rightarrow> ('b, 'a) zenfs \<Rightarrow> ((status \<times> wfile option) \<times> ('b, 'a) zenfs) option" where
  "open_new_file E F fname direct s = (let (f, s) = create_file E fname direct s in
     Option.bind (SyncFileMetadataNoLock E F False f s) (\<lambda>(st, s).
       if st \<noteq> OK then Some ((st, None), expire f s)
       else Option.bind (AcquireWRLock f s) (\<lambda>s.
         map_option (\<lambda>(w, s). ((OK, Some w), s)) (open_handle E fname direct f (s\<lparr>files := map_insert (c_str fname) f (files s)\<rparr>)))))"

definition OpenWritableFile :: "'b env \<Rightarrow> 'a fenv \<Rightarrow> string \<Rightarrow> bool \<Rightarrow> bool \<Rightarrow> ('b, 'a) zenfs \<Rightarrow>
    ((status \<times> wfile option) \<times> ('b, 'a) zenfs) option" where
  "OpenWritableFile E F filename direct reopen s = (let fname = FormatPathLexically filename in
     case GetFileNoLock fname s of None \<Rightarrow> open_new_file E F fname direct s
     | Some f \<Rightarrow>
         if reopen then Option.bind (AcquireWRLock f s) (\<lambda>s. map_option (\<lambda>(w, s). ((OK, Some w), s)) (open_handle E fname direct f s))
         else Option.bind (DeleteFileNoLock E F fname (hold_file f s)) (\<lambda>(st, s).
           if st \<noteq> OK then Some ((st, None), drop_file f s)
           else map_option (\<lambda>((st, w), s). if st \<noteq> OK then ((st, w), s) else let (st, s) = ResetUnusedIOZones E False s in ((st, w), s))
             (open_new_file E F fname direct (drop_file f s))))"

definition NewWritableFile :: "'b env \<Rightarrow> 'a fenv \<Rightarrow> string \<Rightarrow> bool \<Rightarrow> ('b, 'a) zenfs \<Rightarrow> ((status \<times> wfile option) \<times> ('b, 'a) zenfs) option" where
  "NewWritableFile E F filename direct s = OpenWritableFile E F (FormatPathLexically filename) direct False s"

definition ReopenWritableFile :: "'b env \<Rightarrow> 'a fenv \<Rightarrow> string \<Rightarrow> bool \<Rightarrow> ('b, 'a) zenfs \<Rightarrow> ((status \<times> wfile option) \<times> ('b, 'a) zenfs) option" where
  "ReopenWritableFile E F filename direct s = OpenWritableFile E F (FormatPathLexically filename) direct True s"

definition ReuseWritableFile :: "'b env \<Rightarrow> 'a fenv \<Rightarrow> string \<Rightarrow> string \<Rightarrow> bool \<Rightarrow> ('b, 'a) zenfs \<Rightarrow>
    ((status \<times> wfile option) \<times> ('b, 'a) zenfs) option" where
  "ReuseWritableFile E F filename old_filename direct s =
    (let fname = FormatPathLexically filename; old_fname = FormatPathLexically old_filename in
     if GetFile old_fname s = None then Some ((NotFound, None), s)
     else Option.bind (FS_DeleteFile E F old_fname s) (\<lambda>(st, s).
       if st \<noteq> OK then Some ((st, None), s) else OpenWritableFile E F fname direct False s))"

definition NewSequentialFile :: "'a fenv \<Rightarrow> string \<Rightarrow> bool \<Rightarrow> ('b, 'a) zenfs \<Rightarrow> ((status \<times> seqfile option) \<times> ('b, 'a) zenfs) option" where
  "NewSequentialFile F filename direct s = (let fname = FormatPathLexically filename in
     case GetFile fname s of None \<Rightarrow> map_option (\<lambda>(st, s). ((st, None), s)) (aux_call (x_open (fe_aux F)) fname s)
     | Some f \<Rightarrow> Some ((OK, Some (new_ZonedSequentialFile f direct s)), hold_file f s))"

text \<open>The random access file looks its file up under the formatted name, which may be absent from the map.\<close>

definition NewRandomAccessFile :: "'a fenv \<Rightarrow> string \<Rightarrow> bool \<Rightarrow> ('b, 'a) zenfs \<Rightarrow> ((status \<times> rafile option) \<times> ('b, 'a) zenfs) option" where
  "NewRandomAccessFile F filename direct s = (let fname = FormatPathLexically filename in
     case GetFile fname s of None \<Rightarrow> map_option (\<lambda>(st, s). ((st, None), s)) (aux_call (x_open (fe_aux F)) fname s)
     | Some _ \<Rightarrow> (case map_of (files s) fname of None \<Rightarrow> None
         | Some f \<Rightarrow> Some ((OK, Some (new_ZonedRandomAccessFile f direct s)), hold_file f s)))"

section \<open>Queries\<close>

definition FS_FileExists :: "'a fenv \<Rightarrow> string \<Rightarrow> ('b, 'a) zenfs \<Rightarrow> status option" where
  "FS_FileExists F filename s = (let fname = FormatPathLexically filename in
     if GetFile fname s = None then map_option (\<lambda>p. x_file_exists (fe_aux F) p (aux s)) (ToAuxPath s fname) else Some OK)"

definition GetFileModificationTime :: "'a fenv \<Rightarrow> string \<Rightarrow> ('b, 'a) zenfs \<Rightarrow> (status \<times> nat) option" where
  "GetFileModificationTime F filename s = (let f = FormatPathLexically filename in
     case map_of (files s) f of Some g \<Rightarrow> Some (OK, f_m_time (file_at s g))
     | None \<Rightarrow> map_option (\<lambda>p. x_mtime (fe_aux F) p (aux s)) (ToAuxPath s f))"

definition FS_GetFileSize :: "'a fenv \<Rightarrow> string \<Rightarrow> ('b, 'a) zenfs \<Rightarrow> (status \<times> nat) option" where
  "FS_GetFileSize F filename s = (let f = FormatPathLexically filename in
     case map_of (files s) f of Some g \<Rightarrow> Some (OK, f_file_size (file_at s g))
     | None \<Rightarrow> map_option (\<lambda>p. x_size (fe_aux F) p (aux s)) (ToAuxPath s f))"

definition NumFileLinks :: "'a fenv \<Rightarrow> string \<Rightarrow> ('b, 'a) zenfs \<Rightarrow> (status \<times> nat) option" where
  "NumFileLinks F file s = (let fname = FormatPathLexically file in
     case GetFileNoLock fname s of Some f \<Rightarrow> Some (OK, GetNrLinks (file_at s f))
     | None \<Rightarrow> map_option (\<lambda>p. x_nr_links (fe_aux F) p (aux s)) (ToAuxPath s fname))"

text \<open>The paths handed to the auxiliary file system are not translated.\<close>

definition AreFilesSame :: "'a fenv \<Rightarrow> string \<Rightarrow> string \<Rightarrow> ('b, 'a) zenfs \<Rightarrow> status \<times> bool" where
  "AreFilesSame F file linkf s = (let fname = FormatPathLexically file; link = FormatPathLexically linkf in
     case (GetFileNoLock fname s, GetFileNoLock link s) of
       (Some f, Some g) \<Rightarrow> (OK, f_file_id (file_at s f) = f_file_id (file_at s g))
     | _ \<Rightarrow> x_same (fe_aux F) fname link (aux s))"

definition GetWriteLifeTimeHints :: "('b, 'a) zenfs \<Rightarrow> (string \<times> nat) list" where
  "GetWriteLifeTimeHints s = map (\<lambda>(name, f). (name, f_lifetime (file_at s f))) (files s)"

definition MoveFileToNewLevel :: "string \<Rightarrow> int \<Rightarrow> ('b, 'a) zenfs \<Rightarrow> ('b, 'a) zenfs option" where
  "MoveFileToNewLevel filename new_level s =
    map_option (\<lambda>f. AddZoneFileRecord f (SetLevel f new_level (RemoveZoneFileRecord f s))) (GetFile filename s)"

section \<open>Directories\<close>

text \<open>\<open>substr\<close> raises an exception when the position lies beyond the end.\<close>

fun zenfs_children :: "string \<Rightarrow> bool \<Rightarrow> file_map \<Rightarrow> string list option" where
  "zenfs_children d grandchildren [] = Some []"
| "zenfs_children d grandchildren (e # es) = (let file_dir = path_as_string_with_separator_at_end (parent_path (fst e)) in
     if string_starts_with file_dir d \<and> (grandchildren \<or> length file_dir = length d)
     then if length d \<le> length (fst e) then map_option (\<lambda>cs. drop (length d) (fst e) # cs) (zenfs_children d grandchildren es) else None
     else zenfs_children d grandchildren es)"

definition GetZenFSChildrenNoLock :: "string \<Rightarrow> bool \<Rightarrow> ('b, 'a) zenfs \<Rightarrow> string list option" where
  "GetZenFSChildrenNoLock dir grandchildren s = zenfs_children (path_as_string_with_separator_at_end dir) grandchildren (files s)"

definition GetChildrenNoLock :: "'a fenv \<Rightarrow> string \<Rightarrow> ('b, 'a) zenfs \<Rightarrow> (status \<times> string list) option" where
  "GetChildrenNoLock F dir_path s = (let dir = FormatPathLexically dir_path in
     Option.bind (ToAuxPath s dir) (\<lambda>p.
       let (st, auxfiles) = x_get_children (fe_aux F) p (aux s) in
       if st = NotFound then Some (OK, []) else if st \<noteq> OK then Some (st, [])
       else map_option (\<lambda>cs. (OK, filter (\<lambda>f. f \<noteq> ''.'' \<and> f \<noteq> ''..'') auxfiles @ cs)) (GetZenFSChildrenNoLock dir False s)))"

definition GetChildren :: "'a fenv \<Rightarrow> string \<Rightarrow> ('b, 'a) zenfs \<Rightarrow> (status \<times> string list) option" where
  "GetChildren F dir s = GetChildrenNoLock F dir s"

definition IsDirectoryNoLock :: "'a fenv \<Rightarrow> string \<Rightarrow> ('b, 'a) zenfs \<Rightarrow> (status \<times> bool) option" where
  "IsDirectoryNoLock F path s = (if GetFileNoLock path s \<noteq> None then Some (OK, False)
     else map_option (\<lambda>p. x_is_directory (fe_aux F) p (aux s)) (ToAuxPath s path))"

definition CreateDir :: "'a fenv \<Rightarrow> string \<Rightarrow> ('b, 'a) zenfs \<Rightarrow> (status \<times> ('b, 'a) zenfs) option" where
  "CreateDir F d s = aux_call (x_create_dir (fe_aux F)) d s"

definition CreateDirIfMissing :: "'a fenv \<Rightarrow> string \<Rightarrow> ('b, 'a) zenfs \<Rightarrow> (status \<times> ('b, 'a) zenfs) option" where
  "CreateDirIfMissing F d s = aux_call (x_create_dir_if_missing (fe_aux F)) d s"

definition DeleteDir :: "'a fenv \<Rightarrow> string \<Rightarrow> ('b, 'a) zenfs \<Rightarrow> (status \<times> ('b, 'a) zenfs) option" where
  "DeleteDir F d s = Option.bind (GetChildren F d s) (\<lambda>(st, children).
     if children \<noteq> [] then Some (IOError, s) else aux_call (x_delete_dir (fe_aux F)) d s)"

text \<open>
  A loop over a list that stops at the first failure and reports how many calls succeeded. It is
  monotone in the call, so the recursive operations below can loop over themselves.
\<close>

fun each :: "('x \<Rightarrow> 's \<Rightarrow> (status \<times> 's) option) \<Rightarrow> 'x list \<Rightarrow> 's \<Rightarrow> ((status \<times> nat) \<times> 's) option" where
  "each g [] s = Some ((OK, 0), s)"
| "each g (x # xs) s = Option.bind (g x s) (\<lambda>(st, s). if st \<noteq> OK then Some ((st, 0), s)
     else map_option (\<lambda>((st, n), s). ((st, n + 1), s)) (each g xs s))"

lemma map_option_mono [partial_function_mono]: "mono_option B \<Longrightarrow> mono_option (\<lambda>f. map_option g (B f))"
  unfolding monotone_def flat_ord_def by fastforce

lemma each_mono [partial_function_mono]:
  assumes "\<And>x s. mono_option (\<lambda>f. g f x s)"
  shows "mono_option (\<lambda>f. each (g f) xs s)"
proof (induction xs arbitrary: s)
  case Nil
  show ?case unfolding each.simps by (rule option.const_mono)
next
  case (Cons x xs)
  have "mono_option (\<lambda>f. case y of (st, s) \<Rightarrow> if st \<noteq> OK then Some ((st, 0), s)
      else map_option (\<lambda>((st, n), s). ((st, n + 1), s)) (each (g f) xs s))" for y
    using map_option_mono [OF Cons.IH] by (cases y, cases "fst y = OK") (simp_all add: option.const_mono)
  then show ?case unfolding each.simps by (intro bind_mono assms)
qed

partial_function (option) DeleteDirRecursiveNoLock :: "'b env \<Rightarrow> 'a fenv \<Rightarrow> string \<Rightarrow> ('b, 'a) zenfs \<Rightarrow> (status \<times> ('b, 'a) zenfs) option" where
  "DeleteDirRecursiveNoLock E F dir s = (let d = FormatPathLexically dir in
     Option.bind (GetChildrenNoLock F d s) (\<lambda>(st, children).
       if st \<noteq> OK then Some (st, s)
       else Option.bind (each (\<lambda>child s.
           Option.bind (IsDirectoryNoLock F (path_append d child) s) (\<lambda>(st, is_dir).
             if st \<noteq> OK then Some (st, s)
             else if is_dir then DeleteDirRecursiveNoLock E F (path_append d child) s
             else DeleteFileNoLock E F (path_append d child) s)) children s) (\<lambda>((st, n), s).
         if st \<noteq> OK then Some (st, s) else aux_call (x_delete_dir (fe_aux F)) d s)))"

definition DeleteDirRecursive :: "'b env \<Rightarrow> 'a fenv \<Rightarrow> string \<Rightarrow> ('b, 'a) zenfs \<Rightarrow> (status \<times> ('b, 'a) zenfs) option" where
  "DeleteDirRecursive E F d s = map_option (then_reset E) (DeleteDirRecursiveNoLock E F d s)"

section \<open>Renaming and linking\<close>

text \<open>The rename of a file of this file system. The local variables keep both files alive until the end.\<close>

definition rename_zone_file :: "'b env \<Rightarrow> 'a fenv \<Rightarrow> fid \<Rightarrow> string \<Rightarrow> string \<Rightarrow> ('b, 'a) zenfs \<Rightarrow> (status \<times> ('b, 'a) zenfs) option" where
  "rename_zone_file E F f source_path dest_path s = (case RenameLink f source_path dest_path s of (st, s) \<Rightarrow>
     if st \<noteq> OK then Some (st, s)
     else let s = s\<lparr>files := map_insert dest_path f (map_erase source_path (files s))\<rparr> in
       Option.bind (SyncFileMetadataNoLock E F False f s) (\<lambda>(st, s).
         if st = OK then Some (OK, s)
         else case RenameLink f dest_path source_path (s\<lparr>files := map_erase dest_path (files s)\<rparr>) of (st, s) \<Rightarrow>
           if st \<noteq> OK then Some (st, s) else Some (st, s\<lparr>files := map_insert source_path f (files s)\<rparr>)))"

definition rename_over :: "'b env \<Rightarrow> 'a fenv \<Rightarrow> fid \<Rightarrow> string \<Rightarrow> string \<Rightarrow> ('b, 'a) zenfs \<Rightarrow> (status \<times> ('b, 'a) zenfs) option" where
  "rename_over E F f source_path dest_path s = (case GetFileNoLock dest_path s of
     None \<Rightarrow> map_option (map_prod id (drop_file f)) (rename_zone_file E F f source_path dest_path (hold_file f s))
   | Some g \<Rightarrow> Option.bind (DeleteFileNoLock E F dest_path (hold_file g (hold_file f s))) (\<lambda>(st, s).
       map_option (map_prod id (\<lambda>s. drop_file f (drop_file g s)))
         (if st \<noteq> OK then Some (st, s) else rename_zone_file E F f source_path dest_path s)))"

text \<open>
  A directory is renamed in the auxiliary file system and then all files below it are renamed, with a
  roll back on failure. \<open>ren\<close> is the rename of a single path.
\<close>

definition RenameChildNoLock :: "(string \<Rightarrow> string \<Rightarrow> ('b, 'a) zenfs \<Rightarrow> (status \<times> ('b, 'a) zenfs) option) \<Rightarrow>
    string \<Rightarrow> string \<Rightarrow> string \<Rightarrow> ('b, 'a) zenfs \<Rightarrow> (status \<times> ('b, 'a) zenfs) option" where
  "RenameChildNoLock ren source_dir dest_dir child s = ren (path_append source_dir child) (path_append dest_dir child) s"

definition aux_rename :: "'a fenv \<Rightarrow> string \<Rightarrow> string \<Rightarrow> ('b, 'a) zenfs \<Rightarrow> (status \<times> ('b, 'a) zenfs) option" where
  "aux_rename F source_path dest_path s = Option.bind (ToAuxPath s source_path) (\<lambda>p.
     aux_call (x_rename (fe_aux F) p) dest_path s)"

definition RollbackAuxDirRenameNoLock :: "'a fenv \<Rightarrow> (string \<Rightarrow> string \<Rightarrow> ('b, 'a) zenfs \<Rightarrow> (status \<times> ('b, 'a) zenfs) option) \<Rightarrow>
    string \<Rightarrow> string \<Rightarrow> string list \<Rightarrow> ('b, 'a) zenfs \<Rightarrow> (status \<times> ('b, 'a) zenfs) option" where
  "RollbackAuxDirRenameNoLock F ren source_path dest_path renamed_children s =
    Option.bind (each (RenameChildNoLock ren dest_path source_path) renamed_children s) (\<lambda>((st, n), s).
      if st \<noteq> OK then Some (Corruption, s)
      else map_option (map_prod (\<lambda>st. if st \<noteq> OK then Corruption else st) id) (aux_rename F dest_path source_path s))"

definition RenameAuxPathNoLock :: "'a fenv \<Rightarrow> (string \<Rightarrow> string \<Rightarrow> ('b, 'a) zenfs \<Rightarrow> (status \<times> ('b, 'a) zenfs) option) \<Rightarrow>
    string \<Rightarrow> string \<Rightarrow> ('b, 'a) zenfs \<Rightarrow> (status \<times> ('b, 'a) zenfs) option" where
  "RenameAuxPathNoLock F ren source_path dest_path s = Option.bind (aux_rename F source_path dest_path s) (\<lambda>(st, s).
     if st \<noteq> OK then Some (st, s)
     else Option.bind (GetZenFSChildrenNoLock source_path True s) (\<lambda>children.
       Option.bind (each (RenameChildNoLock ren source_path dest_path) children s) (\<lambda>((failed_rename, n), s).
         if failed_rename \<noteq> OK
         then map_option (map_prod (\<lambda>st. if st \<noteq> OK then st else failed_rename) id)
           (RollbackAuxDirRenameNoLock F ren source_path dest_path (take n children) s)
         else Some (OK, s))))"

lemma RenameAuxPathNoLock_mono [partial_function_mono]:
  assumes "\<And>x y s. mono_option (\<lambda>f. ren f x y s)"
  shows "mono_option (\<lambda>f. RenameAuxPathNoLock F (ren f) source_path dest_path s)"
proof -
  have kids: "mono_option (\<lambda>f. each (RenameChildNoLock (ren f) a b) cs s)" for a b cs s
    unfolding RenameChildNoLock_def by (intro each_mono assms)
  have roll: "mono_option (\<lambda>f. RollbackAuxDirRenameNoLock F (ren f) source_path dest_path cs s)" for cs s
    unfolding RollbackAuxDirRenameNoLock_def by (intro bind_mono kids) (simp add: option.const_mono split: prod.split)
  have "mono_option (\<lambda>f. case y of ((st, n), s) \<Rightarrow> if st \<noteq> OK
      then map_option (map_prod (\<lambda>st'. if st' \<noteq> OK then st' else st) id) (RollbackAuxDirRenameNoLock F (ren f) source_path dest_path (take n cs) s)
      else Some (OK, s))" for y cs
    by (cases y, cases "fst (fst y) = OK") (auto intro!: map_option_mono roll option.const_mono)
  then have step: "mono_option (\<lambda>f. case y of (st, s) \<Rightarrow> if st \<noteq> OK then Some (st, s)
      else Option.bind (GetZenFSChildrenNoLock source_path True s) (\<lambda>children.
        Option.bind (each (RenameChildNoLock (ren f) source_path dest_path) children s) (\<lambda>((failed_rename, n), s).
          if failed_rename \<noteq> OK
          then map_option (map_prod (\<lambda>st. if st \<noteq> OK then st else failed_rename) id)
            (RollbackAuxDirRenameNoLock F (ren f) source_path dest_path (take n children) s)
          else Some (OK, s))))" for y
    by (cases y, cases "fst y = OK") (auto intro!: bind_mono kids option.const_mono)
  show ?thesis unfolding RenameAuxPathNoLock_def by (intro bind_mono option.const_mono step)
qed

partial_function (option) RenameFileNoLock :: "'b env \<Rightarrow> 'a fenv \<Rightarrow> string \<Rightarrow> string \<Rightarrow> ('b, 'a) zenfs \<Rightarrow> (status \<times> ('b, 'a) zenfs) option" where
  "RenameFileNoLock E F src_path dst_path s =
    (let source_path = FormatPathLexically src_path; dest_path = FormatPathLexically dst_path in
     case GetFileNoLock source_path s of
       Some f \<Rightarrow> rename_over E F f source_path dest_path s
     | None \<Rightarrow> RenameAuxPathNoLock F (RenameFileNoLock E F) source_path dest_path s)"

definition RenameFile :: "'b env \<Rightarrow> 'a fenv \<Rightarrow> string \<Rightarrow> string \<Rightarrow> ('b, 'a) zenfs \<Rightarrow> (status \<times> ('b, 'a) zenfs) option" where
  "RenameFile E F source_path dest_path s = map_option (then_reset E) (RenameFileNoLock E F source_path dest_path s)"

definition LinkFile :: "'b env \<Rightarrow> 'a fenv \<Rightarrow> string \<Rightarrow> string \<Rightarrow> ('b, 'a) zenfs \<Rightarrow> (status \<times> ('b, 'a) zenfs) option" where
  "LinkFile E F file link s = (let fname = FormatPathLexically file; lname = FormatPathLexically link in
     if GetFileNoLock lname s \<noteq> None then Some (InvalidArgument, s)
     else case GetFileNoLock fname s of
       None \<Rightarrow> Option.bind (ToAuxPath s fname) (\<lambda>p. aux_call (x_link (fe_aux F) p) lname s)
     | Some f \<Rightarrow> let s = AddLinkName f lname s in
         Option.bind (SyncFileMetadataNoLock E F False f (s\<lparr>files := map_insert lname f (files s)\<rparr>)) (\<lambda>(st, s).
           if st = OK then Some (OK, s)
           else case RemoveLinkName f lname s of (st, s) \<Rightarrow>
             if st \<noteq> OK then Some (st, s) else Some (st, s\<lparr>files := map_erase lname (files s)\<rparr>)))"

end
