(* ===== verification/NameInv.thy ===== *)
theory NameInv
  imports FileNames
begin

text \<open>
  The map of files and the names kept in the files agree, and deleting, linking and renaming keep it
  so, also when the metadata cannot be made persistent.
\<close>

section \<open>The map of files and the names of the files agree\<close>

definition file_map_ok :: "file_map \<Rightarrow> bool" where
  "file_map_ok m \<longleftrightarrow> sorted_wrt (<) (map fst m)"

definition names_of :: "fid \<Rightarrow> file_map \<Rightarrow> string set" where
  "names_of f m = {n. (n, f) \<in> set m}"

definition linked :: "fid \<Rightarrow> ('b, 'a) zenfs \<Rightarrow> bool" where
  "linked f s \<longleftrightarrow> f < next_fid s \<and> distinct (f_linkfiles (file_at s f)) \<and> set (f_linkfiles (file_at s f)) = names_of f (files s)"

definition names_ok :: "('b, 'a) zenfs \<Rightarrow> bool" where
  "names_ok s \<longleftrightarrow> file_map_ok (files s) \<and> (\<forall>f \<in> snd ` set (files s). linked f s)"

lemma set_map_erase [simp]: "set (map_erase k m) = {e \<in> set m. fst e \<noteq> k}"
  by (simp add: map_erase_def)

lemma set_map_insert: "k \<notin> fst ` set m \<Longrightarrow> set (map_insert k f m) = insert (k, f) (set m)"
  by (induction m) auto

lemma map_insert_present: "k \<in> fst ` set m \<Longrightarrow> file_map_ok m \<Longrightarrow> map_insert k f m = m"
  by (induction m) (auto simp: file_map_ok_def)

lemma map_insert_sub: "x \<in> set (map_insert k f m) \<Longrightarrow> x = (k, f) \<or> x \<in> set m"
  by (induction m) (auto split: if_splits)

lemma file_map_insert: "file_map_ok m \<Longrightarrow> file_map_ok (map_insert k f m)"
proof (induction m)
  case (Cons e m)
  then have IH: "file_map_ok (map_insert k f m)" "\<forall>x \<in> set m. fst e < fst x" by (simp_all add: file_map_ok_def)
  show ?case
  proof (cases "k \<le> fst e")
    case True
    then show ?thesis using Cons.prems by (auto simp: file_map_ok_def)
  next
    case False
    then have lt: "fst e < k" "k \<noteq> fst e" "\<not> k < fst e" by auto
    then have "\<forall>x \<in> set (map_insert k f m). fst e < fst x" using IH(2) map_insert_sub by fastforce
    then show ?thesis using lt IH(1) by (simp add: file_map_ok_def)
  qed
qed (simp add: file_map_ok_def)

lemma file_map_erase: "file_map_ok m \<Longrightarrow> file_map_ok (map_erase k m)"
  by (simp add: file_map_ok_def map_erase_def sorted_wrt_filter sorted_wrt_map)

lemma file_map_distinct: "file_map_ok m \<Longrightarrow> distinct (map fst m)"
  by (simp add: file_map_ok_def strict_sorted_iff)

lemma file_map_eqI:
  assumes "file_map_ok m" "file_map_ok m'" "set m = set m'"
  shows "m = m'"
proof -
  have k: "map fst m = map fst m'"
    using assms strict_sorted_equal [of "map fst m" "map fst m'"] by (simp add: file_map_ok_def)
  have "map_of m = map_of m'" using map_of_inject_set [of m m'] file_map_distinct assms by blast
  moreover have "xs = map (\<lambda>k. (k, the (map_of xs k))) (map fst xs)" if "file_map_ok xs" for xs
    using file_map_distinct [OF that] by (auto intro!: map_idI [symmetric])
  ultimately show ?thesis using assms(1,2) k by metis
qed

definition same_names :: "('b, 'a) zenfs \<Rightarrow> ('b, 'a) zenfs \<Rightarrow> bool" where
  "same_names s s' \<longleftrightarrow> files s' = files s \<and> next_fid s' = next_fid s \<and> (\<forall>f. f_linkfiles (file_at s' f) = f_linkfiles (file_at s f))"

lemma same_namesD: "same_names s s' \<Longrightarrow> names_ok s' = names_ok s \<and> linked f s' = linked f s \<and> files s' = files s"
  by (simp add: same_names_def names_ok_def linked_def)

lemma same_names_trans: "same_names s s1 \<Longrightarrow> same_names s1 s2 \<Longrightarrow> same_names s s2"
  by (simp add: same_names_def)

lemma sync_blank_linkfiles: "sync_blank x = sync_blank y \<Longrightarrow> f_linkfiles x = f_linkfiles y"
proof -
  have "f_linkfiles (sync_blank z) = f_linkfiles z" for z by (simp add: sync_blank_def)
  then show "sync_blank x = sync_blank y \<Longrightarrow> f_linkfiles x = f_linkfiles y" by metis
qed

lemma meta_step_names: "meta_step E cont s s' \<Longrightarrow> same_names s s'"
  unfolding meta_step_def same_names_def fs_same_def io_frame_def using sync_blank_linkfiles by blast

lemma same_names_steps [simp]: "same_names s (hold_file f s)" "same_names s (expire f s)" "same_names s (drop_file f s)"
  by (simp_all add: same_names_def hold_file_def expire_def drop_file_def ClearExtents_def)

lemma good_files [simp]: "good E (s\<lparr>files := m\<rparr>) = good E s" "meta_inv E (s\<lparr>files := m\<rparr>) = meta_inv E s"
    "good E (s\<lparr>file_at := G\<rparr>) = good E s" "meta_inv E (s\<lparr>file_at := G\<rparr>) = meta_inv E s"
    "good E (s\<lparr>refs := r\<rparr>) = good E s" "meta_inv E (s\<lparr>refs := r\<rparr>) = meta_inv E s"
    "good E (SetDeleted f s) = good E s" "meta_inv E (SetDeleted f s) = meta_inv E s"
  by (simp_all add: good_def dev_inv_def apart_def used_ok_def meta_inv_def SetDeleted_def RemoveZoneFileRecord_def)

lemma names_of_erase: "names_of g (map_erase k m) = names_of g m - {k}"
  by (auto simp: names_of_def)

lemma names_of_insert: "k \<notin> fst ` set m \<Longrightarrow> names_of g (map_insert k f m) = (if g = f then insert k (names_of g m) else names_of g m)"
  by (auto simp: names_of_def set_map_insert)

lemma names_unique: "file_map_ok m \<Longrightarrow> (k, f) \<in> set m \<Longrightarrow> (k, g) \<in> set m \<Longrightarrow> f = g"
  by (rule eq_key_imp_eq_value [OF file_map_distinct])

lemma renamed_linked:
  "linked g (file_upd f u (s\<lparr>files := m\<rparr>)) \<longleftrightarrow> g < next_fid s \<and>
     (let x = (if g = f then u (file_at s f) else file_at s g) in distinct (f_linkfiles x) \<and> set (f_linkfiles x) = names_of g m)"
  by (simp add: linked_def Let_def)

lemma renamed_files: "files (file_upd f u (s\<lparr>files := m\<rparr>)) = m"
  by simp

lemma names_okD: "names_ok s \<Longrightarrow> file_map_ok (files s)" "names_ok s \<Longrightarrow> g \<in> snd ` set (files s) \<Longrightarrow> linked g s"
  unfolding names_ok_def by blast+

lemma names_okI: "file_map_ok (files s) \<Longrightarrow> (\<And>g. g \<in> snd ` set (files s) \<Longrightarrow> linked g s) \<Longrightarrow> names_ok s"
  unfolding names_ok_def by blast

lemma remove_name:
  assumes "names_ok s" "(k, f) \<in> set (files s)"
  defines "s1 \<equiv> file_upd f (\<lambda>x. x\<lparr>f_linkfiles := remove1 k (f_linkfiles x)\<rparr>) (s\<lparr>files := map_erase k (files s)\<rparr>)"
  shows "RemoveLinkName f k (s\<lparr>files := map_erase k (files s)\<rparr>) = (OK, s1)" "names_ok s1" "linked f s1" "k \<notin> fst ` set (files s1)"
proof -
  note m = names_okD(1) [OF assms(1)] and l = names_okD(2) [OF assms(1)]
  have f: "linked f s" using imageI [OF assms(2), of snd] by (intro l) simp
  have k: "k \<in> set (f_linkfiles (file_at s f))" using f assms(2) by (simp add: linked_def names_of_def)
  then show "RemoveLinkName f k (s\<lparr>files := map_erase k (files s)\<rparr>) = (OK, s1)" by (simp add: RemoveLinkName_def s1_def)
  show lf: "linked f s1" using f by (simp add: s1_def renamed_linked linked_def names_of_erase set_remove1_eq)
  have ls: "linked g s1" if "g \<in> snd ` set (files s)" for g
  proof (cases "g = f")
    case False
    then have "k \<notin> names_of g (files s)" using names_unique [OF m assms(2)] by (metis names_of_def mem_Collect_eq)
    then show ?thesis using l [OF that] False by (simp add: s1_def renamed_linked linked_def names_of_erase)
  qed (use lf in simp)
  have fs: "files s1 = map_erase k (files s)" by (simp add: s1_def renamed_files)
  show "names_ok s1" using file_map_erase [OF m] ls by (intro names_okI) (auto simp: fs)
  show "k \<notin> fst ` set (files s1)" unfolding fs by auto
qed

lemma add_name:
  assumes "names_ok s" "linked f s" "k \<notin> fst ` set (files s)"
  defines "s1 \<equiv> file_upd f (\<lambda>x. x\<lparr>f_linkfiles := f_linkfiles x @ [k]\<rparr>) (s\<lparr>files := map_insert k f (files s)\<rparr>)"
  shows "names_ok s1" "linked f s1" "(k, f) \<in> set (files s1)"
proof -
  have "k \<notin> names_of f (files s)" using assms(3) by (force simp: names_of_def)
  then have k: "k \<notin> set (f_linkfiles (file_at s f))" using assms(2) by (simp add: linked_def)
  then show lf: "linked f s1" using assms(2) by (simp add: s1_def renamed_linked linked_def names_of_insert [OF assms(3)])
  have ls: "linked g s1" if "g \<in> snd ` set (files s)" for g
  proof (cases "g = f")
    case False
    have "linked g s" using assms(1) that by (rule names_okD)
    then show ?thesis using False by (simp add: linked_def s1_def names_of_insert [OF assms(3)])
  qed (use lf in simp)
  have fs: "files s1 = map_insert k f (files s)" by (simp add: s1_def renamed_files)
  show "names_ok s1"
    using file_map_insert [OF names_okD(1) [OF assms(1)]] ls lf by (intro names_okI) (auto simp: fs set_map_insert [OF assms(3)])
  show "(k, f) \<in> set (files s1)" by (simp add: fs set_map_insert [OF assms(3)])
qed

lemma map_insert_erase: "file_map_ok m \<Longrightarrow> (k, f) \<in> set m \<Longrightarrow> map_insert k f (map_erase k m) = m"
proof (rule file_map_eqI)
  assume m: "file_map_ok m" "(k, f) \<in> set m"
  show "file_map_ok (map_insert k f (map_erase k m))" by (intro file_map_insert file_map_erase m)
  show "file_map_ok m" by (rule m)
  have "fst x \<noteq> k \<longleftrightarrow> x \<noteq> (k, f)" if "x \<in> set m" for x using names_unique [OF m, of "snd x"] that by (cases x) auto
  then have "{e \<in> set m. fst e \<noteq> k} = {e \<in> set m. e \<noteq> (k, f)}" by (intro Collect_cong) blast
  then have "{e \<in> set m. fst e \<noteq> k} = set m - {(k, f)}" by (simp add: set_diff_eq)
  moreover have "k \<notin> fst ` set (map_erase k m)" by auto
  ultimately show "set (map_insert k f (map_erase k m)) = set m" using m(2) by (simp add: set_map_insert insert_absorb)
qed

lemma map_erase_insert: "file_map_ok m \<Longrightarrow> k \<notin> fst ` set m \<Longrightarrow> map_erase k (map_insert k f m) = m"
  by (rule file_map_eqI) (auto intro: file_map_insert file_map_erase simp: set_map_insert)

lemma same_names_deleted [simp]: "same_names s (SetDeleted f s)"
  by (simp add: same_names_def SetDeleted_def RemoveZoneFileRecord_def)

text \<open>The file system is mounted: its metadata log and superblock are in place, and so are the invariants of the device.\<close>

definition mounted :: "'b env \<Rightarrow> ('b, 'a) zenfs \<Rightarrow> bool" where
  "mounted E s \<longleftrightarrow> good E s \<and> meta_inv E s \<and> meta_log s \<noteq> None \<and> sblock s \<noteq> None"

lemma mounted_upd [simp]: "mounted E (s\<lparr>files := m\<rparr>) = mounted E s" "mounted E (s\<lparr>file_at := G\<rparr>) = mounted E s"
    "mounted E (s\<lparr>refs := r\<rparr>) = mounted E s" "mounted E (SetDeleted f s) = mounted E s"
  by (simp_all add: mounted_def) (simp add: SetDeleted_def RemoveZoneFileRecord_def)

lemma mounted_step: "meta_step E cont s s' \<Longrightarrow> mounted E s \<Longrightarrow> mounted E s'"
  by (simp add: mounted_def meta_step_def fs_same_def)

lemma fs_same_refs: "meta_step E cont s s' \<Longrightarrow> refs s' = refs s"
  by (simp add: meta_step_def fs_same_def)

definition move_name :: "fid \<Rightarrow> string \<Rightarrow> string \<Rightarrow> ('b, 'a) zenfs \<Rightarrow> ('b, 'a) zenfs" where
  "move_name f a b s = s\<lparr>files := map_insert b f (map_erase a (files s)),
     file_at := (file_at s)(f := (file_at s f)\<lparr>f_linkfiles := remove1 a (f_linkfiles (file_at s f)) @ [b]\<rparr>)\<rparr>"

lemma move_name:
  assumes "names_ok s" "(a, f) \<in> set (files s)" "b \<notin> fst ` set (files s)"
  shows "names_ok (move_name f a b s)" "(b, f) \<in> set (files (move_name f a b s))" "a \<noteq> b \<Longrightarrow> a \<notin> fst ` set (files (move_name f a b s))"
    "RenameLink f a b s = (OK, file_upd f (\<lambda>x. x\<lparr>f_linkfiles := remove1 a (f_linkfiles x) @ [b]\<rparr>) s)"
proof -
  define s1 where "s1 = file_upd f (\<lambda>x. x\<lparr>f_linkfiles := remove1 a (f_linkfiles x)\<rparr>) (s\<lparr>files := map_erase a (files s)\<rparr>)"
  note r = remove_name [OF assms(1,2), folded s1_def]
  have b: "b \<notin> fst ` set (files s1)" using assms(3) by (auto simp: s1_def)
  have mv: "move_name f a b s = file_upd f (\<lambda>x. x\<lparr>f_linkfiles := f_linkfiles x @ [b]\<rparr>) (s1\<lparr>files := map_insert b f (files s1)\<rparr>)"
    by (simp add: move_name_def s1_def)
  show "names_ok (move_name f a b s)" "(b, f) \<in> set (files (move_name f a b s))" unfolding mv by (rule add_name [OF r(2,3) b])+
  show "a \<notin> fst ` set (files (move_name f a b s))" if "a \<noteq> b"
    using r(4) that by (simp add: mv set_map_insert [OF b])
  have "linked f s" using names_okD(2) [OF assms(1)] imageI [OF assms(2), of snd] by simp
  then have "a \<in> set (f_linkfiles (file_at s f))" using assms(2) by (simp add: linked_def names_of_def)
  then show "RenameLink f a b s = (OK, file_upd f (\<lambda>x. x\<lparr>f_linkfiles := remove1 a (f_linkfiles x) @ [b]\<rparr>) s)" by (simp add: RenameLink_def)
qed

lemma move_name_back:
  assumes "names_ok s" "(a, f) \<in> set (files s)" "b \<notin> fst ` set (files s)" "files s' = files (move_name f a b s)"
  shows "files (move_name f b a s') = files s"
proof -
  have "b \<notin> fst ` set (map_erase a (files s))" using assms(3) by auto
  then have "map_erase b (map_insert b f (map_erase a (files s))) = map_erase a (files s)"
    by (intro map_erase_insert file_map_erase names_okD(1) [OF assms(1)])
  then show ?thesis using map_insert_erase [OF names_okD(1) [OF assms(1)] assms(2)] by (simp add: move_name_def assms(4))
qed

lemma files_move: "files (move_name f a b s) = map_insert b f (map_erase a (files s))"
  by (simp add: move_name_def)

lemma mounted_move [simp]: "mounted E (move_name f a b s) = mounted E s"
  by (simp add: move_name_def)

lemma expire_held: "0 < refs s f \<Longrightarrow> expire f s = s"
  by (simp add: expire_def)

context zoned_backend
begin

lemma persisting:
  assumes "mounted E s"
  shows "\<exists>st s'. PersistRecord E F r s = Some (st, s') \<and> meta_step E cont s s' \<and> same_names s s' \<and> mounted E s'"
    "f_linkfiles (file_at s f) \<noteq> [] \<Longrightarrow> \<exists>st s'. SyncFileMetadataNoLock E F rep f s = Some (st, s') \<and> meta_step E cont s s' \<and> same_names s s' \<and> mounted E s'"
proof -
  have g: "good E s" "meta_inv E s" "meta_log s \<noteq> None" "sblock s \<noteq> None" using assms by (simp_all add: mounted_def)
  obtain st s' where "PersistRecord E F r s = Some (st, s')" using persist_record_returns [OF g, of F r] by blast
  with persist_record_step [OF g(1,2) this] mounted_step [OF _ assms] meta_step_names
  show "\<exists>st s'. PersistRecord E F r s = Some (st, s') \<and> meta_step E cont s s' \<and> same_names s s' \<and> mounted E s'" by blast
  assume "f_linkfiles (file_at s f) \<noteq> []"
  from sync_metadata_returns [OF g this, of F rep] obtain st s' where "SyncFileMetadataNoLock E F rep f s = Some (st, s')" by blast
  with sync_metadata_step [OF g(1,2) this] mounted_step [OF _ assms] meta_step_names
  show "\<exists>st s'. SyncFileMetadataNoLock E F rep f s = Some (st, s') \<and> meta_step E cont s s' \<and> same_names s s' \<and> mounted E s'" by blast
qed

lemma delete_names:
  assumes "mounted E s" "names_ok s" "(k, f) \<in> set (files s)" "FormatPathLexically k = k" "c_str k = k"
  shows "\<exists>st s'. DeleteFileNoLock E F k s = Some (st, s') \<and> names_ok s' \<and> linked f s' \<and>
    files s' = (if st = OK then map_erase k (files s) else files s) \<and>
    (0 < refs s f \<longrightarrow> mounted E s' \<and> refs s' = refs s)"
proof -
  have get: "GetFileNoLock k s = Some f" using assms(3,4) file_map_distinct [OF names_okD(1) [OF assms(2)]] by (simp add: GetFileNoLock_def)
  define s1 where "s1 = file_upd f (\<lambda>x. x\<lparr>f_linkfiles := remove1 k (f_linkfiles x)\<rparr>) (s\<lparr>files := map_erase k (files s)\<rparr>)"
  note r = remove_name [OF assms(2,3), folded s1_def]
  have "mounted E s1" using assms(1) by (simp add: s1_def)
  from persisting(1) [OF this, of F "EncodeFileDeletionTo (file_at s1 f) k"] obtain st s2
    where p: "PersistRecord E F (EncodeFileDeletionTo (file_at s1 f) k) s1 = Some (st, s2)" "meta_step E cont s1 s2" "same_names s1 s2" "mounted E s2"
    by blast
  define s3 where "s3 = AddLinkName f (c_str k) (s2\<lparr>files := map_insert k f (files s2)\<rparr>)"
  define s4 where "s4 = (if st \<noteq> OK then s3 else if 0 < GetNrLinks (file_at s2 f) then s2 else SetDeleted f s2)"
  have run: "DeleteFileNoLock E F k s = Some (st, expire f s4)"
    by (simp add: DeleteFileNoLock_def assms(4,5) get r(1) p(1) s4_def s3_def Let_def)
  have f2: "files s2 = map_erase k (files s)" "refs s2 = refs s" "names_ok s2" "linked f s2"
    using same_namesD [OF p(3)] fs_same_refs [OF p(2)] r(2,3) by (simp_all add: s1_def)
  have k: "k \<notin> fst ` set (files s2)" by (auto simp: f2(1))
  have n3: "names_ok s3" "linked f s3" unfolding s3_def AddLinkName_def assms(5) by (rule add_name [OF f2(3,4) k])+
  have f3: "files s3 = files s" using map_insert_erase [OF names_okD(1) [OF assms(2)] assms(3)] by (simp add: s3_def AddLinkName_def f2(1))
  have n4: "names_ok s4 \<and> linked f s4 \<and> files s4 = (if st = OK then map_erase k (files s) else files s)"
    using n3 f3 f2(1,3,4) same_namesD [OF same_names_deleted [of s2 f], of f] by (simp add: s4_def)
  have m4: "mounted E s4" "refs s4 = refs s" using p(4) f2(2) by (simp_all add: s4_def s3_def AddLinkName_def) (simp add: SetDeleted_def RemoveZoneFileRecord_def)
  have "names_ok (expire f s4) \<and> linked f (expire f s4) \<and> files (expire f s4) = files s4"
    using same_namesD [OF same_names_steps(2) [of s4 f], of f] n4 by simp
  then show ?thesis using run n4 m4 expire_held [of s4 f] by simp
qed

lemma rename_names:
  assumes "mounted E s" "names_ok s" "(a, f) \<in> set (files s)" "b \<notin> fst ` set (files s)"
  shows "\<exists>st s2 s'. SyncFileMetadataNoLock E F False f (move_name f a b s) = Some (st, s2) \<and>
    rename_zone_file E F f a b s = Some (OK, s') \<and> names_ok s' \<and> files s' = (if st = OK then map_insert b f (map_erase a (files s)) else files s)"
proof -
  note mv = move_name [OF assms(2-4)]
  have ab: "a \<noteq> b" using imageI [OF assms(3), of fst] assms(4) by auto
  have "mounted E (move_name f a b s)" "f_linkfiles (file_at (move_name f a b s) f) \<noteq> []" using assms(1) by (simp_all add: move_name_def)
  from persisting(2) [OF this, of F False] obtain st s2
    where p: "SyncFileMetadataNoLock E F False f (move_name f a b s) = Some (st, s2)" "same_names (move_name f a b s) s2" by blast
  note n2 = same_namesD [OF p(2), of f]
  have "names_ok s2" "(b, f) \<in> set (files s2)" "a \<notin> fst ` set (files s2)" using n2 mv(1,2) mv(3) [OF ab] by simp_all
  note bk = move_name [OF this]
  have rl: "RenameLink f b a (s2\<lparr>files := m\<rparr>) = (OK, file_upd f (\<lambda>x. x\<lparr>f_linkfiles := remove1 b (f_linkfiles x) @ [a]\<rparr>) (s2\<lparr>files := m\<rparr>))" for m
    using bk(4) by (simp add: RenameLink_def split: if_splits)
  have body: "(file_upd f (\<lambda>x. x\<lparr>f_linkfiles := remove1 a (f_linkfiles x) @ [b]\<rparr>) s)\<lparr>files := map_insert b f (map_erase a (files s))\<rparr> = move_name f a b s"
    by (simp add: move_name_def)
  have rolled: "(file_upd f (\<lambda>x. x\<lparr>f_linkfiles := remove1 b (f_linkfiles x) @ [a]\<rparr>) (s2\<lparr>files := map_erase b (files s2)\<rparr>))
      \<lparr>files := map_insert a f (map_erase b (files s2))\<rparr> = move_name f b a s2"
    by (simp add: move_name_def)
  have run: "rename_zone_file E F f a b s = Some (OK, if st = OK then s2 else move_name f b a s2)"
    unfolding rename_zone_file_def mv(4) using body rolled p(1) by (simp add: rl)
  show ?thesis
    using p(1) run n2 mv(1) bk(1) move_name_back [OF assms(2-4), of s2] files_move [of f a b s]
    by - (rule exI [of _ st], rule exI [of _ s2], rule exI [of _ "if st = OK then s2 else move_name f b a s2"], simp)
qed

lemma link_names:
  assumes "mounted E s" "names_ok s" "(a, f) \<in> set (files s)" "b \<notin> fst ` set (files s)" "FormatPathLexically a = a" "FormatPathLexically b = b"
  defines "s1 \<equiv> file_upd f (\<lambda>x. x\<lparr>f_linkfiles := f_linkfiles x @ [b]\<rparr>) (s\<lparr>files := map_insert b f (files s)\<rparr>)"
  shows "\<exists>st s2 s'. SyncFileMetadataNoLock E F False f s1 = Some (st, s2) \<and>
    LinkFile E F a b s = Some (OK, s') \<and> names_ok s' \<and> files s' = (if st = OK then map_insert b f (files s) else files s)"
proof -
  have fm: "file_map_ok (files s)" and d: "distinct (map fst (files s))" using assms(2) file_map_distinct names_okD by blast+
  have get: "GetFileNoLock a s = Some f" "GetFileNoLock b s = None" using assms(3-6) d by (simp_all add: GetFileNoLock_def map_of_eq_None_iff)
  have l: "linked f s" using names_okD(2) [OF assms(2)] imageI [OF assms(3), of snd] by simp
  note ad = add_name [OF assms(2) l assms(4), folded s1_def]
  have "mounted E s1" "f_linkfiles (file_at s1 f) \<noteq> []" using assms(1) by (simp_all add: s1_def)
  from persisting(2) [OF this, of F False] obtain st s2
    where p: "SyncFileMetadataNoLock E F False f s1 = Some (st, s2)" "same_names s1 s2" by blast
  note n2 = same_namesD [OF p(2), of f]
  define s3 where "s3 = file_upd f (\<lambda>x. x\<lparr>f_linkfiles := remove1 b (f_linkfiles x)\<rparr>) (s2\<lparr>files := map_erase b (files s2)\<rparr>)"
  have "names_ok s2" "(b, f) \<in> set (files s2)" using n2 ad(1,3) by simp_all
  note rm = remove_name [OF this, folded s3_def]
  have rl: "RemoveLinkName f b s2 = (OK, file_upd f (\<lambda>x. x\<lparr>f_linkfiles := remove1 b (f_linkfiles x)\<rparr>) s2)"
    using rm(1) by (simp add: RemoveLinkName_def split: if_splits)
  have s1: "(AddLinkName f b s)\<lparr>files := map_insert b f (files (AddLinkName f b s))\<rparr> = s1" by (simp add: AddLinkName_def s1_def)
  have run: "LinkFile E F a b s = Some (OK, if st = OK then s2 else s3)"
    unfolding LinkFile_def assms(5,6) Let_def get by (simp add: s1 p(1) rl s3_def)
  have "files s2 = map_insert b f (files s)" using n2 by (simp add: s1_def)
  moreover from this have "files s3 = files s" using map_erase_insert [OF fm assms(4), of f] by (simp add: s3_def)
  ultimately show ?thesis
    using p(1) run n2 ad(1) rm(2) by - (rule exI [of _ st], rule exI [of _ s2], rule exI [of _ "if st = OK then s2 else s3"], simp)
qed

lemma held: "mounted E (hold_file f s) = mounted E s" "names_ok (hold_file f s) = names_ok s" "files (hold_file f s) = files s"
    "names_ok (drop_file f s) = names_ok s" "files (drop_file f s) = files s"
  using same_namesD [OF same_names_steps(1) [of s f]] same_namesD [OF same_names_steps(3) [of s f]] by (simp_all add: hold_file_def)

lemma rename_over_names:
  assumes "mounted E s" "names_ok s" "(a, f) \<in> set (files s)" "a \<noteq> b" "FormatPathLexically a = a" "FormatPathLexically b = b" "c_str b = b"
  defines "m \<equiv> map_erase b (files s)"
  shows "\<exists>st s'. RenameFileNoLock E F a b s = Some (st, s') \<and> names_ok s' \<and> (st \<noteq> OK \<longrightarrow> files s' = files s) \<and>
    files s' \<in> {map_insert b f (map_erase a m), m, files s}"
proof -
  have d: "distinct (map fst (files s))" using assms(2) file_map_distinct names_okD by blast
  have "GetFileNoLock a s = Some f" using assms(3,5) d by (simp add: GetFileNoLock_def)
  then have go: "RenameFileNoLock E F a b s = rename_over E F f a b s" by (subst RenameFileNoLock.simps) (simp add: Let_def assms(5,6))
  show ?thesis
  proof (cases "GetFileNoLock b s")
    case None
    then have b: "b \<notin> fst ` set (files s)" by (simp add: GetFileNoLock_def assms(6) map_of_eq_None_iff)
    have m: "m = files s" using b by (force simp: m_def map_erase_def filter_id_conv)
    have h: "mounted E (hold_file f s)" "names_ok (hold_file f s)" "(a, f) \<in> set (files (hold_file f s))" "b \<notin> fst ` set (files (hold_file f s))"
      using assms(1-3) b by (simp_all add: held)
    obtain st s2 s' where r: "rename_zone_file E F f a b (hold_file f s) = Some (OK, s')" "names_ok s'"
        "files s' = (if st = OK then map_insert b f (map_erase a (files s)) else files s)"
      using rename_names [OF h, of F, unfolded held] by blast
    have "RenameFileNoLock E F a b s = Some (OK, drop_file f s')" using None r(1) by (simp add: go rename_over_def)
    then show ?thesis using r(2,3) by (simp add: held m)
  next
    case (Some g)
    then have g: "(b, g) \<in> set (files s)" using map_of_SomeD by (simp add: GetFileNoLock_def assms(6))
    define s0 where "s0 = hold_file g (hold_file f s)"
    have s0: "mounted E s0" "names_ok s0" "files s0 = files s" "0 < refs s0 g" using assms(1,2) by (simp_all add: s0_def held) (simp add: hold_file_def)
    obtain st s1 where del: "DeleteFileNoLock E F b s0 = Some (st, s1)" "names_ok s1" "files s1 = (if st = OK then m else files s)" "mounted E s1"
      using delete_names [OF s0(1,2) _ assms(6,7), of g F, unfolded s0(3)] g s0(4) unfolding m_def by blast
    show ?thesis
    proof (cases "st = OK")
      case False
      then have "RenameFileNoLock E F a b s = Some (st, drop_file f (drop_file g s1))" using Some del(1) by (simp add: go rename_over_def s0_def)
      then show ?thesis using False del(2,3) by (simp add: held)
    next
      case True
      have "(a, f) \<in> set (files s1)" "b \<notin> fst ` set (files s1)" using True del(3) assms(3,4) by (auto simp: m_def)
      from rename_names [OF del(4,2) this, of F] obtain st2 s2 s' where r: "rename_zone_file E F f a b s1 = Some (OK, s')" "names_ok s'"
          "files s' = (if st2 = OK then map_insert b f (map_erase a m) else m)"
        unfolding del(3) if_P [OF True] by blast
      have "RenameFileNoLock E F a b s = Some (OK, drop_file f (drop_file g s'))" using Some del(1) True r(1) by (simp add: go rename_over_def s0_def)
      then show ?thesis using r(2,3) by (simp add: held)
    qed
  qed
qed

lemma rename_self:
  assumes "mounted E s" "names_ok s" "(a, f) \<in> set (files s)" "FormatPathLexically a = a" "c_str a = a"
  shows "\<exists>st s1 s'. DeleteFileNoLock E F a (hold_file f (hold_file f s)) = Some (st, s1) \<and>
    RenameFileNoLock E F a a s = Some (if st = OK then IOError else st, s') \<and> files s' = (if st = OK then map_erase a (files s) else files s)"
proof -
  have d: "distinct (map fst (files s))" using assms(2) file_map_distinct names_okD by blast
  have get: "GetFileNoLock a s = Some f" using assms(3,4) d by (simp add: GetFileNoLock_def)
  then have go: "RenameFileNoLock E F a a s = rename_over E F f a a s" by (subst RenameFileNoLock.simps) (simp add: Let_def assms(4))
  define s0 where "s0 = hold_file f (hold_file f s)"
  have s0: "mounted E s0" "names_ok s0" "files s0 = files s" using assms(1,2) by (simp_all add: s0_def held)
  obtain st s1 where del: "DeleteFileNoLock E F a s0 = Some (st, s1)" "linked f s1" "files s1 = (if st = OK then map_erase a (files s) else files s)"
    using delete_names [OF s0(1,2) _ assms(4,5), of f F, unfolded s0(3)] assms(3) by blast
  have "RenameLink f a a s1 = (IOError, s1)" if "st = OK" using that del(2,3) by (simp add: RenameLink_def linked_def names_of_erase)
  then have "RenameFileNoLock E F a a s = Some (if st = OK then IOError else st, drop_file f (drop_file f s1))"
    using get del(1) by (simp add: go rename_over_def s0_def rename_zone_file_def)
  then show ?thesis using del(1,3) unfolding s0_def
    by - (rule exI [of _ st], rule exI [of _ s1], rule exI [of _ "drop_file f (drop_file f s1)"], simp add: held)
qed

end

section \<open>A file system with one file\<close>

definition names_dev :: "((nat \<Rightarrow> char) zbdlib, unit) zenfs" where
  "names_dev = fs_dev\<lparr>files := [(''/a'', 1)], file_at := (file_at fs_dev)(1 := (file_at fs_dev 1)\<lparr>f_linkfiles := [''/a'']\<rparr>)\<rparr>"

lemma names_dev_facts: "mounted mem_env names_dev" "names_ok names_dev" "(''/a'', 1) \<in> set (files names_dev)" "files names_dev = [(''/a'', 1)]"
proof -
  show "mounted mem_env names_dev" unfolding names_dev_def using fs_dev_facts by (simp add: mounted_def)
  have "next_fid names_dev = 10" by (simp add: names_dev_def fs_dev_def new_ZenFS_def zbd.defs)
  moreover have "f_linkfiles (file_at names_dev 1) = [''/a'']" by (simp add: names_dev_def)
  moreover show "files names_dev = [(''/a'', 1)]" by (simp add: names_dev_def)
  ultimately show "names_ok names_dev" by (simp add: names_ok_def linked_def file_map_ok_def names_of_def)
  show "(''/a'', 1) \<in> set (files names_dev)" by (simp add: names_dev_def)
qed

lemma sample_paths: "FormatPathLexically ''/a'' = ''/a''" "FormatPathLexically ''/b'' = ''/b''" "c_str ''/a'' = ''/a''" "c_str ''/b'' = ''/b''" "''/a'' \<noteq> ''/b''"
  by code_simp+

section \<open>Properties\<close>

text \<open>
  C29. The map of files and the names recorded in the files agree, each file being listed in the map
  exactly under the names it has itself. Deleting, linking and renaming a file return and keep it so,
  whether or not the change can be made persistent: a deletion that fails leaves the map as it was, a
  link adds the name or leaves the map as it was, and a rename moves the name, possibly over a file
  that had the new name.
\<close>

theorem names_consistent:
  assumes "zoned_backend E cont" "mounted E s" "names_ok s" "(a, f) \<in> set (files s)" "a \<noteq> b"
    and "FormatPathLexically a = a" "c_str a = a" "FormatPathLexically b = b" "c_str b = b"
  shows "(\<exists>st s'. DeleteFileNoLock E F a s = Some (st, s') \<and> names_ok s' \<and> files s' = (if st = OK then map_erase a (files s) else files s)) \<and>
    (\<exists>st s'. LinkFile E F a b s = Some (st, s') \<and> names_ok s' \<and> files s' \<in> {map_insert b f (files s), files s}) \<and>
    (\<exists>st s'. RenameFileNoLock E F a b s = Some (st, s') \<and> names_ok s' \<and> (st \<noteq> OK \<longrightarrow> files s' = files s) \<and>
       files s' \<in> {map_insert b f (map_erase a (map_erase b (files s))), map_erase b (files s), files s})"
proof (intro conjI)
  show "\<exists>st s'. DeleteFileNoLock E F a s = Some (st, s') \<and> names_ok s' \<and> files s' = (if st = OK then map_erase a (files s) else files s)"
    using zoned_backend.delete_names [OF assms(1-4,6,7), of F] by blast
  show "\<exists>st s'. RenameFileNoLock E F a b s = Some (st, s') \<and> names_ok s' \<and> (st \<noteq> OK \<longrightarrow> files s' = files s) \<and>
      files s' \<in> {map_insert b f (map_erase a (map_erase b (files s))), map_erase b (files s), files s}"
    by (rule zoned_backend.rename_over_names [OF assms(1-5,6,8,9)])
  show "\<exists>st s'. LinkFile E F a b s = Some (st, s') \<and> names_ok s' \<and> files s' \<in> {map_insert b f (files s), files s}"
  proof (cases "b \<in> fst ` set (files s)")
    case True
    then have "GetFileNoLock b s \<noteq> None" by (simp add: GetFileNoLock_def assms(8) map_of_eq_None_iff)
    then show ?thesis using assms(3) by (simp add: LinkFile_def assms(8))
  next
    case False
    obtain st s' where "LinkFile E F a b s = Some (OK, s')" "names_ok s'" "files s' = (if st = OK then map_insert b f (files s) else files s)"
      using zoned_backend.link_names [OF assms(1-4) False assms(6,8), of F] by blast
    then show ?thesis by (cases "st = OK") simp_all
  qed
qed

theorem names_consistent_witness:
  "\<exists>st s'. RenameFileNoLock mem_env sample_fenv ''/a'' ''/b'' names_dev = Some (st, s') \<and> names_ok s'"
  using names_consistent [OF mem.zoned_backend_axioms names_dev_facts(1-3) sample_paths(5,1,3,2,4), of sample_fenv] by blast

text \<open>
  C30. A link or a rename to a new name is undone when its metadata cannot be made persistent: the map
  of files is then as before. The failure is lost: the operation reports success whether or not
  synchronising the metadata succeeded.
\<close>

theorem lost_failure:
  assumes "zoned_backend E cont" "mounted E s" "names_ok s" "(a, f) \<in> set (files s)" "b \<notin> fst ` set (files s)"
    and "FormatPathLexically a = a" "FormatPathLexically b = b"
  shows "(\<exists>st s2 s'. SyncFileMetadataNoLock E F False f (move_name f a b (hold_file f s)) = Some (st, s2) \<and>
      RenameFileNoLock E F a b s = Some (OK, s') \<and> names_ok s' \<and> files s' = (if st = OK then map_insert b f (map_erase a (files s)) else files s)) \<and>
    (\<exists>st s2 s'. SyncFileMetadataNoLock E F False f (AddLinkName f b (s\<lparr>files := map_insert b f (files s)\<rparr>)) = Some (st, s2) \<and>
      LinkFile E F a b s = Some (OK, s') \<and> names_ok s' \<and> files s' = (if st = OK then map_insert b f (files s) else files s))"
proof
  have d: "distinct (map fst (files s))" using assms(3) file_map_distinct names_okD by blast
  have get: "GetFileNoLock a s = Some f" "GetFileNoLock b s = None" using assms(4-7) d by (simp_all add: GetFileNoLock_def map_of_eq_None_iff)
  have h: "mounted E (hold_file f s)" "names_ok (hold_file f s)" "(a, f) \<in> set (files (hold_file f s))" "b \<notin> fst ` set (files (hold_file f s))"
    using assms(2-5) by (simp_all add: zoned_backend.held [OF assms(1)])
  obtain st s2 s' where r: "SyncFileMetadataNoLock E F False f (move_name f a b (hold_file f s)) = Some (st, s2)"
      "rename_zone_file E F f a b (hold_file f s) = Some (OK, s')" "names_ok s'"
      "files s' = (if st = OK then map_insert b f (map_erase a (files s)) else files s)"
    using zoned_backend.rename_names [OF assms(1) h, of F, unfolded zoned_backend.held [OF assms(1)]] by blast
  have "RenameFileNoLock E F a b s = Some (OK, drop_file f s')"
    using get r(2) by (subst RenameFileNoLock.simps) (simp add: rename_over_def Let_def assms(6,7))
  then show "\<exists>st s2 s'. SyncFileMetadataNoLock E F False f (move_name f a b (hold_file f s)) = Some (st, s2) \<and>
      RenameFileNoLock E F a b s = Some (OK, s') \<and> names_ok s' \<and> files s' = (if st = OK then map_insert b f (map_erase a (files s)) else files s)"
    using r by - (rule exI [of _ st], rule exI [of _ s2], rule exI [of _ "drop_file f s'"], simp add: zoned_backend.held [OF assms(1)])
  show "\<exists>st s2 s'. SyncFileMetadataNoLock E F False f (AddLinkName f b (s\<lparr>files := map_insert b f (files s)\<rparr>)) = Some (st, s2) \<and>
      LinkFile E F a b s = Some (OK, s') \<and> names_ok s' \<and> files s' = (if st = OK then map_insert b f (files s) else files s)"
    using zoned_backend.link_names [OF assms(1-7), of F] unfolding AddLinkName_def .
qed

theorem lost_failure_witness:
  "\<exists>st s2 s'. SyncFileMetadataNoLock mem_env sample_fenv False 1 (move_name 1 ''/a'' ''/b'' (hold_file 1 names_dev)) = Some (st, s2) \<and>
     RenameFileNoLock mem_env sample_fenv ''/a'' ''/b'' names_dev = Some (OK, s') \<and> files s' = (if st = OK then [(''/b'', 1)] else [(''/a'', 1)])"
proof -
  have m: "map_insert ''/b'' 1 (map_erase ''/a'' [(''/a'', 1)]) = [(''/b'', 1)]" by (simp add: map_erase_def)
  have "''/b'' \<notin> fst ` set (files names_dev)" by (simp add: names_dev_facts(4))
  from lost_failure [OF mem.zoned_backend_axioms names_dev_facts(1-3) this sample_paths(1,2), of sample_fenv]
  show ?thesis unfolding names_dev_facts(4) m by blast
qed

text \<open>
  C31. Renaming a file to the name it already has never succeeds. The file is deleted first; if that is
  made persistent, its name is gone and the operation reports an error.
\<close>

theorem rename_to_itself:
  assumes "zoned_backend E cont" "mounted E s" "names_ok s" "(a, f) \<in> set (files s)" "FormatPathLexically a = a" "c_str a = a"
  shows "\<exists>st s1 s'. DeleteFileNoLock E F a (hold_file f (hold_file f s)) = Some (st, s1) \<and>
    RenameFileNoLock E F a a s = Some (if st = OK then IOError else st, s') \<and> files s' = (if st = OK then map_erase a (files s) else files s)"
  by (rule zoned_backend.rename_self [OF assms])

theorem rename_to_itself_witness:
  "\<exists>st s'. RenameFileNoLock mem_env sample_fenv ''/a'' ''/a'' names_dev = Some (st, s') \<and> st \<noteq> OK"
proof -
  obtain st s' where "RenameFileNoLock mem_env sample_fenv ''/a'' ''/a'' names_dev = Some (if st = OK then IOError else st, s')"
    using rename_to_itself [OF mem.zoned_backend_axioms names_dev_facts(1-3) sample_paths(1,3), of sample_fenv] by blast
  then show ?thesis by (cases "st = OK") simp_all
qed

end
