(* ===== verification/Recovery.thy ===== *)
theory Recovery
  imports NameInv "HOL-Library.Product_Lexorder"
begin

text \<open>
  Mounting and creating a file system (\<open>fs_zenfs.cc\<close>): the records of a metadata log are replayed to
  rebuild the files, starting from the log with the highest sequence number.
\<close>

section \<open>Replaying records\<close>

definition make_file :: "nat \<Rightarrow> ('b, 'a) zenfs \<Rightarrow> fid \<times> ('b, 'a) zenfs" where
  "make_file file_id s = (next_fid s, s\<lparr>file_at := (file_at s)(next_fid s := new_file file_id), next_fid := next_fid s + 1\<rparr>)"

definition seen_id :: "nat \<Rightarrow> ('b, 'a) zenfs \<Rightarrow> ('b, 'a) zenfs" where
  "seen_id i s = (if next_file_id s \<le> i then s\<lparr>next_file_id := add64 i 1\<rparr> else s)"

definition insert_names :: "fid \<Rightarrow> string list \<Rightarrow> ('b, 'a) zenfs \<Rightarrow> ('b, 'a) zenfs" where
  "insert_names f ns s = s\<lparr>files := fold (\<lambda>n. map_insert n f) ns (files s)\<rparr>"

text \<open>Removing all names of a file stops at the first that is missing.\<close>

fun erase_names :: "string list \<Rightarrow> file_map \<Rightarrow> bool \<times> file_map" where
  "erase_names [] m = (True, m)"
| "erase_names (n # ns) m = (if map_of m n = None then (False, m) else erase_names ns (map_erase n m))"

definition DecodeFileUpdateFrom :: "'b env \<Rightarrow> bool \<Rightarrow> string \<Rightarrow> ('b, 'a) zenfs \<Rightarrow> (status \<times> ('b, 'a) zenfs) option" where
  "DecodeFileUpdateFrom E replace slice s =
    (let (update, s) = make_file 0 s; (st, s) = ZoneFile_DecodeFrom E update slice s in
     if st \<noteq> OK then Some (st, expire update s)
     else let i = f_file_id (file_at s update); s = seen_id i s in
       case find (\<lambda>e. f_file_id (file_at s (snd e)) = i) (files s) of
         Some (_, f) \<Rightarrow> let (found, m) = erase_names (f_linkfiles (file_at s f)) (files s); s = s\<lparr>files := m\<rparr> in
           if \<not> found then Some (Corruption, expire update (expire f s))
           else let (st, s) = MergeUpdate f update replace s; s = expire update s in
             if st \<noteq> OK then Some (st, expire f s)
             else Some (OK, expire f (insert_names f (f_linkfiles (file_at s f)) s))
       | None \<Rightarrow> map_option (\<lambda>name. (OK, expire update (s\<lparr>files := map_insert name update (files s)\<rparr>)))
           (ZoneFile_GetFilename (file_at s update)))"

function DecodeSnapshotFrom :: "'b env \<Rightarrow> string \<Rightarrow> ('b, 'a) zenfs \<Rightarrow> status \<times> ('b, 'a) zenfs" where
  "DecodeSnapshotFrom E input s = (case GetLengthPrefixedSlice input of None \<Rightarrow> (OK, s)
     | Some (slice, input) \<Rightarrow>
         let (f, s) = make_file 0 s; (st, s) = ZoneFile_DecodeFrom E f slice s in
         if st \<noteq> OK then (st, expire f s)
         else DecodeSnapshotFrom E input (expire f (insert_names f (f_linkfiles (file_at s f)) (seen_id (f_file_id (file_at s f)) s))))"
  by pat_completeness auto
termination
  by (relation "measure (\<lambda>(E, input, s). length input)") (auto dest: GetLengthPrefixedSlice_shorter)

declare DecodeSnapshotFrom.simps [simp del]

definition DecodeFileDeletionFrom :: "string \<Rightarrow> ('b, 'a) zenfs \<Rightarrow> status \<times> ('b, 'a) zenfs" where
  "DecodeFileDeletionFrom input s = (case GetFixed64 input of None \<Rightarrow> (Corruption, s)
     | Some (fileID, input) \<Rightarrow> (case GetLengthPrefixedSlice input of None \<Rightarrow> (Corruption, s)
       | Some (fileName, _) \<Rightarrow> (case map_of (files s) fileName of None \<Rightarrow> (Corruption, s)
         | Some f \<Rightarrow> if f_file_id (file_at s f) \<noteq> fileID then (Corruption, s)
             else let (st, s) = RemoveLinkName f fileName (s\<lparr>files := map_erase fileName (files s)\<rparr>)
               in (if st \<noteq> OK then Corruption else OK, expire f s))))"

definition replay_record :: "'b env \<Rightarrow> nat \<Rightarrow> string \<Rightarrow> ('b, 'a) zenfs \<Rightarrow> (status \<times> ('b, 'a) zenfs) option" where
  "replay_record E tag data s =
    (if tag = kCompleteFilesSnapshot then Some (DecodeSnapshotFrom E data (ClearFiles s))
     else if tag = kFileUpdate then DecodeFileUpdateFrom E False data s
     else if tag = kFileReplace then DecodeFileUpdateFrom E True data s
     else if tag = kFileDeletion then Some (DecodeFileDeletionFrom data s)
     else Some (Corruption, s))"

partial_function (option) recover_loop :: "'b env \<Rightarrow> crc32c \<Rightarrow> metalog \<Rightarrow> bool \<Rightarrow> ('b, 'a) zenfs \<Rightarrow>
    ((status \<times> metalog) \<times> ('b, 'a) zenfs) option" where
  "recover_loop E crc l at_least_one_snapshot s = Option.bind (ReadRecord E crc l s) (\<lambda>((rs, record), l, s).
     if rs \<noteq> OK then Some ((Corruption, l), s)
     else case GetFixed32 record of
       None \<Rightarrow> Some ((if at_least_one_snapshot then OK else NotFound, l), s)
     | Some (tag, record) \<Rightarrow>
         if tag = kEndRecord then Some ((if at_least_one_snapshot then OK else NotFound, l), s)
         else case GetLengthPrefixedSlice record of None \<Rightarrow> Some ((Corruption, l), s)
           | Some (data, _) \<Rightarrow> Option.bind (replay_record E tag data s) (\<lambda>(st, s).
               if st \<noteq> OK then Some ((st, l), s)
               else recover_loop E crc l (at_least_one_snapshot \<or> tag = kCompleteFilesSnapshot) s))"

definition RecoverFrom :: "'b env \<Rightarrow> 'a fenv \<Rightarrow> metalog \<Rightarrow> ('b, 'a) zenfs \<Rightarrow> ((status \<times> metalog) \<times> ('b, 'a) zenfs) option" where
  "RecoverFrom E F l s = recover_loop E (fe_crc F) l False s"

section \<open>Mounting\<close>

text \<open>
  The metadata zones that hold a superblock, in order. A log that is not kept is destroyed, which
  releases its zone; on an error all logs are.
\<close>

definition delete_logs :: "metalog list \<Rightarrow> ('b, 'a) zenfs \<Rightarrow> ('b, 'a) zenfs" where
  "delete_logs ls s = fold delete_ZenMetaLog ls s"

definition blank_superblock :: superblock where
  "blank_superblock = \<lparr>sb_magic = 0, sb_uuid = replicate 37 (CHR 0x00), sb_sequence = 0, sb_version = 0, sb_flags = 0,
     sb_block_size = 0, sb_zone_size = 0, sb_nr_zones = 0, sb_aux_fs_path = replicate 256 (CHR 0x00), sb_finish_treshold = 0,
     sb_zenfs_version = replicate 64 (CHR 0x00), sb_reserved = replicate 123 (CHR 0x00)\<rparr>"

fun find_logs :: "'b env \<Rightarrow> 'a fenv \<Rightarrow> zid list \<Rightarrow> (superblock \<times> metalog) list \<Rightarrow> ('b, 'a) zenfs \<Rightarrow>
    ((status \<times> (superblock \<times> metalog) list) \<times> ('b, 'a) zenfs) option" where
  "find_logs E F [] valid s = Some ((OK, valid), s)"
| "find_logs E F (z # zs) valid s = (let (got, s) = Acquire z s in
     if \<not> got then Some ((Aborted, []), delete_logs (map snd valid) s)
     else Option.bind (ReadRecord E (fe_crc F) (new_ZenMetaLog z s) s) (\<lambda>((st, super_record), l, s).
       if st \<noteq> OK \<or> super_record = [] then find_logs E F zs valid (delete_ZenMetaLog l s)
       else let (st, b) = Superblock_DecodeFrom super_record blank_superblock;
            st = (if st = OK then CompatibleWith E b else st) in
         if st \<noteq> OK then Some ((st, []), delete_logs (l # map snd valid) s)
         else find_logs E F zs (valid @ [(b, l)]) s))"

text \<open>Recovering from the first log, in the given order, that has a snapshot. The logs not tried are returned.\<close>

fun recover_logs :: "'b env \<Rightarrow> 'a fenv \<Rightarrow> (superblock \<times> metalog) list \<Rightarrow> ('b, 'a) zenfs \<Rightarrow>
    ((status \<times> (superblock \<times> metalog \<times> metalog list) option) \<times> ('b, 'a) zenfs) option" where
  "recover_logs E F [] s = Some ((IOError, None), s)"
| "recover_logs E F ((b, l) # vs) s = Option.bind (RecoverFrom E F l s) (\<lambda>((st, l), s).
     if st = NotFound then recover_logs E F vs (delete_ZenMetaLog l s)
     else if st \<noteq> OK then Some ((st, None), delete_logs (l # map snd vs) s)
     else Some ((OK, Some (b, l, map snd vs)), s))"

definition by_sequence :: "(superblock \<times> metalog) list \<Rightarrow> (superblock \<times> metalog) list" where
  "by_sequence valid = map (\<lambda>(seq, i). valid ! i) (rev (sort (zip (map (sb_sequence \<circ> fst) valid) [0..<length valid])))"

text \<open>Without \<open>readonly\<close> the files are repaired, the log moves to another zone and unused zones are reset.\<close>

definition finish_mount :: "'b env \<Rightarrow> 'a fenv \<Rightarrow> bool \<Rightarrow> superblock \<Rightarrow> ('b, 'a) zenfs \<Rightarrow> (status \<times> ('b, 'a) zenfs) option" where
  "finish_mount E F readonly b s = (if readonly then Some (OK, s)
     else Option.bind (Repair E s) (\<lambda>(st, s). if st \<noteq> OK then Some (st, s)
       else Option.bind (RollMetaZoneLocked E F s) (\<lambda>(st, s). if st \<noteq> OK then Some (st, s)
         else let (st, s) = ResetUnusedIOZones E False s in
           if st \<noteq> OK then Some (st, s)
           else Some (OK, if IsGCEnabled b then s\<lparr>run_gc_worker := True\<rparr> else s))))"

definition set_log :: "metalog \<Rightarrow> ('b, 'a) zenfs \<Rightarrow> ('b, 'a) zenfs" where
  "set_log l s = (case meta_log s of None \<Rightarrow> s | Some old \<Rightarrow> delete_ZenMetaLog old s)\<lparr>meta_log := Some l\<rparr>"

definition Mount :: "'b env \<Rightarrow> 'a fenv \<Rightarrow> bool \<Rightarrow> ('b, 'a) zenfs \<Rightarrow> (status \<times> ('b, 'a) zenfs) option" where
  "Mount E F readonly s = (if length (meta_zones s) < 2 then Some (NotSupported, s)
     else Option.bind (find_logs E F (meta_zones s) [] s) (\<lambda>((st, valid), s).
       if st \<noteq> OK then Some (st, s)
       else if valid = [] then Some (NotFound, s)
       else Option.bind (recover_logs E F (by_sequence valid) s) (\<lambda>((st, r), s).
         case r of None \<Rightarrow> Some (st, s)
         | Some (b, l, others) \<Rightarrow>
             let s = (set_log l s)\<lparr>sblock := Some b, finish_threshold := sb_finish_treshold b\<rparr>;
                 (st, a) = x_create_dir_if_missing (fe_aux F) (GetAuxFsPath b) (aux s);
                 s = delete_logs others (s\<lparr>aux := a\<rparr>)
             in if st \<noteq> OK then Some (st, s) else finish_mount E F readonly b s)))"

section \<open>Creating a file system\<close>

fun reset_meta_zones :: "'b env \<Rightarrow> zid list \<Rightarrow> zid option \<Rightarrow> ('b, 'a) zenfs \<Rightarrow> (status \<times> zid option) \<times> ('b, 'a) zenfs" where
  "reset_meta_zones E [] meta_zone s = ((OK, meta_zone), s)"
| "reset_meta_zones E (z # zs) meta_zone s = (let (got, s) = Acquire z s in
     if \<not> got then ((Aborted, meta_zone), s)
     else let (st, s) = Zone_Reset E z s;
              meta_zone = (if st = OK \<and> meta_zone = None then Some z else meta_zone) in
       if meta_zone \<noteq> Some z then let (ok, s) = Release z s in
         if \<not> ok then ((Aborted, meta_zone), s) else reset_meta_zones E zs meta_zone s
       else reset_meta_zones E zs meta_zone s)"

text \<open>
  \<open>PersistSnapshot\<close> falls back on rolling the log of the file system, which is not set here; the
  new log is destroyed at the end.
\<close>

definition MkFS :: "'b env \<Rightarrow> 'a fenv \<Rightarrow> string \<Rightarrow> nat \<Rightarrow> bool \<Rightarrow> ('b, 'a) zenfs \<Rightarrow> (status \<times> ('b, 'a) zenfs) option" where
  "MkFS E F aux_fs_p threshold enable_gc s = (let aux_fs_path = FormatPathLexically aux_fs_p in
     if 255 < length aux_fs_path then Some (InvalidArgument, s)
     else let (st, s) = ResetUnusedIOZones E False (ClearFiles s) in
       if st \<noteq> OK then Some (st, s)
       else let ((st, meta_zone), s) = reset_meta_zones E (meta_zones s) None s in
         if st \<noteq> OK then Some (st, s)
         else case meta_zone of None \<Rightarrow> Some (IOError, s)
           | Some z \<Rightarrow>
               let l = new_ZenMetaLog z s;
                   (super_string, b) = Superblock_EncodeTo (new_Superblock E (fe_uuid F) (fe_version F) aux_fs_path threshold enable_gc) in
               Option.bind (AddRecord E (fe_crc F) l super_string s) (\<lambda>(st, s).
                 if st \<noteq> OK then Some (st, delete_ZenMetaLog l s)
                 else Option.bind (PersistSnapshot E F l s) (\<lambda>(st, s).
                   Some (if st \<noteq> OK then IOError else OK, delete_ZenMetaLog l s))))"

end
