(* ===== verification/Replay.thy ===== *)
theory Replay
  imports Recovery
begin

text \<open>
  Recovery is correct: reading back a log replays its records in order, and a snapshot restores the
  files as they were.
\<close>

section \<open>Replaying is independent of the device\<close>

text \<open>\<open>on_dev b\<close> lifts a change of the device's state to the result of an operation.\<close>

definition on_dev :: "'b \<Rightarrow> ('r \<times> ('b, 'm) zbd_scheme) \<Rightarrow> 'r \<times> ('b, 'm) zbd_scheme" where
  "on_dev b x = (fst x, (snd x)\<lparr>be := b\<rparr>)"

lemma on_dev_pair [simp]: "on_dev b (r, s) = (r, s\<lparr>be := b\<rparr>)"
  by (simp add: on_dev_def)

lemma GetIOZone_be [simp]: "GetIOZone E p (s\<lparr>be := b\<rparr>) = GetIOZone E p s"
  by (simp add: GetIOZone_def)

lemma add_extent_be: "add_extent f e (s\<lparr>be := b\<rparr>) = (add_extent f e s)\<lparr>be := b\<rparr>"
  by (simp add: add_extent_def)

lemma on_dev_if: "on_dev b (if c then x else y) = (if c then on_dev b x else on_dev b y)"
  by simp

lemma on_dev_option: "on_dev b (case x of None \<Rightarrow> y | Some v \<Rightarrow> g v) = (case x of None \<Rightarrow> on_dev b y | Some v \<Rightarrow> on_dev b (g v))"
  by (cases x) simp_all

lemma be_first: "s\<lparr>be := b, file_at := G\<rparr> = s\<lparr>file_at := G, be := b\<rparr>" "s\<lparr>be := b, zone_at := Z\<rparr> = s\<lparr>zone_at := Z, be := b\<rparr>"
    "t\<lparr>be := b, files := m\<rparr> = t\<lparr>files := m, be := b\<rparr>"
  by simp_all

lemma decode_be: "decode_fields E f input (s\<lparr>be := b\<rparr>) = on_dev b (decode_fields E f input s)"
proof (induction E f input s rule: decode_fields.induct)
  case (1 E f input s)
  show ?case unfolding decode_fields.simps [of E f input "s\<lparr>be := b\<rparr>"] decode_fields.simps [of E f input s] on_dev_option on_dev_if
    by (intro option.case_cong if_cong refl) (auto simp: on_dev_option on_dev_if 1 add_extent_be be_first intro!: option.case_cong split: prod.split)
qed

lemma decode_from_be: "ZoneFile_DecodeFrom E f input (s\<lparr>be := b\<rparr>) = on_dev b (ZoneFile_DecodeFrom E f input s)"
  by (auto simp: ZoneFile_DecodeFrom_def be_first decode_be MetadataSynced_def Let_def on_dev_def split: option.split prod.split)

lemma small_steps_be:
  "ClearExtents f (s\<lparr>be := b\<rparr>) = (ClearExtents f s)\<lparr>be := b\<rparr>"
  "expire f (t\<lparr>be := b\<rparr>) = (expire f t)\<lparr>be := b\<rparr>"
  "insert_names f ns (t\<lparr>be := b\<rparr>) = (insert_names f ns t)\<lparr>be := b\<rparr>"
  "seen_id i (t\<lparr>be := b\<rparr>) = (seen_id i t)\<lparr>be := b\<rparr>"
  "make_file i (t\<lparr>be := b\<rparr>) = on_dev b (make_file i t)"
  "RemoveLinkName f n (s\<lparr>be := b\<rparr>) = on_dev b (RemoveLinkName f n s)"
  by (simp_all add: ClearExtents_def expire_def insert_names_def seen_id_def make_file_def RemoveLinkName_def)

lemma fold_add_be: "fold (\<lambda>e. add_extent f (h e)) es (s\<lparr>be := b\<rparr>) = (fold (\<lambda>e. add_extent f (h e)) es s)\<lparr>be := b\<rparr>"
  by (induction es arbitrary: s) (simp_all add: add_extent_be)

lemma merge_be: "MergeUpdate f u r (s\<lparr>be := b\<rparr>) = on_dev b (MergeUpdate f u r s)"
  by (simp add: MergeUpdate_def Let_def small_steps_be(1) be_first MetadataSynced_def fold_add_be)

lemma snapshot_be: "DecodeSnapshotFrom E input (s\<lparr>be := b\<rparr>) = on_dev b (DecodeSnapshotFrom E input s)"
proof (induction E input s rule: DecodeSnapshotFrom.induct)
  case (1 E input s)
  show ?case unfolding DecodeSnapshotFrom.simps [of E input "s\<lparr>be := b\<rparr>"] DecodeSnapshotFrom.simps [of E input s]
    by (auto simp: small_steps_be decode_from_be Let_def on_dev_def 1 split: option.split prod.split)
qed

lemma update_be: "DecodeFileUpdateFrom E r d (s\<lparr>be := b\<rparr>) = map_option (on_dev b) (DecodeFileUpdateFrom E r d s)"
  by (auto simp: DecodeFileUpdateFrom_def small_steps_be decode_from_be merge_be be_first Let_def on_dev_def option.map_comp comp_def
      split: option.split prod.split)

lemma deletion_be: "DecodeFileDeletionFrom d (s\<lparr>be := b\<rparr>) = on_dev b (DecodeFileDeletionFrom d s)"
  by (auto simp: DecodeFileDeletionFrom_def small_steps_be be_first Let_def on_dev_def split: option.split prod.split)

lemma clear_be: "ClearFiles (s\<lparr>be := b\<rparr>) = (ClearFiles s)\<lparr>be := b\<rparr>"
proof -
  have "fold (\<lambda>e. expire (snd e)) es (t\<lparr>be := b\<rparr>) = (fold (\<lambda>e. expire (snd e)) es t)\<lparr>be := b\<rparr>" for es t
    by (induction es arbitrary: t) (simp_all add: small_steps_be(2))
  then show ?thesis by (simp add: ClearFiles_def be_first)
qed

lemma replay_record_be: "replay_record E tag d (s\<lparr>be := b\<rparr>) = map_option (on_dev b) (replay_record E tag d s)"
  by (simp add: replay_record_def clear_be snapshot_be update_be deletion_be)

section \<open>Replaying keeps the log\<close>

text \<open>Of a zone, replaying only changes the used capacity.\<close>

definition unused :: "zone \<Rightarrow> zone" where
  "unused x = x\<lparr>z_used_capacity := 0\<rparr>"

definition same_zones :: "('b, 'm) zbd_scheme \<Rightarrow> ('b, 'm) zbd_scheme \<Rightarrow> bool" where
  "same_zones s s' \<longleftrightarrow> be s' = be s \<and> unused \<circ> zone_at s' = unused \<circ> zone_at s"

lemma same_zones_refl: "same_zones s s" and same_zones_trans: "same_zones s s1 \<Longrightarrow> same_zones s1 s2 \<Longrightarrow> same_zones s s2"
  by (simp_all add: same_zones_def)

lemma unused_charge [simp]: "unused \<circ> charge z n Z = unused \<circ> Z" "unused \<circ> uncharge z n Z = unused \<circ> Z"
  by (auto simp: fun_eq_iff unused_def charge_def uncharge_def)

lemma unused_fold [simp]: "unused \<circ> fold (\<lambda>e. charge (e_zone e) (e_length e)) es Z = unused \<circ> Z"
  "unused \<circ> fold (\<lambda>e. uncharge (e_zone e) (e_length e)) es Z = unused \<circ> Z"
  by (induction es arbitrary: Z) simp_all

lemma unused_sel: "unused x = unused y \<Longrightarrow> z_start x = z_start y \<and> z_wp x = z_wp y \<and> z_max_capacity x = z_max_capacity y \<and> z_capacity x = z_capacity y"
proof -
  assume a: "unused x = unused y"
  have "z_start (unused z) = z_start z" "z_wp (unused z) = z_wp z" "z_max_capacity (unused z) = z_max_capacity z"
    "z_capacity (unused z) = z_capacity z" for z by (simp_all add: unused_def)
  then show ?thesis using a by metis
qed

lemma same_zones_log:
  assumes "same_zones s s'" "log_holds E crc cont l rs s"
  shows "log_holds E crc cont l rs s'"
proof -
  have "unused (zone_at s' (ml_zone l)) = unused (zone_at s (ml_zone l))" using assms(1) by (simp add: same_zones_def fun_eq_iff)
  note u = unused_sel [OF this, THEN conjunct1] unused_sel [OF this, THEN conjunct2, THEN conjunct1]
    unused_sel [OF this, THEN conjunct2, THEN conjunct2, THEN conjunct1] unused_sel [OF this, THEN conjunct2, THEN conjunct2, THEN conjunct2]
  have b: "be s' = be s" using assms(1) by (simp add: same_zones_def)
  show ?thesis using assms(2) unfolding log_holds_def Let_def zone_wf_def u b .
qed

lemma same_zones_clear: "same_zones s (ClearExtents f s)"
  by (simp add: ClearExtents_def same_zones_def)

lemma same_zones_decode: "same_zones s (snd (ZoneFile_DecodeFrom E f input s))"
  using DecodeFrom_grows [of E f s input] unfolding grows_def by (elim exE conjE) (simp add: same_zones_def)

lemma same_zones_merge: "same_zones s (snd (MergeUpdate f u r s))"
  by (simp add: MergeUpdate_def Let_def fold_add_level same_zones_def MetadataSynced_def ClearExtents_def)

lemma same_zones_steps:
  "same_zones t (expire f t)" "same_zones t (insert_names f ns t)" "same_zones t (seen_id i t)"
  "same_zones t (snd (make_file i t))" "same_zones t (snd (RemoveLinkName f n t))" "same_zones t (t\<lparr>files := m\<rparr>)"
  by (simp_all add: same_zones_clear same_zones_refl expire_def) (simp_all add: same_zones_def insert_names_def seen_id_def make_file_def RemoveLinkName_def)

lemma same_zones_new:
  assumes "make_file i s = (f, s1)" "ZoneFile_DecodeFrom E f d s1 = (st, s2)"
  shows "same_zones s s2"
  using same_zones_trans [of s s1 s2] same_zones_steps(4) [of s i] same_zones_decode [of s1 E f d] assms by simp

lemma same_zones_snapshot: "same_zones s (snd (DecodeSnapshotFrom E input s))"
proof (induction E input s rule: DecodeSnapshotFrom.induct)
  case (1 E input s)
  show ?case
  proof (cases "GetLengthPrefixedSlice input")
    case None
    then show ?thesis by (simp add: DecodeSnapshotFrom.simps [of E input s] same_zones_refl)
  next
    case (Some a)
    obtain d rest where a: "a = (d, rest)" by fastforce
    obtain f s1 where m: "make_file 0 s = (f, s1)" by fastforce
    obtain st s2 where de: "ZoneFile_DecodeFrom E f d s1 = (st, s2)" by fastforce
    note s2 = same_zones_new [OF m de]
    let ?s3 = "expire f (insert_names f (f_linkfiles (file_at s2 f)) (seen_id (f_file_id (file_at s2 f)) s2))"
    have s3: "same_zones s ?s3" by (intro same_zones_trans [OF _ same_zones_steps(1)] same_zones_trans [OF _ same_zones_steps(2)]
        same_zones_trans [OF _ same_zones_steps(3)] s2)
    have e: "same_zones s (expire f s2)" by (rule same_zones_trans [OF s2 same_zones_steps(1)])
    show ?thesis
    proof (cases "st = OK")
      case True
      have "same_zones ?s3 (snd (DecodeSnapshotFrom E rest ?s3))"
        using 1 [OF Some a [symmetric] refl m [symmetric] refl de [symmetric]] True by simp
      then show ?thesis using same_zones_trans [OF s3] Some a m de True by (simp add: DecodeSnapshotFrom.simps [of E input s])
    qed (use e Some a m de in \<open>simp add: DecodeSnapshotFrom.simps [of E input s]\<close>)
  qed
qed

lemma same_zones_update: "DecodeFileUpdateFrom E r d s = Some (st, s') \<Longrightarrow> same_zones s s'"
proof -
  assume run: "DecodeFileUpdateFrom E r d s = Some (st, s')"
  obtain u s1 where m: "make_file 0 s = (u, s1)" by fastforce
  obtain st2 s2 where de: "ZoneFile_DecodeFrom E u d s1 = (st2, s2)" by fastforce
  note s2 = same_zones_new [OF m de]
  let ?i = "f_file_id (file_at s2 u)"
  define s3 where "s3 = seen_id ?i s2"
  have s3: "same_zones s s3" unfolding s3_def by (rule same_zones_trans [OF s2 same_zones_steps(3)])
  note ex = same_zones_trans [OF _ same_zones_steps(1)] and nm = same_zones_trans [OF _ same_zones_steps(2)]
    and fl = same_zones_trans [OF _ same_zones_steps(6)]
  consider "st2 \<noteq> OK" | "st2 = OK" "find (\<lambda>e. f_file_id (file_at s3 (snd e)) = ?i) (files s3) = None"
    | n f where "st2 = OK" "find (\<lambda>e. f_file_id (file_at s3 (snd e)) = ?i) (files s3) = Some (n, f)" by fastforce
  then show ?thesis
  proof cases
    case 1
    then have "s' = expire u s2" using run m de by (simp add: DecodeFileUpdateFrom_def)
    then show ?thesis using ex [OF s2] by simp
  next
    case 2
    then obtain name where "s' = expire u (s3\<lparr>files := map_insert name u (files s3)\<rparr>)"
      using run m de s3_def by (auto simp: DecodeFileUpdateFrom_def Let_def)
    then show ?thesis using ex [OF fl [OF s3]] by simp
  next
    case 3
    obtain found m' where er: "erase_names (f_linkfiles (file_at s3 f)) (files s3) = (found, m')" by fastforce
    obtain st4 s4 where me: "MergeUpdate f u r (s3\<lparr>files := m'\<rparr>) = (st4, s4)" by fastforce
    have s4: "same_zones s s4" using same_zones_trans [OF fl [OF s3] same_zones_merge [of "s3\<lparr>files := m'\<rparr>" f u r]] me by simp
    have "s' = expire u (expire f (s3\<lparr>files := m'\<rparr>)) \<or> s' = expire f (expire u s4) \<or>
        s' = expire f (insert_names f (f_linkfiles (file_at (expire u s4) f)) (expire u s4))"
      using run m de 3 er me s3_def by (auto simp: DecodeFileUpdateFrom_def Let_def split: if_splits)
    then show ?thesis using ex [OF ex [OF fl [OF s3]]] ex [OF ex [OF s4]] ex [OF nm [OF ex [OF s4]]] by blast
  qed
qed

lemma same_zones_deletion: "same_zones s (snd (DecodeFileDeletionFrom d s))"
proof -
  have "same_zones s (expire f (snd (RemoveLinkName f n (s\<lparr>files := m\<rparr>))))" for f n m
    by (intro same_zones_trans [OF _ same_zones_steps(1)] same_zones_trans [OF _ same_zones_steps(5)] same_zones_steps(6))
  then show ?thesis by (simp add: DecodeFileDeletionFrom_def Let_def same_zones_refl case_prod_beta split: option.split prod.split)
qed

lemma same_zones_expire_all: "same_zones t (fold (\<lambda>e. expire (snd e)) es t)"
proof (induction es arbitrary: t)
  case (Cons e es)
  show ?case unfolding fold_simps by (rule same_zones_trans [OF same_zones_steps(1) Cons.IH])
qed (simp add: same_zones_refl)

lemma same_zones_clear_files: "same_zones s (ClearFiles s)"
  unfolding ClearFiles_def by (rule same_zones_trans [OF same_zones_steps(6) same_zones_expire_all])

lemma same_zones_replay: "replay_record E tag d s = Some (st, s') \<Longrightarrow> same_zones s s'"
  using same_zones_update [of E _ d s st s'] same_zones_deletion [of s d] same_zones_trans [OF same_zones_clear_files same_zones_snapshot, of s E d]
  by (auto simp: replay_record_def same_zones_refl split: if_splits)

section \<open>Reading a log replays its records\<close>

text \<open>What the records of a log mean: they are replayed in order up to an end record.\<close>

fun replay :: "'b env \<Rightarrow> bool \<Rightarrow> string list \<Rightarrow> ('b, 'a) zenfs \<Rightarrow> (status \<times> ('b, 'a) zenfs) option" where
  "replay E snapshot [] s = Some (if snapshot then OK else NotFound, s)"
| "replay E snapshot (r # rs) s = (case GetFixed32 r of
     None \<Rightarrow> Some (if snapshot then OK else NotFound, s)
   | Some (tag, body) \<Rightarrow> if tag = kEndRecord then Some (if snapshot then OK else NotFound, s)
       else case GetLengthPrefixedSlice body of None \<Rightarrow> Some (Corruption, s)
         | Some (data, _) \<Rightarrow> Option.bind (replay_record E tag data s) (\<lambda>(st, s).
             if st \<noteq> OK then Some (st, s) else replay E (snapshot \<or> tag = kCompleteFilesSnapshot) rs s))"

lemma bind_on_dev:
  assumes "\<And>st t. g (st, t\<lparr>be := b\<rparr>) = map_option (on_dev b) (g (st, t))"
  shows "Option.bind (map_option (on_dev b) x) g = map_option (on_dev b) (Option.bind x g)"
proof (cases x)
  case (Some a)
  then show ?thesis using assms [of "fst a" "snd a"] by (cases a) simp
qed simp

lemma replay_be: "replay E snap rs (s\<lparr>be := b\<rparr>) = map_option (on_dev b) (replay E snap rs s)"
proof (induction rs arbitrary: snap s)
  case (Cons r rs)
  show ?case
  proof (cases "GetFixed32 r")
    case (Some a)
    obtain tag body where a: "a = (tag, body)" by fastforce
    show ?thesis
    proof (cases "tag = kEndRecord \<or> GetLengthPrefixedSlice body = None")
      case False
      then obtain data w where d: "GetLengthPrefixedSlice body = Some (data, w)" by auto
      have "tag \<noteq> kEndRecord" using False by simp
      then show ?thesis using Some a d by (simp add: replay_record_be) (rule bind_on_dev, simp add: Cons.IH)
    qed (use Some a in auto)
  qed simp
qed simp

context zoned_backend
begin

lemma recover_replays:
  assumes "responsive E" "\<And>c d. crc c d < 2 ^ 32"
  shows "log_holds E crc cont l rs s \<Longrightarrow>
    (\<exists>l' b. recover_loop E crc l snap s = map_option (\<lambda>(st, s'). ((st, l'), s'\<lparr>be := b\<rparr>)) (replay E snap rs s)) \<or>
    (\<not> readable E \<and> (\<exists>l' s'. recover_loop E crc l snap s = Some ((Corruption, l'), s')))"
proof (induction rs arbitrary: l snap s)
  case Nil
  then have "ReadRecord E crc l s = Some ((OK, []), l, s\<lparr>be := be s\<rparr>)"
    by (simp add: ReadRecord_def MetaLog_Read_def log_holds_def Let_def log_bytes_def)
  then have "recover_loop E crc l snap s = map_option (\<lambda>(st, s'). ((st, l), s'\<lparr>be := be s\<rparr>)) (replay E snap [] s)"
    by (simp add: recover_loop.simps [of E crc l] GetFixed32_def)
  then show ?case by blast
next
  case (Cons r rs)
  from read_record_holds [OF assms Cons.prems] obtain b l1 out
    where "\<not> readable E \<and> ReadRecord E crc l s = Some ((IOError, out), l1, s\<lparr>be := b\<rparr>) \<or>
      ReadRecord E crc l s = Some ((OK, r), l1, s\<lparr>be := b\<rparr>) \<and> log_holds E crc cont l1 rs (s\<lparr>be := b\<rparr>)" by blast
  then consider "\<not> readable E" "ReadRecord E crc l s = Some ((IOError, out), l1, s\<lparr>be := b\<rparr>)"
    | "ReadRecord E crc l s = Some ((OK, r), l1, s\<lparr>be := b\<rparr>)" "log_holds E crc cont l1 rs (s\<lparr>be := b\<rparr>)" by blast
  then show ?case
  proof cases
    case 1
    then show ?thesis by (simp add: recover_loop.simps [of E crc l])
  next
    case 2
    note unf = recover_loop.simps [of E crc l snap s, unfolded 2(1)]
    show ?thesis
    proof (cases "\<exists>tag body data w st s2. GetFixed32 r = Some (tag, body) \<and> tag \<noteq> kEndRecord \<and> GetLengthPrefixedSlice body = Some (data, w) \<and>
        replay_record E tag data s = Some (OK, s2)")
      case False
      then have "recover_loop E crc l snap s = map_option (\<lambda>(st, s'). ((st, l1), s'\<lparr>be := b\<rparr>)) (replay E snap (r # rs) s)"
        unfolding unf by (auto simp: replay_record_be on_dev_def split: option.split prod.split Option.bind_splits)
      then show ?thesis by blast
    next
      case True
      then obtain tag body data w s2 where t: "GetFixed32 r = Some (tag, body)" "tag \<noteq> kEndRecord" "GetLengthPrefixedSlice body = Some (data, w)"
          "replay_record E tag data s = Some (OK, s2)" by blast
      let ?snap = "snap \<or> tag = kCompleteFilesSnapshot"
      have go: "recover_loop E crc l snap s = recover_loop E crc l1 ?snap (s2\<lparr>be := b\<rparr>)" unfolding unf using t by (simp add: replay_record_be)
      have rp: "replay E snap (r # rs) s = replay E ?snap rs s2" using t by simp
      have "same_zones (s\<lparr>be := b\<rparr>) (s2\<lparr>be := b\<rparr>)" using same_zones_replay [OF t(4)] by (simp add: same_zones_def)
      from Cons.IH [OF same_zones_log [OF this 2(2)], of ?snap] show ?thesis
        unfolding go rp replay_be by (simp add: option.map_comp comp_def case_prod_beta on_dev_def)
    qed
  qed
qed

end

end
