(* ===== verification/Restore.thy ===== *)
theory Restore
  imports Replay
begin

text \<open>
  Recovery restores the files of the file system whose snapshot a metadata log holds.
\<close>

section \<open>A snapshot restores the files\<close>

definition enc_file :: "('b, 'a) zenfs \<Rightarrow> string \<times> fid \<Rightarrow> string" where
  "enc_file s e = PutLengthPrefixedSlice [] (EncodeSnapshotTo (file_at s (snd e)) [])"

lemma snapshot_record: "FS_EncodeSnapshotTo s = le_bytes 4 kCompleteFilesSnapshot @ PutLengthPrefixedSlice [] (concat (map (enc_file s) (files s)))"
proof -
  have "foldl (\<lambda>out (name, f). PutLengthPrefixedSlice out (EncodeSnapshotTo (file_at s f) [])) out es = out @ concat (map (enc_file s) es)" for out es
    by (induction es arbitrary: out) (simp_all add: enc_file_def case_prod_beta put_slice [of "_ @ _"] put_slice [of "_ # _"], metis append_assoc put_slice)
  then show ?thesis unfolding FS_EncodeSnapshotTo_def by (subst put_slice) (simp add: put_fixed)
qed

text \<open>\<open>restored s D G t\<close>: the files \<open>D\<close> of \<open>s\<close> have been restored in \<open>t\<close>, each as the object \<open>G\<close> gives.\<close>

definition restored :: "('b, 'a) zenfs \<Rightarrow> fid set \<Rightarrow> (fid \<Rightarrow> fid) \<Rightarrow> ('b, 'a) zenfs \<Rightarrow> bool" where
  "restored s D G t \<longleftrightarrow> inj_on G D \<and> file_map_ok (files t) \<and> set (files t) = {(n, G f) | n f. f \<in> D \<and> (n, f) \<in> set (files s)} \<and>
     (\<forall>f \<in> D. G f < next_fid t \<and> persisted (file_at t (G f)) = persisted (file_at s f)) \<and> accounted (G ` D) t \<and>
     (\<forall>g \<ge> next_fid t. refs t g = 0)"

lemma insert_present: "file_map_ok m \<Longrightarrow> set ns \<subseteq> fst ` set m \<Longrightarrow> fold (\<lambda>n. map_insert n g) ns m = m"
  by (induction ns) (simp_all add: map_insert_present)

lemma insert_new: "file_map_ok m \<Longrightarrow> set ns \<inter> fst ` set m = {} \<Longrightarrow> distinct ns \<Longrightarrow>
    file_map_ok (fold (\<lambda>n. map_insert n g) ns m) \<and> set (fold (\<lambda>n. map_insert n g) ns m) = set m \<union> (\<lambda>n. (n, g)) ` set ns"
proof (induction ns arbitrary: m)
  case (Cons n ns)
  have n: "n \<notin> fst ` set m" using Cons.prems(2) by auto
  have "set ns \<inter> fst ` set (map_insert n g m) = {}" using Cons.prems(2,3) by (auto simp: set_map_insert [OF n])
  from Cons.IH [OF file_map_insert [OF Cons.prems(1)] this] Cons.prems(3) show ?case by (simp add: set_map_insert [OF n])
qed simp

lemma accounted_new:
  assumes "accounted fs s" "g \<notin> fs" "f_extents (file_at s' g) = []" "zone_at s' = zone_at s" "\<And>f. f \<in> fs \<Longrightarrow> file_at s' f = file_at s f"
  shows "accounted (insert g fs) s'"
  using assms by (simp add: accounted_def)

lemma encodable_cong:
  assumes "io_zones s' = io_zones s" "\<And>z. z_start (zone_at s' z) = z_start (zone_at s z)"
  shows "encodable E s' x = encodable E s x"
proof -
  have "GetIOZone E p s' = GetIOZone E p s" for p by (rule GetIOZone_cong [OF assms])
  then show ?thesis by (simp add: encodable_def)
qed

lemma charged_start [simp]: "z_start (charged es Z z) = z_start (Z z)"
  by (simp add: charged_def)

text \<open>One round of decoding, before and after the names are entered.\<close>

lemma snapshot_round:
  assumes "encodable E t x" "used_ok t" "length (EncodeSnapshotTo x []) < 2 ^ 32"
  defines "g \<equiv> next_fid t"
  defines "t2 \<equiv> t\<lparr>zone_at := charged (f_extents x) (zone_at t), file_at := (file_at t)(g := decoded x 0 (new_file 0)), next_fid := g + 1\<rparr>"
  shows "DecodeSnapshotFrom E (PutLengthPrefixedSlice [] (EncodeSnapshotTo x []) @ rest) t =
    DecodeSnapshotFrom E rest (expire g (insert_names g (f_linkfiles x) (seen_id (f_file_id x) t2)))"
proof -
  define t1 where "t1 = t\<lparr>file_at := (file_at t)(g := new_file 0), next_fid := g + 1\<rparr>"
  have "encodable E t1 x = encodable E t x" by (rule encodable_cong) (simp_all add: t1_def)
  then have "encodable E t1 x" "used_ok t1" "fresh (file_at t1 g)"
    using assms(1,2) by (simp_all add: used_ok_def new_file_fresh t1_def)
  from decode_encoded [OF this, of 0]
  have de: "ZoneFile_DecodeFrom E g (EncodeSnapshotTo x []) t1 = (OK, t2)" by (simp add: EncodeSnapshotTo_def t2_def t1_def)
  have "f_linkfiles (file_at t2 g) = f_linkfiles x" "f_file_id (file_at t2 g) = f_file_id x" by (simp_all add: t2_def decoded_def)
  moreover have "make_file 0 t = (g, t1)" by (simp add: make_file_def g_def t1_def)
  ultimately show ?thesis unfolding DecodeSnapshotFrom.simps [of E "_ @ _"] GetLengthPrefixedSlice_put [OF assms(3)]
    by (simp add: de)
qed

definition entered :: "zonefile \<Rightarrow> ('b, 'a) zenfs \<Rightarrow> ('b, 'a) zenfs" where
  "entered x t = (let g = next_fid t in insert_names g (f_linkfiles x) (seen_id (f_file_id x)
     (t\<lparr>zone_at := charged (f_extents x) (zone_at t), file_at := (file_at t)(g := decoded x 0 (new_file 0)), next_fid := g + 1\<rparr>)))"

lemma entered_sel:
  "files (entered x t) = fold (\<lambda>n. map_insert n (next_fid t)) (f_linkfiles x) (files t)" "refs (entered x t) = refs t"
  "next_fid (entered x t) = next_fid t + 1" "zone_at (entered x t) = charged (f_extents x) (zone_at t)"
  "file_at (entered x t) = (file_at t)(next_fid t := decoded x 0 (new_file 0))" "io_zones (entered x t) = io_zones t"
  by (simp_all add: entered_def Let_def insert_names_def seen_id_def)

lemma restored_again:
  assumes "restored s D G t" "names_ok s" "f \<in> D" "f \<in> snd ` set (files s)" "encodable E t (file_at s f)"
  shows "restored s D G (ClearExtents (next_fid t) (entered (file_at s f) t))"
    "expire (next_fid t) (entered (file_at s f) t) = ClearExtents (next_fid t) (entered (file_at s f) t)"
proof -
  let ?x = "file_at s f" let ?g = "next_fid t" let ?es = "f_extents ?x" let ?ls = "map (e_level_update (\<lambda>_. -1)) ?es"
  note r = assms(1) [unfolded restored_def]
  have l: "set (f_linkfiles ?x) = names_of f (files s)" using names_okD(2) [OF assms(2,4)] by (simp add: linked_def)
  have "(n, G f) \<in> set (files t)" if "n \<in> set (f_linkfiles ?x)" for n using r assms(3) that l by (auto simp: names_of_def)
  then have "set (f_linkfiles ?x) \<subseteq> fst ` set (files t)" by force
  then have fl: "files (entered ?x t) = files t" using r insert_present by (simp add: entered_sel)
  have lt: "G h \<noteq> ?g" if "h \<in> D" for h using r that by fastforce
  then have "?g \<notin> snd ` set (files t)" using r by auto
  then show ex: "expire ?g (entered ?x t) = ClearExtents ?g (entered ?x t)" using r by (simp add: expire_def fl entered_sel(2))
  have u: "\<forall>z. z_used_capacity (zone_at t z) < 2 ^ 64" using accounted_used_ok r by (auto simp: used_ok_def)
  have "\<forall>e \<in> set ?ls. e_length e < 2 ^ 64" using assms(5) by (auto simp: encodable_def)
  from fold_uncharge [OF u this, of "[]"]
  have z: "zone_at (ClearExtents ?g (entered ?x t)) = zone_at t" using charged_Nil [OF u] by (simp add: ClearExtents_def entered_sel decoded_def)
  have fa: "file_at (ClearExtents ?g (entered ?x t)) h = file_at t h" if "h \<noteq> ?g" for h using that by (simp add: ClearExtents_def entered_sel)
  have ac: "accounted (G ` D) t" using r by blast
  have "accounted (G ` D) (ClearExtents ?g (entered ?x t))"
  proof (rule accounted_cong [OF ac z])
    show "f_extents (file_at (ClearExtents ?g (entered ?x t)) h) = f_extents (file_at t h)" if "h \<in> G ` D" for h
      using that lt by (subst fa) auto
  qed
  moreover have "files (ClearExtents ?g (entered ?x t)) = files t" "next_fid (ClearExtents ?g (entered ?x t)) = ?g + 1" "refs (ClearExtents ?g (entered ?x t)) = refs t"
    by (simp_all add: ClearExtents_def fl) (simp_all add: entered_sel)
  ultimately show "restored s D G (ClearExtents ?g (entered ?x t))" using r lt fa unfolding restored_def by (auto simp: less_Suc_eq)
qed

lemma restored_next:
  assumes "restored s D G t" "names_ok s" "f \<notin> D" "(n, f) \<in> set (files s)" "encodable E t (file_at s f)"
  shows "restored s (insert f D) (G(f := next_fid t)) (entered (file_at s f) t)"
    "expire (next_fid t) (entered (file_at s f) t) = entered (file_at s f) t"
proof -
  let ?x = "file_at s f" let ?g = "next_fid t" let ?G = "G(f := next_fid t)" let ?t = "entered ?x t"
  note r = assms(1) [unfolded restored_def]
  have l: "set (f_linkfiles ?x) = names_of f (files s)" "distinct (f_linkfiles ?x)"
    using names_okD(2) [OF assms(2), of f] imageI [OF assms(4), of snd] by (simp_all add: linked_def)
  have fm: "file_map_ok (files t)" and fs: "set (files t) = {(n, G f) | n f. f \<in> D \<and> (n, f) \<in> set (files s)}" and ac: "accounted (G ` D) t" using r by blast+
  have dj: "set (f_linkfiles ?x) \<inter> fst ` set (files t) = {}"
  proof (rule ccontr)
    assume "set (f_linkfiles ?x) \<inter> fst ` set (files t) \<noteq> {}"
    then obtain k h where k: "k \<in> set (f_linkfiles ?x)" "h \<in> D" "(k, h) \<in> set (files s)" unfolding fs by auto
    then have "(k, f) \<in> set (files s)" using l(1) by (simp add: names_of_def)
    then show False using names_unique [OF names_okD(1) [OF assms(2)] k(3)] k(2) assms(3) by blast
  qed
  note new = insert_new [OF fm dj l(2), of ?g]
  have lt: "G h < ?g" if "h \<in> D" for h using r that by blast
  have GD: "?G ` insert f D = insert ?g (G ` D)" using assms(3) by auto
  have "n \<in> set (f_linkfiles ?x)" using l(1) assms(4) by (simp add: names_of_def)
  then show "expire ?g ?t = ?t" using new by (force simp: expire_def entered_sel(1))
  have files: "set (files ?t) = {(n, ?G h) | n h. h \<in> insert f D \<and> (n, h) \<in> set (files s)}"
    using new l(1) assms(3) by (auto simp: entered_sel(1) fs names_of_def)
  define t1 where "t1 = t\<lparr>file_at := (file_at t)(?g := new_file 0)\<rparr>"
  have gn: "?g \<notin> G ` D" using lt by fastforce
  have a1: "accounted (insert ?g (G ` D)) t1"
  proof (rule accounted_new [OF ac gn])
    show "file_at t1 h = file_at t h" if "h \<in> G ` D" for h using that gn by (cases "h = ?g") (simp_all add: t1_def)
  qed (simp_all add: t1_def new_file_fresh [unfolded fresh_def])
  have "accounted (insert ?g (G ` D)) (t1\<lparr>zone_at := fold (\<lambda>e. charge (e_zone e) (e_length e)) (map (e_level_update (\<lambda>_. -1)) (f_extents ?x)) (zone_at t1),
      file_at := (file_at t1)(?g := decoded ?x 0 (new_file 0))\<rparr>)"
    by (rule charged_accounted [OF a1]) (simp_all add: decoded_def t1_def new_file_fresh [unfolded fresh_def])
  moreover have "\<forall>z. z_used_capacity (zone_at t1 z) < 2 ^ 64" using accounted_used_ok [OF ac] by (simp add: used_ok_def t1_def)
  ultimately have "accounted (?G ` insert f D) ?t" unfolding GD
    by - (erule accounted_cong, simp_all add: fold_charge entered_sel t1_def)
  moreover have "persisted (decoded ?x 0 (new_file 0)) = persisted ?x" by (simp add: persisted_decoded)
  moreover have "inj_on ?G (insert f D)"
  proof -
    have "inj_on ?G D" using conjunct1 [OF r] assms(3) by (metis fun_upd_other inj_on_cong)
    moreover have "?G ` (D - {f}) = G ` D" using assms(3) by (intro image_cong) auto
    ultimately show ?thesis using gn by simp
  qed
  moreover have "file_map_ok (files ?t)" using new by (simp add: entered_sel(1))
  moreover have "\<forall>g \<ge> next_fid ?t. refs ?t g = 0" using r by (simp add: entered_sel)
  moreover have "?G h < next_fid ?t \<and> persisted (file_at ?t (?G h)) = persisted (file_at s h)" if "h \<in> insert f D" for h
    using that r lt [of h] persisted_decoded [of ?x 0 "new_file 0"] by (cases "h = f") (auto simp: entered_sel)
  ultimately show "restored s (insert f D) ?G ?t" unfolding restored_def using files by blast
qed

lemma snapshot_all:
  assumes "names_ok s" "set es \<subseteq> set (files s)" "restored s D G t" "used_ok t"
    and "\<forall>f \<in> snd ` set es. encodable E t (file_at s f) \<and> length (EncodeSnapshotTo (file_at s f) []) < 2 ^ 32"
  shows "\<exists>G' t'. DecodeSnapshotFrom E (concat (map (enc_file s) es)) t = (OK, t') \<and> restored s (D \<union> snd ` set es) G' t'"
  using assms(2-5)
proof (induction es arbitrary: D G t)
  case Nil
  have "GetLengthPrefixedSlice [] = None" by code_simp
  then show ?case using Nil by (auto simp: DecodeSnapshotFrom.simps [of E "[]"])
next
  case (Cons e es)
  obtain n f where e: "e = (n, f)" by fastforce
  let ?x = "file_at s f" let ?t = "expire (next_fid t) (entered ?x t)"
  have x: "encodable E t ?x" "length (EncodeSnapshotTo ?x []) < 2 ^ 32" "(n, f) \<in> set (files s)" "f \<in> snd ` set (files s)"
    using Cons.prems(1,4) e by force+
  have "DecodeSnapshotFrom E (enc_file s e @ rest) t = DecodeSnapshotFrom E rest ?t" for rest
    using snapshot_round [OF x(1) Cons.prems(3) x(2), of rest] by (simp add: enc_file_def e entered_def Let_def)
  then have go: "DecodeSnapshotFrom E (concat (map (enc_file s) (e # es))) t = DecodeSnapshotFrom E (concat (map (enc_file s) es)) ?t" by simp
  obtain G' where r: "restored s (insert f D) G' ?t"
  proof (cases "f \<in> D")
    case True
    then show ?thesis using restored_again [OF Cons.prems(2) assms(1) True x(4,1)] that by (simp add: insert_absorb)
  qed (use restored_next [OF Cons.prems(2) assms(1) _ x(3,1)] that in simp)
  have st: "z_start (zone_at ?t z) = z_start (zone_at t z)" "io_zones ?t = io_zones t" for z
    using unused_sel [of "zone_at ?t z" "zone_at (entered ?x t) z"] same_zones_steps(1) [of "entered ?x t" "next_fid t"]
    by (simp_all add: same_zones_def fun_eq_iff entered_sel) (simp add: expire_def ClearExtents_def entered_sel)
  have "encodable E ?t (file_at s h) = encodable E t (file_at s h)" for h by (rule encodable_cong) (simp_all add: st)
  then have "\<forall>h \<in> snd ` set es. encodable E ?t (file_at s h) \<and> length (EncodeSnapshotTo (file_at s h) []) < 2 ^ 32" using Cons.prems(4) by simp
  moreover have "used_ok ?t" using r accounted_used_ok by (auto simp: restored_def)
  ultimately have "\<exists>G' t'. DecodeSnapshotFrom E (concat (map (enc_file s) es)) ?t = (OK, t') \<and> restored s (insert f D \<union> snd ` set es) G' t'"
    using Cons.IH [OF _ r] Cons.prems(1) by auto
  then show ?case unfolding go by (simp add: e)
qed

lemma restored_files:
  assumes "names_ok s" "restored s (snd ` set (files s)) G t"
  shows "files t = map (map_prod id G) (files s)"
proof (rule file_map_eqI)
  show "file_map_ok (files t)" using assms(2) by (simp add: restored_def)
  show "file_map_ok (map (map_prod id G) (files s))" using names_okD(1) [OF assms(1)] by (simp add: file_map_ok_def comp_def)
  have "set (files t) = {(n, G f) | n f. f \<in> snd ` set (files s) \<and> (n, f) \<in> set (files s)}" using assms(2) unfolding restored_def by blast
  also have "\<dots> = set (map (map_prod id G) (files s))" by force
  finally show "set (files t) = set (map (map_prod id G) (files s))" .
qed

lemma length_slice: "length d \<le> length (PutLengthPrefixedSlice [] d)"
  by (simp add: PutLengthPrefixedSlice_def)

lemma length_member: "x \<in> set xs \<Longrightarrow> length (g x) \<le> length (concat (map g xs))"
  by (induction xs) auto

lemma readable_responsive: "readable E \<Longrightarrow> responsive E"
  unfolding readable_def responsive_def by blast

lemma replay_snapshot:
  assumes "names_ok s" "\<forall>f \<in> snd ` set (files s). encodable E t (file_at s f)" "files t = []" "accounted {} t" "\<forall>g \<ge> next_fid t. refs t g = 0"
    and "length (FS_EncodeSnapshotTo s) < 2 ^ 32"
  shows "\<exists>G t'. replay E False [FS_EncodeSnapshotTo s] t = Some (OK, t') \<and> restored s (snd ` set (files s)) G t'"
proof -
  let ?p = "concat (map (enc_file s) (files s))"
  have p: "length ?p < 2 ^ 32" using assms(6) length_slice [of ?p] by (simp add: snapshot_record)
  have "length (EncodeSnapshotTo (file_at s f) []) < 2 ^ 32" if f: "f \<in> snd ` set (files s)" for f
  proof -
    obtain e where "e \<in> set (files s)" "f = snd e" using f by blast
    then show ?thesis
      using length_member [of e "files s" "enc_file s"] length_slice [of "EncodeSnapshotTo (file_at s f) []"] p unfolding enc_file_def by simp
  qed
  moreover have "restored s {} id t" using assms(3-5) by (simp add: restored_def file_map_ok_def)
  ultimately obtain G t' where d: "DecodeSnapshotFrom E ?p t = (OK, t')" "restored s (snd ` set (files s)) G t'"
    using snapshot_all [OF assms(1) subset_refl, of "{}" id t E] accounted_used_ok [OF assms(4)] assms(2) by auto
  have "GetFixed32 (FS_EncodeSnapshotTo s) = Some (kCompleteFilesSnapshot, PutLengthPrefixedSlice [] ?p)" by (simp add: snapshot_record get_fixed)
  moreover have "GetLengthPrefixedSlice (PutLengthPrefixedSlice [] ?p) = Some (?p, [])" using GetLengthPrefixedSlice_put [OF p, of "[]"] by simp
  moreover have "ClearFiles t = t" using assms(3) by (simp add: ClearFiles_def)
  ultimately have "replay E False [FS_EncodeSnapshotTo s] t = Some (OK, t')" using d(1) by (simp add: replay_record_def)
  then show ?thesis using d(2) by blast
qed

section \<open>A device with large zones\<close>

definition big_env :: "(nat \<Rightarrow> char) zbdlib env" where
  "big_env = zbdlib_env mem_os (mem_info\<lparr>zi_zone_size := 4096\<rparr>) (\<lambda>_ xs. rev xs) mem_sort"

interpretation big: zoned_backend big_env mem_cont
  unfolding big_env_def using zbdlib_backend [OF mem_os_laws] .

lemma big_env_facts: "readable big_env" "zone_sz big_env = 4096" "block_sz big_env = 4"
  by (simp_all add: big_env_def zbdlib_env_def mem_info_def)
    (auto simp: readable_def big_env_def zbdlib_env_def zbdlib_Read_def mem_os_def bytes_at_def)

text \<open>A file system with a file that has two names, and a device on which its snapshot was left by a crash.\<close>

definition shot_file :: zonefile where
  "shot_file = (new_file 7)\<lparr>f_file_size := 3, f_extents := [\<lparr>e_start = 12288, e_length = 3, e_zone = 3, e_level = 0\<rparr>], f_linkfiles := [''/a'', ''/b'']\<rparr>"

definition shot_fs :: "((nat \<Rightarrow> char) zbdlib, unit) zenfs" where
  "shot_fs = fs_dev\<lparr>files := [(''/a'', 1), (''/b'', 1)], file_at := (\<lambda>_. shot_file)\<rparr>"

definition shot_bytes :: string where
  "shot_bytes = record_buffer big_env sample_crc (FS_EncodeSnapshotTo shot_fs)"

definition crash_dev :: "((nat \<Rightarrow> char) zbdlib, unit) zenfs" where
  "crash_dev = fs_dev\<lparr>be := (be fs_dev)\<lparr>zl_os := overwrite 0 shot_bytes (\<lambda>_. CHR 0x00)\<rparr>,
     zone_at := (\<lambda>z. (zone_at fs_dev z)\<lparr>z_start := 4096 * z, z_wp := (if z = 0 then length shot_bytes else 4096 * z), z_capacity := 0, z_max_capacity := 4096\<rparr>)\<rparr>"

lemma slice_bound: "length (PutLengthPrefixedSlice [] d) \<le> length d + 5"
  by (simp add: PutLengthPrefixedSlice_def PutVarint32_def EncodeVarint32_def Let_def)

lemma shot_length: "length (FS_EncodeSnapshotTo shot_fs) < 1000"
proof -
  have l: "length (enc_link ''/a'') \<le> 11" "length (enc_link ''/b'') \<le> 11" using slice_bound [of "''/a''"] slice_bound [of "''/b''"] by (simp_all add: enc_link_def)
  have x: "length (enc_extent e) \<le> 25" for e using slice_bound [of "ZoneExtent_EncodeTo e []"] by (simp add: enc_extent_def length_ZoneExtent_EncodeTo)
  have "length (EncodeSnapshotTo shot_file []) \<le> 150"
    using l x [of "\<lparr>e_start = 12288, e_length = 3, e_zone = 3, e_level = 0\<rparr>"] unfolding EncodeSnapshotTo_def encode_pieces by (simp add: shot_file_def)
  then have "length (enc_file shot_fs e) \<le> 155" for e
    using slice_bound [of "EncodeSnapshotTo shot_file []"] by (simp add: enc_file_def shot_fs_def)
  from this [of "(''/a'', 1)"] this [of "(''/b'', 1)"]
  have "length (concat (map (enc_file shot_fs) (files shot_fs))) \<le> 310" by (subst shot_fs_def) simp
  then show ?thesis using slice_bound [of "concat (map (enc_file shot_fs) (files shot_fs))"] unfolding snapshot_record by simp
qed

lemma shot_facts: "names_ok shot_fs" "files shot_fs = [(''/a'', 1), (''/b'', 1)]" "file_at shot_fs f = shot_file"
proof -
  show f: "files shot_fs = [(''/a'', 1), (''/b'', 1)]" "file_at shot_fs f = shot_file" for f by (simp_all add: shot_fs_def)
  have "next_fid shot_fs = 10" by (simp add: shot_fs_def fs_dev_def new_ZenFS_def zbd.defs)
  moreover have "names_of 1 (files shot_fs) = {''/a'', ''/b''}" unfolding f names_of_def by auto
  ultimately show "names_ok shot_fs" by (simp add: names_ok_def linked_def file_map_ok_def f shot_file_def)
qed

lemma crash_facts: "log_holds big_env sample_crc mem_cont \<lparr>ml_zone = 0, ml_read_pos = 0\<rparr> [FS_EncodeSnapshotTo shot_fs] crash_dev"
  "encodable big_env crash_dev shot_file" "files crash_dev = []" "accounted {} crash_dev" "refs crash_dev g = 0"
proof -
  have r: "record_ok big_env (FS_EncodeSnapshotTo shot_fs)" using shot_length by (simp add: record_ok_def zMetaHeaderSize_def big_env_facts)
  then have "length shot_bytes \<le> 4096"
    using shot_length pad_size_less [of big_env "length (FS_EncodeSnapshotTo shot_fs) + 8"] unfolding shot_bytes_def
    by (subst length_record_buffer) (simp_all add: big_env_facts zMetaHeaderSize_def)
  then show "log_holds big_env sample_crc mem_cont \<lparr>ml_zone = 0, ml_read_pos = 0\<rparr> [FS_EncodeSnapshotTo shot_fs] crash_dev"
    using r by (simp add: log_holds_def Let_def crash_dev_def zone_wf_def big_env_facts log_bytes_def shot_bytes_def [symmetric])
  show "encodable big_env crash_dev shot_file"
    by (simp add: encodable_def shot_file_def crash_dev_def GetIOZone_def append_dev_def mem_dev_eval big_env_facts add64_def new_file_def NO_EXTENT_def)
  show "accounted {} crash_dev" by (simp add: accounted_def crash_dev_def append_dev_def mem_dev_eval)
  show "files crash_dev = []" "refs crash_dev g = 0" by (simp_all add: crash_dev_def fs_dev_def new_ZenFS_def zbd.defs)
qed

section \<open>Properties\<close>

text \<open>
  C32. Recovery is a replay of the log. If all reads of the device succeed, recovering from a log that
  holds a list of records has exactly the outcome and the resulting file system of replaying these
  records in order, and returns whenever the replay does; only the state of the device may differ.
  If a read fails, recovery may also report corruption.
\<close>

theorem recovery_replays_log:
  assumes "zoned_backend E cont" "responsive E" "\<And>c d. fe_crc F c d < 2 ^ 32" "log_holds E (fe_crc F) cont l rs s"
  shows "(\<exists>l' b. RecoverFrom E F l s = map_option (\<lambda>(st, s'). ((st, l'), s'\<lparr>be := b\<rparr>)) (replay E False rs s)) \<or>
    (\<not> readable E \<and> (\<exists>l' s'. RecoverFrom E F l s = Some ((Corruption, l'), s')))"
  unfolding RecoverFrom_def by (rule zoned_backend.recover_replays [OF assms(1,2), of "fe_crc F", OF assms(3,4)])

theorem recovery_replays_log_witness:
  "\<exists>l' b. RecoverFrom big_env sample_fenv \<lparr>ml_zone = 0, ml_read_pos = 0\<rparr> crash_dev =
     map_option (\<lambda>(st, s'). ((st, l'), s'\<lparr>be := b\<rparr>)) (replay big_env False [FS_EncodeSnapshotTo shot_fs] crash_dev)"
proof -
  have F: "fe_crc sample_fenv = sample_crc" by (simp add: sample_fenv_def)
  have crc: "\<And>c d. fe_crc sample_fenv c d < 2 ^ 32" by (simp add: F sample_crc_def)
  show ?thesis
    using recovery_replays_log [OF big.zoned_backend_axioms readable_responsive [OF big_env_facts(1)] crc crash_facts(1) [folded F]] big_env_facts(1)
    by blast
qed

text \<open>
  C33. A crash loses nothing that the snapshot holds. Recovering an empty file system from a log with
  the snapshot of \<open>s\<close> succeeds and yields the same names in the same order; names of one file lead to
  one object again and names of different files to different ones; all persistent metadata of the
  files, their extents and zones included, are as in \<open>s\<close>, and the used capacity of the zones is exact.
\<close>

theorem snapshot_recovered:
  fixes s t :: "('b, 'a) zenfs"
  assumes "zoned_backend E cont" "readable E" "\<And>c d. fe_crc F c d < 2 ^ 32" "log_holds E (fe_crc F) cont l [FS_EncodeSnapshotTo s] t"
    and "names_ok s" "\<forall>f \<in> snd ` set (files s). encodable E t (file_at s f)"
    and "files t = []" "accounted {} t" "\<forall>g \<ge> next_fid t. refs t g = 0"
  shows "\<exists>l' t' G. RecoverFrom E F l t = Some ((OK, l'), t') \<and> files t' = map (map_prod id G) (files s) \<and> inj_on G (snd ` set (files s)) \<and>
    (\<forall>f \<in> snd ` set (files s). persisted (file_at t' (G f)) = persisted (file_at s f)) \<and> accounted (snd ` set (files t')) t'"
proof -
  have "length (FS_EncodeSnapshotTo s) < 2 ^ 32" using assms(4) by (simp add: log_holds_def Let_def record_ok_def)
  from replay_snapshot [OF assms(5-9) this] obtain G t1
    where r: "replay E False [FS_EncodeSnapshotTo s] t = Some (OK, t1)" "restored s (snd ` set (files s)) G t1" by blast
  obtain l' b where run: "RecoverFrom E F l t = Some ((OK, l'), t1\<lparr>be := b\<rparr>)"
    using zoned_backend.recover_replays [OF assms(1) readable_responsive [OF assms(2)], of "fe_crc F" l _ t False, OF assms(3,4)] assms(2)
    unfolding RecoverFrom_def r(1) by auto
  note f = restored_files [OF assms(5) r(2)]
  have im: "snd ` set (files t1) = G ` snd ` set (files s)" unfolding f by force
  have "inj_on G (snd ` set (files s))" "\<forall>f \<in> snd ` set (files s). persisted (file_at t1 (G f)) = persisted (file_at s f)"
    "accounted (G ` snd ` set (files s)) t1" using r(2) unfolding restored_def by blast+
  moreover from this(3) have "accounted (G ` snd ` set (files s)) (t1\<lparr>be := b\<rparr>)" by (rule accounted_cong) simp_all
  ultimately show ?thesis using run f im
    by - (rule exI [of _ l'], rule exI [of _ "t1\<lparr>be := b\<rparr>"], rule exI [of _ G], simp)
qed

theorem snapshot_recovered_witness:
  "\<exists>l' t' g. RecoverFrom big_env sample_fenv \<lparr>ml_zone = 0, ml_read_pos = 0\<rparr> crash_dev = Some ((OK, l'), t') \<and>
     files t' = [(''/a'', g), (''/b'', g)] \<and> persisted (file_at t' g) = persisted shot_file"
proof -
  have F: "fe_crc sample_fenv = sample_crc" by (simp add: sample_fenv_def)
  have crc: "\<And>c d. fe_crc sample_fenv c d < 2 ^ 32" by (simp add: F sample_crc_def)
  have enc: "\<forall>f \<in> snd ` set (files shot_fs). encodable big_env crash_dev (file_at shot_fs f)" by (simp add: shot_facts(3) crash_facts(2))
  have m: "map (map_prod id G) (files shot_fs) = [(''/a'', G 1), (''/b'', G 1)]" for G :: "fid \<Rightarrow> fid" by (simp add: shot_facts(2))
  have "1 \<in> snd ` set (files shot_fs)" by (simp add: shot_facts(2))
  then show ?thesis
    using snapshot_recovered [OF big.zoned_backend_axioms big_env_facts(1) crc crash_facts(1) [folded F] shot_facts(1) enc crash_facts(3,4)]
      crash_facts(5) unfolding m shot_facts(3) by blast
qed

end
