(* ===== verification/Spec2Isabelle.thy ===== *)
theory Spec2Isabelle
  imports FileMeta Restore
begin

text \<open>
  A model of ZenFS as extended by PLAZA (\<open>lib/rocksdb/plugin/zenfs/fs\<close>): a file system for zoned
  block devices, with pluggable placement of files in zones and garbage collection.

  \<^bold>\<open>Parts and how they interact.\<close> A backend performs raw operations on the device. The device
  layer (\<open>ZonedBlockDevice\<close>) keeps one object per zone, accounts for space and for the limited
  numbers of open and active zones, and hands out zones: an open zone chosen by a placement policy
  or an empty one chosen by an allocator. The policies use per-level lists of files ordered by key.
  Files (\<open>ZoneFile\<close>) are lists of extents in zones; handles (\<open>io_zenfs.cc\<close>) buffer what is written to
  them. The file system (\<open>ZenFS\<close>) maps names to files and makes every change of their metadata
  persistent in a log in the metadata zones, from which mounting rebuilds the files. Directories and
  files that are not its own belong to an auxiliary file system.

  \<^bold>\<open>Theories.\<close>
  \<^item> \<open>Prelude\<close>: status codes, unsigned arithmetic with wrap-around, list lemmas.
  \<^item> \<open>Binary64\<close>: \<open>double\<close> arithmetic as rationals rounded to nearest even.
  \<^item> \<open>Params\<close>: \<open>param_loader.h\<close>.
  \<^item> \<open>Device\<close>: the data of \<open>zbd_zenfs.h\<close>; objects behind pointers live in heaps of the state.
  \<^item> \<open>ZoneOps\<close>: the members of \<open>Zone\<close> and the backend contract \<open>zoned_backend\<close>.
  \<^item> \<open>ZbdlibBackend\<close>: \<open>zbdlib_zenfs.cc\<close>, an implementation of the contract.
  \<^item> \<open>Zbd\<close>: \<open>zbd_zenfs.cc\<close> without the allocation of I/O zones.
  \<^item> \<open>Scan\<close>: the loop that all placement policies share, and its specification.
  \<^item> \<open>EmptyZone\<close>: the allocators of empty zones.
  \<^item> \<open>LevelFiles\<close>: the per-level file lists.
  \<^item> \<open>Placement\<close>: the placement policies of \<open>zbd_extension_zenfs.cc\<close>.
  \<^item> \<open>Policies\<close>: their dispatch and what they guarantee.
  \<^item> \<open>Alloc\<close>: the allocation of I/O zones, the token invariant and the zones used by migration.
  \<^item> \<open>Coding\<close>: the binary encodings of \<open>util/coding.h\<close>.
  \<^item> \<open>FileCodec\<close>: the metadata records of files and the accounting of zone usage.
  \<^item> \<open>ZoneFile\<close>, \<open>FileMeta\<close>: the operations of \<open>ZoneFile\<close> (\<open>zbd_zonefile_zenfs.cc\<close>).
  \<^item> \<open>FileRead\<close>: reading returns the contents of the file.
  \<^item> \<open>FileAppend\<close>: appending adds the data to the file and keeps everything else.
  \<^item> \<open>FileHandles\<close>: the file handles of \<open>io_zenfs.cc\<close> and their buffers.
  \<^item> \<open>MetaLog\<close>: \<open>ZenMetaLog\<close> and \<open>Superblock\<close> (\<open>fs_zenfs.cc\<close>, \<open>util/crc32c.h\<close>); the log is a queue of records.
  \<^item> \<open>Paths\<close>: the operations of \<open>std::filesystem::path\<close> that the file system uses.
  \<^item> \<open>FileSys\<close>: the state of \<open>ZenFS\<close> and the persistence of metadata; metadata and data do not interfere.
  \<^item> \<open>FileNames\<close>: opening, deleting, renaming, linking, queries and directories.
  \<^item> \<open>NameInv\<close>: the map of files and the names kept in the files agree, on failures too.
  \<^item> \<open>Recovery\<close>: decoding of records, \<open>RecoverFrom\<close>, \<open>Mount\<close> and \<open>MkFS\<close>.
  \<^item> \<open>Replay\<close>, \<open>Restore\<close>: recovery replays the log, and a snapshot restores all files.

  \<^bold>\<open>Conventions.\<close> The result \<open>None\<close> of an operation is a run that does not return or whose behaviour is
  undefined in the source; loops that may not end are partial functions, and theorems say when they
  return. No fuel is used. Unsigned integers are natural numbers with the wrap-around written out,
  strings are lists of characters, assertions have no effect. Parameters stand for code outside
  the sources: the operating system and \<open>libzbd\<close> (\<open>os\<close>), \<open>std::shuffle\<close> and \<open>std::sort\<close>, the checksum,
  the unique identifier, the version and the auxiliary file system (\<open>fenv\<close>).

  \<^bold>\<open>Not modelled.\<close> Threads and locks: every operation runs alone. Logging, metrics and JSON output,
  which have no effect on the state. Garbage collection and the migration of extents
  (\<open>fs_gc_zenfs.cc\<close>), the backend for zonefs (\<open>zonefs_zenfs.cc\<close>), the command line tools, and RocksDB
  itself apart from the encodings. Opening a file of the auxiliary file system yields an object
  outside the model, of which only the status is kept.
\<close>

end
